(* ===== verification/Prelude.thy ===== *)
theory Prelude
  imports Complex_Main "HOL-Library.AList" "HOL-Library.Signed_Division"
begin

text \<open>
  What the components share.  Fallible operations return \<open>'e + 'a\<close> (\<open>Inl\<close> is the thrown
  error).  The JavaScript string, BigInt, \<open>Map\<close> and \<open>Set\<close> operations the sources call are
  defined here, with the laws the component proofs rest on.  A string is a list of code units
  in the range U+0000 to U+00FF; the sources only ever look for ASCII characters in the strings
  they inspect.  A JavaScript \<open>Map\<close> iterates in insertion order and an update keeps the
  position of its key, which is what \<open>AList.update\<close> does on an association list.

  Two interfaces are stated as locales: \<open>keyed_store\<close> (what every in-memory store of the
  backend relies on) and \<open>step_system\<close> (an operation that keeps an invariant keeps it over
  every sequence of calls).
\<close>

named_theorems dec_simps \<open>facts about digits, decimal strings and BigInt arithmetic\<close>
named_theorems store_simps \<open>facts about keyed stores\<close>

section \<open>Results\<close>

type_synonym ('e, 'a) result = "'e + 'a"

definition rbind :: "('e, 'a) result \<Rightarrow> ('a \<Rightarrow> ('e, 'b) result) \<Rightarrow> ('e, 'b) result" where
  "rbind r f = (case r of Inl e \<Rightarrow> Inl e | Inr x \<Rightarrow> f x)"

lemma rbind_simps [simp]:
  "rbind (Inl e) f = Inl e"
  "rbind (Inr x) f = f x"
  by (simp_all add: rbind_def)

lemma rbind_Inr_iff: "rbind r f = Inr y \<longleftrightarrow> (\<exists>x. r = Inr x \<and> f x = Inr y)"
  by (cases r) auto

text \<open>
  Code that reads and writes a state and may throw: what was written before the exception stays
  written.
\<close>

type_synonym ('s, 'e, 'a) exec = "'s \<Rightarrow> ('e, 'a) result \<times> 's"

definition xreturn :: "'a \<Rightarrow> ('s, 'e, 'a) exec" where
  "xreturn a s = (Inr a, s)"

definition xthrow :: "'e \<Rightarrow> ('s, 'e, 'a) exec" where
  "xthrow e s = (Inl e, s)"

definition xbind :: "('s, 'e, 'a) exec \<Rightarrow> ('a \<Rightarrow> ('s, 'e, 'b) exec) \<Rightarrow> ('s, 'e, 'b) exec" where
  "xbind p f s = (case p s of (Inl e, s') \<Rightarrow> (Inl e, s') | (Inr a, s') \<Rightarrow> f a s')"

lemma exec_simps [simp]:
  "xreturn a s = (Inr a, s)"
  "xthrow e s = (Inl e, s)"
  "p s = (Inl e, s') \<Longrightarrow> xbind p f s = (Inl e, s')"
  "p s = (Inr a, s') \<Longrightarrow> xbind p f s = f a s'"
  by (simp_all add: xreturn_def xthrow_def xbind_def)

definition truthy :: "string option \<Rightarrow> bool" where
  "truthy v = (case v of None \<Rightarrow> False | Some s \<Rightarrow> s \<noteq> '''')"

text \<open>
  A numeric argument as the guards of the form \<open>!Number.isInteger(n) || ...\<close> see it: an
  integer, or any other number (a fraction, an infinity or NaN), which takes the error branch.
\<close>

datatype num_arg = IntNum int | NonIntNum

section \<open>Strings\<close>

definition is_ws :: "char \<Rightarrow> bool" where
  "is_ws c = (of_char c \<in> {9, 10, 11, 12, 13, 32, 160 :: nat})"

definition trim :: "string \<Rightarrow> string" where
  "trim s = rev (dropWhile is_ws (rev (dropWhile is_ws s)))"

definition startsWith :: "string \<Rightarrow> string \<Rightarrow> bool" where
  "startsWith s p = (take (length p) s = p)"

definition endsWith :: "string \<Rightarrow> string \<Rightarrow> bool" where
  "endsWith s p = (length p \<le> length s \<and> drop (length s - length p) s = p)"

definition padStart :: "nat \<Rightarrow> char \<Rightarrow> string \<Rightarrow> string" where
  "padStart n c s = replicate (n - length s) c @ s"

definition padEnd :: "nat \<Rightarrow> char \<Rightarrow> string \<Rightarrow> string" where
  "padEnd n c s = s @ replicate (n - length s) c"

definition is_digit :: "char \<Rightarrow> bool" where
  "is_digit c = (48 \<le> (of_char c :: nat) \<and> (of_char c :: nat) \<le> 57)"

definition digit_val :: "char \<Rightarrow> nat" where
  "digit_val c = of_char c - 48"

definition digit_char :: "nat \<Rightarrow> char" where
  "digit_char d = char_of (48 + d)"

text \<open>\<open>BigInt(s)\<close> on a string of decimal digits; \<open>BigInt('')\<close> is \<open>0n\<close>.\<close>

definition nat_of_digits :: "string \<Rightarrow> nat" where
  "nat_of_digits s = foldl (\<lambda>n c. 10 * n + digit_val c) 0 s"

text \<open>\<open>toString()\<close> of a non-negative integer.\<close>

fun nat_to_string :: "nat \<Rightarrow> string" where
  "nat_to_string n =
     (if n < 10 then [digit_char n] else nat_to_string (n div 10) @ [digit_char (n mod 10)])"

declare nat_to_string.simps [simp del]

definition bigint_to_string :: "int \<Rightarrow> string" where
  "bigint_to_string i = (if i < 0 then ''-'' @ nat_to_string (nat (- i)) else nat_to_string (nat i))"

definition bigint_of_string :: "string \<Rightarrow> int" where
  "bigint_of_string s = int (nat_of_digits s)"

lemma digit_char_simps [simp]:
  assumes "d < 10"
  shows "is_digit (digit_char d)" and "digit_val (digit_char d) = d"
  using assms by (simp_all add: is_digit_def digit_val_def digit_char_def)

lemma digit_val_less: "is_digit c \<Longrightarrow> digit_val c < 10"
  unfolding is_digit_def digit_val_def by linarith

lemma digit_not_special [simp]:
  "\<not> is_digit CHR ''.''" "\<not> is_digit CHR ''-''" "is_digit CHR ''0''" "digit_val CHR ''0'' = 0"
  by (simp_all add: is_digit_def digit_val_def)

lemma digit_not_ws: "is_digit c \<Longrightarrow> \<not> is_ws c"
  by (auto simp: is_digit_def is_ws_def)

lemma minus_not_ws [simp]: "\<not> is_ws CHR ''-''" and dot_not_ws [simp]: "\<not> is_ws CHR ''.''"
  by (simp_all add: is_ws_def)

lemma digit_neq [simp]: "is_digit c \<Longrightarrow> c \<noteq> CHR ''.''" "is_digit c \<Longrightarrow> c \<noteq> CHR ''-''"
  by auto

lemma foldl_digits:
  "foldl (\<lambda>n c. 10 * n + digit_val c) k s = k * 10 ^ length s + nat_of_digits s"
proof (induction s arbitrary: k)
  case Nil
  then show ?case by (simp add: nat_of_digits_def)
next
  case (Cons c s)
  have "nat_of_digits (c # s) = digit_val c * 10 ^ length s + nat_of_digits s"
    using Cons.IH [of "digit_val c"] by (simp add: nat_of_digits_def)
  then show ?case using Cons.IH [of "10 * k + digit_val c"] by (simp add: algebra_simps)
qed

lemma nat_of_digits_Nil [dec_simps]: "nat_of_digits [] = 0"
  by (simp add: nat_of_digits_def)

lemma nat_of_digits_append [dec_simps]:
  "nat_of_digits (s @ t) = nat_of_digits s * 10 ^ length t + nat_of_digits t"
  using foldl_digits [of "nat_of_digits s" t] by (simp add: nat_of_digits_def)

lemma nat_of_digits_single [dec_simps]: "nat_of_digits [c] = digit_val c"
  by (simp add: nat_of_digits_def)

lemma nat_of_digits_zeros [dec_simps]: "nat_of_digits (replicate n CHR ''0'') = 0"
proof (induction n)
  case (Suc n)
  have "replicate (Suc n) CHR ''0'' = replicate n CHR ''0'' @ [CHR ''0'']"
    by (simp add: replicate_append_same)
  with Suc show ?case by (simp add: nat_of_digits_append nat_of_digits_single)
qed (simp add: nat_of_digits_def)

lemma nat_of_digits_padStart [dec_simps]: "nat_of_digits (padStart n CHR ''0'' s) = nat_of_digits s"
  by (simp add: padStart_def nat_of_digits_append nat_of_digits_zeros)

lemma nat_of_digits_less: "list_all is_digit s \<Longrightarrow> nat_of_digits s < 10 ^ length s"
proof (induction s rule: rev_induct)
  case (snoc c s)
  then have "nat_of_digits s < 10 ^ length s" "digit_val c < 10"
    by (simp_all add: digit_val_less)
  then show ?case by (simp add: nat_of_digits_append nat_of_digits_single)
qed (simp add: nat_of_digits_def)

lemma nat_to_string_props:
  "nat_of_digits (nat_to_string n) = n \<and> list_all is_digit (nat_to_string n) \<and> nat_to_string n \<noteq> []"
proof (induction n rule: nat_to_string.induct)
  case (1 n)
  show ?case
  proof (cases "n < 10")
    case True
    then show ?thesis by (simp add: nat_to_string.simps [of n] nat_of_digits_single)
  next
    case False
    with 1 show ?thesis
      by (simp add: nat_to_string.simps [of n] nat_of_digits_append nat_of_digits_single)
  qed
qed

lemma nat_of_digits_to_string [simp]: "nat_of_digits (nat_to_string n) = n"
  and nat_to_string_digits [simp]: "list_all is_digit (nat_to_string n)"
  and nat_to_string_nonempty [simp]: "nat_to_string n \<noteq> []"
  using nat_to_string_props by blast+

lemma nat_to_string_0 [simp]: "nat_to_string 0 = ''0''"
  by code_simp

lemma length_nat_to_string: "n < 10 ^ k \<Longrightarrow> 0 < k \<Longrightarrow> length (nat_to_string n) \<le> k"
proof (induction n arbitrary: k rule: nat_to_string.induct)
  case (1 n)
  show ?case
  proof (cases "n < 10")
    case True
    with "1.prems" show ?thesis by (simp add: nat_to_string.simps [of n])
  next
    case False
    have "k \<noteq> 1" using "1.prems" False by auto
    with "1.prems" obtain k' where k: "k = Suc k'" "0 < k'"
      by (cases k) auto
    with "1.prems" have "n div 10 < 10 ^ k'" by (simp add: less_mult_imp_div_less mult.commute)
    with "1.IH" False k have "length (nat_to_string (n div 10)) \<le> k'" by simp
    with False k show ?thesis by (simp add: nat_to_string.simps [of n])
  qed
qed

lemma length_padStart_digits:
  "n < 10 ^ k \<Longrightarrow> 0 < k \<Longrightarrow> length (padStart k c (nat_to_string n)) = k"
  using length_nat_to_string [of n k] by (simp add: padStart_def)

lemma padStart_digits [simp]: "list_all is_digit (padStart k CHR ''0'' (nat_to_string n))"
  using nat_to_string_digits [of n] unfolding padStart_def list_all_append
  by (simp add: list_all_iff set_replicate_conv_if)

lemma trim_noop:
  assumes "s \<noteq> []" "\<not> is_ws (hd s)" "\<not> is_ws (last s)"
  shows "trim s = s"
proof -
  have "dropWhile is_ws s = s" using assms by (cases s) auto
  moreover have "dropWhile is_ws (rev s) = rev s"
    using assms by (cases s rule: rev_cases) auto
  ultimately show ?thesis by (simp add: trim_def)
qed

section \<open>BigInt division\<close>

lemma sdiv_nonneg [dec_simps]: "0 \<le> a \<Longrightarrow> 0 < b \<Longrightarrow> a sdiv b = a div (b :: int)"
  by (cases "a = 0") (simp_all add: signed_divide_int_def sgn_if)

lemma smod_nonneg [dec_simps]: "0 \<le> a \<Longrightarrow> 0 < b \<Longrightarrow> a smod b = a mod (b :: int)"
  using minus_sdiv_mult_eq_smod [of a b] by (simp add: sdiv_nonneg minus_div_mult_eq_mod)

section \<open>Maps and sets\<close>

type_synonym ('k, 'v) jsmap = "('k \<times> 'v) list"

abbreviation map_get :: "('k, 'v) jsmap \<Rightarrow> 'k \<Rightarrow> 'v option" where
  "map_get m k \<equiv> map_of m k"

abbreviation map_set :: "'k \<Rightarrow> 'v \<Rightarrow> ('k, 'v) jsmap \<Rightarrow> ('k, 'v) jsmap" where
  "map_set k v m \<equiv> AList.update k v m"

abbreviation map_delete :: "'k \<Rightarrow> ('k, 'v) jsmap \<Rightarrow> ('k, 'v) jsmap" where
  "map_delete k m \<equiv> AList.delete k m"

definition map_has :: "('k, 'v) jsmap \<Rightarrow> 'k \<Rightarrow> bool" where
  "map_has m k = (map_of m k \<noteq> None)"

abbreviation map_values :: "('k, 'v) jsmap \<Rightarrow> 'v list" where
  "map_values m \<equiv> map snd m"

definition map_wf :: "('k, 'v) jsmap \<Rightarrow> bool" where
  "map_wf m = distinct (map fst m)"

definition set_add :: "'a \<Rightarrow> 'a list \<Rightarrow> 'a list" where
  "set_add x s = (if x \<in> set s then s else s @ [x])"

lemma set_add_simps [simp]:
  "set (set_add x s) = insert x (set s)"
  "distinct (set_add x s) \<longleftrightarrow> distinct s"
  "x \<notin> set s \<Longrightarrow> length (set_add x s) = Suc (length s)"
  by (auto simp: set_add_def)

lemma map_has_iff: "map_has m k \<longleftrightarrow> k \<in> fst ` set m"
  by (simp add: map_has_def map_of_eq_None_iff)

lemma find_unique:
  assumes "x \<in> set xs" "P x" "\<forall>y\<in>set xs. P y \<longrightarrow> y = x"
  shows "find P xs = Some x"
proof (cases "find P xs")
  case None
  with assms(1,2) show ?thesis unfolding find_None_iff by blast
next
  case (Some y)
  then have "y \<in> set xs" "P y" unfolding find_Some_iff by auto
  with assms(3) Some show ?thesis by blast
qed

lemma map_set_twice [store_simps]: "map_set k v (map_set k u m) = map_set k v m"
  by (induction m) auto

lemma map_set_same: "map_get m k = Some v \<Longrightarrow> map_set k v m = m"
  by (induction m) auto

lemma map_set_fresh: "\<not> map_has m k \<Longrightarrow> map_set k v m = m @ [(k, v)]"
  by (induction m) (auto simp: map_has_iff)

lemma length_map_set: "length (map_set k v m) = (if map_has m k then length m else Suc (length m))"
  by (induction m) (auto simp: map_has_iff)

lemma map_set_keys [simp]: "fst ` set (map_set k v m) = insert k (fst ` set m)"
  using dom_update [of k v m] by (simp add: dom_map_of_conv_image_fst)

lemma map_wf_set: "map_wf m \<Longrightarrow> map_wf (map_set k v m)"
  by (simp add: map_wf_def distinct_update)

lemma map_wf_delete: "map_wf m \<Longrightarrow> map_wf (map_delete k m)"
  by (simp add: map_wf_def distinct_delete)

lemma map_wf_Nil [simp]: "map_wf []"
  by (simp add: map_wf_def)

lemma map_values_get: "map_wf m \<Longrightarrow> v \<in> set (map_values m) \<longleftrightarrow> (\<exists>k. map_get m k = Some v)"
  by (force simp: map_wf_def map_of_eq_Some_iff image_iff)

lemma distinct_map_values:
  assumes "map_wf m" "\<And>k v. (k, v) \<in> set m \<Longrightarrow> f v = k"
  shows "distinct (map_values m)"
proof -
  have "inj_on snd (set m)" using assms(2) by (auto simp: inj_on_def) metis
  moreover have "distinct m" using assms(1) by (simp add: map_wf_def distinct_map)
  ultimately show ?thesis by (simp add: distinct_map)
qed

section \<open>The interface of a keyed store\<close>

text \<open>
  What the disputes, slash requests, proposals, bond records and admission records rely on: a
  read after a write sees the written value, writes and deletes leave other keys alone, and the
  representation invariant is kept.
\<close>

locale keyed_store =
  fixes get :: "'s \<Rightarrow> 'k \<Rightarrow> 'v option"
    and put :: "'k \<Rightarrow> 'v \<Rightarrow> 's \<Rightarrow> 's"
    and remove :: "'k \<Rightarrow> 's \<Rightarrow> 's"
    and empty :: 's
    and invar :: "'s \<Rightarrow> bool"
  assumes get_empty: "get empty k = None"
    and get_put: "get (put k v s) k' = (if k' = k then Some v else get s k')"
    and get_remove: "get (remove k s) k' = (if k' = k then None else get s k')"
    and invar_empty: "invar empty"
    and invar_put: "invar s \<Longrightarrow> invar (put k v s)"
    and invar_remove: "invar s \<Longrightarrow> invar (remove k s)"
begin

lemma get_put_same: "get (put k v s) k = Some v"
  by (simp add: get_put)

lemma get_put_other: "k' \<noteq> k \<Longrightarrow> get (put k v s) k' = get s k'"
  by (simp add: get_put)

lemma put_keeps_all:
  assumes "\<And>k v. get s k = Some v \<Longrightarrow> P k v" and "P k0 v0"
  shows "get (put k0 v0 s) k = Some v \<Longrightarrow> P k v"
  using assms by (auto simp: get_put split: if_splits)

lemma remove_keeps_all:
  assumes "\<And>k v. get s k = Some v \<Longrightarrow> P k v"
  shows "get (remove k0 s) k = Some v \<Longrightarrow> P k v"
  using assms by (auto simp: get_remove split: if_splits)

lemma put_dom: "(get (put k0 v0 s) k \<noteq> None) \<longleftrightarrow> k = k0 \<or> get s k \<noteq> None"
  by (simp add: get_put)

end

interpretation jm: keyed_store "map_of :: ('k, 'v) jsmap \<Rightarrow> 'k \<Rightarrow> 'v option" AList.update AList.delete
  "[]" map_wf
  by unfold_locales (auto simp: update_conv' delete_conv' map_wf_set map_wf_delete)

lemmas jsmap_simps [store_simps] = jm.get_put jm.get_remove jm.get_empty

section \<open>Sequences of operations\<close>

text \<open>
  A component whose operations are a function from a state and an event to a state: an invariant
  every step keeps holds after every run, and a relation every step respects relates the two ends
  of a run.
\<close>

locale step_system =
  fixes step :: "'s \<Rightarrow> 'e \<Rightarrow> 's"
    and inv :: "'s \<Rightarrow> bool"
  assumes step_inv: "inv s \<Longrightarrow> inv (step s e)"
begin

lemma run_inv: "inv s \<Longrightarrow> inv (foldl step s es)"
  by (induction es arbitrary: s) (simp_all add: step_inv)

end

locale ordered_step_system = step_system +
  fixes le :: "'s \<Rightarrow> 's \<Rightarrow> bool"
  assumes le_refl: "le s s"
    and le_trans: "le s t \<Longrightarrow> le t u \<Longrightarrow> le s u"
    and step_le: "inv s \<Longrightarrow> le s (step s e)"
begin

lemma run_le: "inv s \<Longrightarrow> le s (foldl step s es)"
proof (induction es arbitrary: s)
  case Nil
  then show ?case by (simp add: le_refl)
next
  case (Cons e es)
  then show ?case using step_le [of s e] Cons.IH [of "step s e"] step_inv [of s e]
    by (auto intro: le_trans)
qed

end

end
