(* ===== verification/DecimalMath.thy ===== *)
theory DecimalMath
  imports Prelude
begin

text \<open>
  \<open>src/src/lib/decimalMath.ts\<close>: decimal strings, exact addition, subtraction and
  multiplication, rounding, division and the \<open>NUMERIC(p,s)\<close> bounds check.  The operations take
  and return strings as the code does and throw through \<open>Inl\<close>.  BigInt division and remainder
  truncate towards zero (\<open>sdiv\<close>, \<open>smod\<close>).  A numeric \<open>scale\<close> or \<open>precision\<close> argument is a
  \<open>num_arg\<close>.  The abstract counterpart is exact rational arithmetic: \<open>pd_value\<close> reads a parsed
  decimal as a rational and \<open>round_signed\<close> is the mathematical rounding of a rational to an
  integer; the theorems state that the string operations compute on those values.
\<close>

section \<open>Data\<close>

datatype RoundingMode = HALF_UP | HALF_DOWN | HALF_EVEN | DOWN | UP

definition DEFAULT_ROUNDING_MODE :: RoundingMode where
  "DEFAULT_ROUNDING_MODE = HALF_UP"

datatype dec_error =
    InvalidDecimalString string
  | InvalidScale num_arg
  | InvalidPrecision num_arg
  | DivisionByZeroError string string
  | DecimalScaleError string int nat
  | DecimalOverflowError string int int

record ParsedDecimal =
  negative :: bool
  intStr :: string
  fracStr :: string

section \<open>Internal helpers\<close>

text \<open>The regular expression \<open>^\d+(\.\d*)?$\<close>.\<close>

definition matches_decimal :: "string \<Rightarrow> bool" where
  "matches_decimal s =
     (takeWhile is_digit s \<noteq> [] \<and>
      (case dropWhile is_digit s of [] \<Rightarrow> True | c # r \<Rightarrow> c = CHR ''.'' \<and> list_all is_digit r))"

definition parseDecimalString :: "string \<Rightarrow> (dec_error, ParsedDecimal) result" where
  "parseDecimalString v =
     (let trimmed = trim v;
          neg = startsWith trimmed ''-'';
          abs_str = (if neg then drop 1 trimmed else trimmed)
      in if \<not> matches_decimal abs_str then Inl (InvalidDecimalString v)
         else Inr \<lparr>negative = neg,
                   intStr = takeWhile (\<lambda>c. c \<noteq> CHR ''.'') abs_str,
                   fracStr = drop 1 (dropWhile (\<lambda>c. c \<noteq> CHR ''.'') abs_str)\<rparr>)"

definition formatScaledInt :: "int \<Rightarrow> nat \<Rightarrow> string" where
  "formatScaledInt v scale =
     (if scale = 0 then bigint_to_string v
      else let sf = 10 ^ scale; intPart = v sdiv sf; fracPart = v smod sf
           in bigint_to_string intPart @ ''.'' @ padStart scale CHR ''0'' (bigint_to_string fracPart))"

definition toScaledMagnitude :: "ParsedDecimal \<Rightarrow> nat \<Rightarrow> int" where
  "toScaledMagnitude p scale =
     (let pad = scale - length (fracStr p);
          i = bigint_of_string (intStr p);
          frac = (if length (fracStr p) > 0 then bigint_of_string (fracStr p) else 0)
      in i * 10 ^ scale + frac * 10 ^ pad)"

definition applyDivisionRounding :: "int \<Rightarrow> int \<Rightarrow> int \<Rightarrow> RoundingMode \<Rightarrow> int" where
  "applyDivisionRounding truncated remainder divisor mode =
     (let twice = remainder * 2 in
      case mode of
        DOWN \<Rightarrow> truncated
      | UP \<Rightarrow> if remainder > 0 then truncated + 1 else truncated
      | HALF_UP \<Rightarrow> if twice \<ge> divisor then truncated + 1 else truncated
      | HALF_DOWN \<Rightarrow> if twice > divisor then truncated + 1 else truncated
      | HALF_EVEN \<Rightarrow>
          if twice > divisor then truncated + 1
          else if twice < divisor then truncated
          else if truncated smod 2 = 0 then truncated else truncated + 1)"

section \<open>Public operations\<close>

definition roundToScale :: "string \<Rightarrow> num_arg \<Rightarrow> RoundingMode \<Rightarrow> (dec_error, string) result" where
  "roundToScale v scale_arg mode =
     (case scale_arg of
        NonIntNum \<Rightarrow> Inl (InvalidScale scale_arg)
      | IntNum scale_int \<Rightarrow>
          if scale_int < 0 then Inl (InvalidScale scale_arg)
          else rbind (parseDecimalString v) (\<lambda>p.
            let scale = nat scale_int in
            if length (fracStr p) \<le> scale then
              let pad = scale - length (fracStr p);
                  i = bigint_of_string (intStr p);
                  frac = (if length (fracStr p) > 0 then bigint_of_string (fracStr p) else 0);
                  scaled = i * 10 ^ scale + frac * 10 ^ pad;
                  formatted = formatScaledInt scaled scale
              in Inr (if negative p \<and> scaled \<noteq> 0 then ''-'' @ formatted else formatted)
            else
              let inputScale = length (fracStr p);
                  intValue = bigint_of_string (intStr p) * 10 ^ inputScale + bigint_of_string (fracStr p);
                  shift = inputScale - scale;
                  shiftFactor = 10 ^ shift;
                  truncated = intValue sdiv shiftFactor;
                  remainder = intValue smod shiftFactor;
                  rounded = applyDivisionRounding truncated remainder shiftFactor mode;
                  formatted = formatScaledInt rounded scale
              in Inr (if negative p \<and> rounded \<noteq> 0 then ''-'' @ formatted else formatted)))"

definition isValidPositiveDecimal :: "string \<Rightarrow> bool" where
  "isValidPositiveDecimal v =
     (case parseDecimalString v of
        Inl _ \<Rightarrow> False
      | Inr p \<Rightarrow> if negative p then False else bigint_of_string (intStr p @ fracStr p) > 0)"

definition multiplyDecimals :: "string \<Rightarrow> string \<Rightarrow> (dec_error, string) result" where
  "multiplyDecimals a b =
     rbind (parseDecimalString a) (\<lambda>pa.
     rbind (parseDecimalString b) (\<lambda>pb.
       let aInt = bigint_of_string (intStr pa @ fracStr pa);
           bInt = bigint_of_string (intStr pb @ fracStr pb);
           prod = aInt * bInt;
           scale = length (fracStr pa) + length (fracStr pb);
           neg = (negative pa \<noteq> negative pb);
           absProduct = (if prod < 0 then - prod else prod);
           formatted = formatScaledInt absProduct scale
       in Inr (if neg \<and> prod \<noteq> 0 then ''-'' @ formatted else formatted)))"

definition addDecimals :: "string \<Rightarrow> string \<Rightarrow> (dec_error, string) result" where
  "addDecimals a b =
     rbind (parseDecimalString a) (\<lambda>pa.
     rbind (parseDecimalString b) (\<lambda>pb.
       let scale = max (length (fracStr pa)) (length (fracStr pb));
           aSigned = (if negative pa then -1 else 1) * toScaledMagnitude pa scale;
           bSigned = (if negative pb then -1 else 1) * toScaledMagnitude pb scale;
           sum = aSigned + bSigned;
           formatted = formatScaledInt (if sum < 0 then - sum else sum) scale
       in Inr (if sum < 0 then ''-'' @ formatted else formatted)))"

definition subtractDecimals :: "string \<Rightarrow> string \<Rightarrow> (dec_error, string) result" where
  "subtractDecimals a b =
     rbind (parseDecimalString a) (\<lambda>pa.
     rbind (parseDecimalString b) (\<lambda>pb.
       let scale = max (length (fracStr pa)) (length (fracStr pb));
           aSigned = (if negative pa then -1 else 1) * toScaledMagnitude pa scale;
           bSigned = (if negative pb then -1 else 1) * toScaledMagnitude pb scale;
           diff = aSigned - bSigned;
           formatted = formatScaledInt (if diff < 0 then - diff else diff) scale
       in Inr (if diff < 0 then ''-'' @ formatted else formatted)))"

definition divideDecimals ::
  "string \<Rightarrow> string \<Rightarrow> num_arg \<Rightarrow> RoundingMode \<Rightarrow> (dec_error, string) result" where
  "divideDecimals a b scale_arg mode =
     (case scale_arg of
        NonIntNum \<Rightarrow> Inl (InvalidScale scale_arg)
      | IntNum scale_int \<Rightarrow>
          if scale_int < 0 then Inl (InvalidScale scale_arg)
          else
            rbind (parseDecimalString a) (\<lambda>pa.
            rbind (parseDecimalString b) (\<lambda>pb.
              let numerator = bigint_of_string (intStr pa @ fracStr pa);
                  denominator = bigint_of_string (intStr pb @ fracStr pb)
              in if denominator = 0 then Inl (DivisionByZeroError a b)
                 else
                   let scale = nat scale_int;
                       shift = scale_int + int (length (fracStr pb)) - int (length (fracStr pa));
                       scaledNumerator = (if shift \<ge> 0 then numerator * 10 ^ nat shift else numerator);
                       divisor = (if shift \<ge> 0 then denominator else denominator * 10 ^ nat (- shift));
                       truncated = scaledNumerator sdiv divisor;
                       remainder = scaledNumerator smod divisor;
                       rounded = applyDivisionRounding truncated remainder divisor mode;
                       neg = (negative pa \<noteq> negative pb);
                       formatted = formatScaledInt rounded scale
                   in Inr (if neg \<and> rounded \<noteq> 0 then ''-'' @ formatted else formatted))))"

definition assertWithinNumericBounds :: "string \<Rightarrow> num_arg \<Rightarrow> num_arg \<Rightarrow> (dec_error, unit) result" where
  "assertWithinNumericBounds v precision_arg scale_arg =
     (case precision_arg of
        NonIntNum \<Rightarrow> Inl (InvalidPrecision precision_arg)
      | IntNum prec \<Rightarrow>
          if prec \<le> 0 then Inl (InvalidPrecision precision_arg)
          else
            (case scale_arg of
               NonIntNum \<Rightarrow> Inl (InvalidScale scale_arg)
             | IntNum scale \<Rightarrow>
                 if scale < 0 \<or> scale > prec then Inl (InvalidScale scale_arg)
                 else
                   rbind (parseDecimalString v) (\<lambda>p.
                     if int (length (fracStr p)) > scale
                     then Inl (DecimalScaleError v scale (length (fracStr p)))
                     else
                       let strippedIntStr = dropWhile (\<lambda>c. c = CHR ''0'') (intStr p);
                           significantIntDigits = int (length strippedIntStr);
                           maxIntDigits = prec - scale
                       in if significantIntDigits > maxIntDigits
                          then Inl (DecimalOverflowError v prec scale)
                          else Inr ())))"

definition compareDecimals :: "string \<Rightarrow> string \<Rightarrow> (dec_error, int) result" where
  "compareDecimals a b =
     rbind (parseDecimalString a) (\<lambda>pa.
     rbind (parseDecimalString b) (\<lambda>pb.
       let scale = max (length (fracStr pa)) (length (fracStr pb));
           aSigned = (if negative pa then -1 else 1) * toScaledMagnitude pa scale;
           bSigned = (if negative pb then -1 else 1) * toScaledMagnitude pb scale
       in Inr (if aSigned < bSigned then -1 else if aSigned > bSigned then 1 else 0)))"

section \<open>Values of decimal strings\<close>

definition pd_mag :: "ParsedDecimal \<Rightarrow> nat" where
  "pd_mag p = nat_of_digits (intStr p @ fracStr p)"

definition pd_signed :: "ParsedDecimal \<Rightarrow> int" where
  "pd_signed p = (if negative p then -1 else 1) * int (pd_mag p)"

definition pd_value :: "ParsedDecimal \<Rightarrow> rat" where
  "pd_value p = of_int (pd_signed p) / 10 ^ length (fracStr p)"

definition pd_wf :: "ParsedDecimal \<Rightarrow> bool" where
  "pd_wf p = (intStr p \<noteq> [] \<and> list_all is_digit (intStr p) \<and> list_all is_digit (fracStr p))"

text \<open>\<open>denotes s q k\<close>: the string parses, its value is \<open>q\<close> and it has \<open>k\<close> fractional digits.\<close>

definition denotes :: "string \<Rightarrow> rat \<Rightarrow> nat \<Rightarrow> bool" where
  "denotes s q k =
     (case parseDecimalString s of
        Inl _ \<Rightarrow> False
      | Inr p \<Rightarrow> pd_value p = q \<and> length (fracStr p) = k)"

lemma takeWhile_digits_dot:
  "list_all is_digit i \<Longrightarrow> takeWhile (\<lambda>c. c \<noteq> CHR ''.'') (i @ CHR ''.'' # f) = i"
  by (induction i) auto

lemma dropWhile_digits_dot:
  "list_all is_digit i \<Longrightarrow> dropWhile (\<lambda>c. c \<noteq> CHR ''.'') (i @ CHR ''.'' # f) = CHR ''.'' # f"
  by (induction i) auto

lemma takeWhile_digits:
  "list_all is_digit i \<Longrightarrow> takeWhile (\<lambda>c. c \<noteq> CHR ''.'') i = i"
  "list_all is_digit i \<Longrightarrow> dropWhile (\<lambda>c. c \<noteq> CHR ''.'') i = []"
  by (induction i) auto

lemma split_digits:
  assumes "list_all is_digit i"
  shows "takeWhile is_digit i = i" "dropWhile is_digit i = []"
    and "takeWhile is_digit (i @ CHR ''.'' # f) = i"
    and "dropWhile is_digit (i @ CHR ''.'' # f) = CHR ''.'' # f"
  using assms by (induction i) auto

lemma matches_decimal_cases:
  "matches_decimal s \<longleftrightarrow>
     (\<exists>i f. i \<noteq> [] \<and> list_all is_digit i \<and> list_all is_digit f \<and> (s = i \<and> f = [] \<or> s = i @ CHR ''.'' # f))"
  (is "?L \<longleftrightarrow> ?R")
proof
  assume L: ?L
  have s: "s = takeWhile is_digit s @ dropWhile is_digit s" by simp
  have d: "list_all is_digit (takeWhile is_digit s)" by (auto simp: list_all_iff dest: set_takeWhileD)
  show ?R
  proof (cases "dropWhile is_digit s")
    case Nil
    with L s d show ?thesis by (intro exI [of _ s] exI [of _ "[]"]) (auto simp: matches_decimal_def)
  next
    case (Cons c r)
    with L s d show ?thesis
      by (intro exI [of _ "takeWhile is_digit s"] exI [of _ r]) (auto simp: matches_decimal_def)
  qed
next
  assume ?R
  then obtain i f where i: "i \<noteq> []" "list_all is_digit i" "list_all is_digit f"
    and s: "s = i \<and> f = [] \<or> s = i @ CHR ''.'' # f" by blast
  show ?L using s i by (elim disjE conjE) (simp_all add: matches_decimal_def split_digits)
qed

lemma parse_wf: "parseDecimalString s = Inr p \<Longrightarrow> pd_wf p"
  by (auto simp: parseDecimalString_def Let_def matches_decimal_cases pd_wf_def takeWhile_digits
      takeWhile_digits_dot dropWhile_digits_dot split: if_splits)

lemma decimal_trim:
  assumes "i \<noteq> []" "list_all is_digit i" "list_all is_digit f" "d = [] \<and> f = [] \<or> d = ''.''"
    and "g = [] \<or> g = ''-''"
  shows "trim (g @ i @ d @ f) = g @ i @ d @ f"
proof (rule trim_noop)
  have i: "is_digit (hd i)" "is_digit (last i)" using assms(1,2) by (auto simp: list_all_iff)
  show "g @ i @ d @ f \<noteq> []" using assms(1) by simp
  show "\<not> is_ws (hd (g @ i @ d @ f))"
    using assms(1,5) i by (auto simp: digit_not_ws)
  have "f \<noteq> [] \<Longrightarrow> is_digit (last f)" using assms(3) last_in_set [of f] by (auto simp: list_all_iff)
  then show "\<not> is_ws (last (g @ i @ d @ f))"
    using assms i by (auto simp: digit_not_ws split: if_splits)
qed

lemma parse_decimal_form:
  assumes i: "i \<noteq> []" "list_all is_digit i" and f: "list_all is_digit f"
    and d: "d = [] \<and> f = [] \<or> d = ''.''" and g: "g = [] \<or> g = ''-''"
  shows "parseDecimalString (g @ i @ d @ f) = Inr \<lparr>negative = (g \<noteq> []), intStr = i, fracStr = f\<rparr>"
proof -
  have t: "trim (g @ i @ d @ f) = g @ i @ d @ f" using assms by (intro decimal_trim) auto
  have hd: "\<not> startsWith (i @ d @ f) ''-''"
    using i by (cases i) (auto simp: startsWith_def)
  have st: "startsWith (g @ i @ d @ f) ''-'' = (g \<noteq> [])"
    using g hd by (auto simp: startsWith_def)
  have abs: "(if g \<noteq> [] then drop 1 (g @ i @ d @ f) else g @ i @ d @ f) = i @ d @ f"
    using g by auto
  have m: "matches_decimal (i @ d @ f)" unfolding matches_decimal_cases using i f d by force
  have "takeWhile (\<lambda>c. c \<noteq> CHR ''.'') (i @ d @ f) = i"
    and "drop 1 (dropWhile (\<lambda>c. c \<noteq> CHR ''.'') (i @ d @ f)) = f"
    using i f d by (auto simp: takeWhile_digits takeWhile_digits_dot dropWhile_digits_dot)
  with m show ?thesis by (simp add: parseDecimalString_def Let_def t st abs)
qed

lemma bigint_to_string_nonneg: "0 \<le> v \<Longrightarrow> bigint_to_string v = nat_to_string (nat v)"
  by (simp add: bigint_to_string_def)

lemma parse_formatScaledInt:
  assumes "0 \<le> v" and g: "g = [] \<or> g = ''-''"
  obtains p where "parseDecimalString (g @ formatScaledInt v k) = Inr p"
    and "negative p = (g \<noteq> [])" and "length (fracStr p) = k" and "pd_mag p = nat v"
proof (cases "k = 0")
  case True
  with assms have "formatScaledInt v k = nat_to_string (nat v) @ [] @ []"
    by (simp add: formatScaledInt_def bigint_to_string_nonneg)
  with parse_decimal_form [of "nat_to_string (nat v)" "[]" "[]" g] g that True show thesis
    by (auto simp: pd_mag_def)
next
  case False
  define n where "n = nat v"
  have v: "v = int n" using assms by (simp add: n_def)
  let ?f = "padStart k CHR ''0'' (nat_to_string (n mod 10 ^ k))"
  let ?i = "nat_to_string (n div 10 ^ k)"
  have q: "int n div 10 ^ k = int (n div 10 ^ k)" "int n mod 10 ^ k = int (n mod 10 ^ k)"
    by (simp_all add: zdiv_int zmod_int)
  have F: "formatScaledInt v k = ?i @ ''.'' @ ?f"
    using False by (simp add: formatScaledInt_def v Let_def sdiv_nonneg smod_nonneg q bigint_to_string_nonneg)
  have len: "length ?f = k" using False by (intro length_padStart_digits) auto
  have "nat_of_digits (?i @ ?f) = n"
    using len by (simp only: nat_of_digits_append nat_of_digits_padStart nat_of_digits_to_string
        div_mult_mod_eq)
  with parse_decimal_form [of ?i ?f "''.''" g] g F len that show thesis
    by (auto simp: pd_mag_def n_def)
qed

lemma denotes_format:
  assumes "0 \<le> v"
  shows "denotes (formatScaledInt v k) (of_int v / 10 ^ k) k"
    and "denotes (''-'' @ formatScaledInt v k) (- of_int v / 10 ^ k) k"
proof -
  show "denotes (formatScaledInt v k) (of_int v / 10 ^ k) k"
    by (rule parse_formatScaledInt [OF assms, of "[]" k])
      (use assms in \<open>auto simp: denotes_def pd_value_def pd_signed_def\<close>)
  show "denotes (''-'' @ formatScaledInt v k) (- of_int v / 10 ^ k) k"
    by (rule parse_formatScaledInt [OF assms, of "''-''" k])
      (use assms in \<open>auto simp: denotes_def pd_value_def pd_signed_def\<close>)
qed

text \<open>The two ways the operations attach a sign: from a flag kept beside the magnitude, and from the
  sign of the integer.\<close>

definition flag_str :: "bool \<Rightarrow> int \<Rightarrow> nat \<Rightarrow> string" where
  "flag_str neg v k = (if neg \<and> v \<noteq> 0 then ''-'' @ formatScaledInt v k else formatScaledInt v k)"

definition signed_str :: "int \<Rightarrow> nat \<Rightarrow> string" where
  "signed_str v k =
     (if v < 0 then ''-'' @ formatScaledInt (if v < 0 then - v else v) k
      else formatScaledInt (if v < 0 then - v else v) k)"

lemma denotes_flag_str:
  "0 \<le> v \<Longrightarrow> denotes (flag_str neg v k) ((if neg then -1 else 1) * of_int v / 10 ^ k) k"
  using denotes_format [of v k] by (auto simp: flag_str_def)

lemma denotes_signed_str: "denotes (signed_str v k) (of_int v / 10 ^ k) k"
  using denotes_format(1) [of v k] denotes_format(2) [of "- v" k]
  by (cases "v < 0") (auto simp: signed_str_def)

lemma toScaledMagnitude_eq:
  "length (fracStr p) \<le> k \<Longrightarrow> toScaledMagnitude p k = int (pd_mag p) * 10 ^ (k - length (fracStr p))"
  by (simp add: toScaledMagnitude_def pd_mag_def bigint_of_string_def nat_of_digits_append Let_def
      distrib_right power_add [symmetric] nat_of_digits_Nil)

lemma scaled_value:
  assumes "length (fracStr p) \<le> k"
  shows "of_int ((if negative p then -1 else 1) * toScaledMagnitude p k) = pd_value p * 10 ^ k"
proof -
  have "(10::rat) ^ k = 10 ^ length (fracStr p) * 10 ^ (k - length (fracStr p))"
    using assms by (simp add: power_add [symmetric])
  then show ?thesis using assms
    by (simp add: toScaledMagnitude_eq pd_value_def pd_signed_def)
qed

section \<open>Rounding of a rational\<close>

definition round_mag :: "RoundingMode \<Rightarrow> rat \<Rightarrow> int" where
  "round_mag m x =
     (case m of
        DOWN \<Rightarrow> \<lfloor>x\<rfloor>
      | UP \<Rightarrow> \<lceil>x\<rceil>
      | HALF_UP \<Rightarrow> \<lfloor>x + 1 / 2\<rfloor>
      | HALF_DOWN \<Rightarrow> \<lceil>x - 1 / 2\<rceil>
      | HALF_EVEN \<Rightarrow>
          if x = of_int \<lfloor>x\<rfloor> + 1 / 2 then (if even \<lfloor>x\<rfloor> then \<lfloor>x\<rfloor> else \<lfloor>x\<rfloor> + 1)
          else \<lfloor>x + 1 / 2\<rfloor>)"

definition round_signed :: "RoundingMode \<Rightarrow> rat \<Rightarrow> int" where
  "round_signed m x = (if x < 0 then - round_mag m (- x) else round_mag m x)"

lemma applyDivisionRounding_round_mag:
  assumes "0 \<le> n" "0 < d"
  shows "applyDivisionRounding (n sdiv d) (n smod d) d m = round_mag m (of_int n / of_int d)"
proof -
  define q r where "q = n div d" and "r = n mod d"
  have r: "0 \<le> r" "r < d" using assms by (simp_all add: r_def)
  have n: "n = q * d + r" by (simp add: q_def r_def)
  define e where "e = (of_int r / of_int d :: rat)"
  have x: "(of_int n / of_int d :: rat) = of_int q + e"
    using assms by (simp add: n e_def add_divide_distrib)
  have e: "0 \<le> e" "e < 1" using r assms by (simp_all add: e_def)
  have half: "2 * r \<ge> d \<longleftrightarrow> e \<ge> 1 / 2" "2 * r > d \<longleftrightarrow> e > 1 / 2" "2 * r < d \<longleftrightarrow> e < 1 / 2"
  proof -
    have "e * of_int d = of_int r" using assms by (simp add: e_def)
    moreover have "(2 * r \<ge> d) = ((of_int (2 * r) :: rat) \<ge> of_int d)" "(2 * r > d) = ((of_int (2 * r) :: rat) > of_int d)"
      "(2 * r < d) = ((of_int (2 * r) :: rat) < of_int d)"
      by (simp_all only: of_int_le_iff of_int_less_iff)
    ultimately show "2 * r \<ge> d \<longleftrightarrow> e \<ge> 1 / 2" "2 * r > d \<longleftrightarrow> e > 1 / 2" "2 * r < d \<longleftrightarrow> e < 1 / 2"
      using assms by (simp_all add: e_def field_simps)
  qed
  have pos: "r > 0 \<longleftrightarrow> e > 0" using assms by (simp add: e_def zero_less_divide_iff)
  have fl: "\<lfloor>of_int q + e\<rfloor> = q" using e by (intro floor_unique) auto
  have ce: "\<lceil>of_int q + e\<rceil> = (if e > 0 then q + 1 else q)" using e by (intro ceiling_unique) auto
  have fh: "\<lfloor>of_int q + e + 1 / 2\<rfloor> = (if e \<ge> 1 / 2 then q + 1 else q)" using e by (intro floor_unique) auto
  have ch: "\<lceil>of_int q + e - 1 / 2\<rceil> = (if e > 1 / 2 then q + 1 else q)" using e by (intro ceiling_unique) auto
  have "0 \<le> q" using assms by (simp add: q_def pos_imp_zdiv_nonneg_iff)
  then have ev: "q smod 2 = 0 \<longleftrightarrow> even q" by (simp add: smod_nonneg even_iff_mod_2_eq_zero)
  show ?thesis
    using assms unfolding round_mag_def x applyDivisionRounding_def
    by (cases m) (auto simp: sdiv_nonneg smod_nonneg q_def [symmetric] r_def [symmetric] Let_def
        half pos fl ce fh ch ev mult.commute [of r 2])
qed

lemma round_mag_of_int: "round_mag m (of_int i) = i"
proof -
  have "\<lfloor>of_int i + 1 / 2 :: rat\<rfloor> = i" by (intro floor_unique) auto
  moreover have "\<lceil>of_int i - 1 / 2 :: rat\<rceil> = i" by (intro ceiling_unique) auto
  ultimately show ?thesis by (cases m) (simp_all add: round_mag_def)
qed

lemma round_signed_of_int: "round_signed m (of_int i) = i"
  using round_mag_of_int [of m i] round_mag_of_int [of m "- i"] by (simp add: round_signed_def)

lemma round_signed_neg: "round_signed m (- x) = - round_signed m x"
  using round_mag_of_int [of m 0] by (cases "x = 0") (auto simp: round_signed_def)

lemma round_sign_flag:
  "0 \<le> x \<Longrightarrow> (if neg then -1 else 1) * (of_int (round_mag m x) :: rat) = of_int (round_signed m ((if neg then -1 else 1) * x))"
  using round_signed_neg [of m x] by (auto simp: round_signed_def)

lemma round_mag_nonneg: "0 \<le> x \<Longrightarrow> 0 \<le> round_mag m x"
  by (cases m) (auto simp: round_mag_def le_floor_iff le_ceiling_iff)

section \<open>Correctness of the operations\<close>

lemma denotesE:
  assumes "denotes s q k"
  obtains p where "parseDecimalString s = Inr p" "pd_value p = q" "length (fracStr p) = k" "pd_wf p"
  using assms parse_wf by (auto simp: denotes_def split: sum.splits)

lemma bigint_mag: "bigint_of_string (intStr p @ fracStr p) = int (pd_mag p)"
  by (simp add: bigint_of_string_def pd_mag_def)

lemma pd_value_mag:
  "pd_value p = (if negative p then -1 else 1) * (of_nat (pd_mag p) / 10 ^ length (fracStr p))"
  by (simp add: pd_value_def pd_signed_def)

lemma abs_pd_value: "\<bar>pd_value p\<bar> = of_nat (pd_mag p) / 10 ^ length (fracStr p)"
  by (simp add: pd_value_mag abs_mult)

lemma signed_operands:
  assumes "denotes a qa ka" and "denotes b qb kb"
  obtains x y pa pb where "parseDecimalString a = Inr pa" "parseDecimalString b = Inr pb"
    "length (fracStr pa) = ka" "length (fracStr pb) = kb"
    "x = (if negative pa then -1 else 1) * toScaledMagnitude pa (max ka kb)"
    "y = (if negative pb then -1 else 1) * toScaledMagnitude pb (max ka kb)"
    "of_int x = qa * 10 ^ max ka kb" "of_int y = qb * 10 ^ max ka kb"
proof -
  obtain pa where pa: "parseDecimalString a = Inr pa" "pd_value pa = qa" "length (fracStr pa) = ka"
    using assms(1) by (rule denotesE)
  obtain pb where pb: "parseDecimalString b = Inr pb" "pd_value pb = qb" "length (fracStr pb) = kb"
    using assms(2) by (rule denotesE)
  have "of_int ((if negative pa then -1 else 1) * toScaledMagnitude pa (max ka kb)) = qa * 10 ^ max ka kb"
    and "of_int ((if negative pb then -1 else 1) * toScaledMagnitude pb (max ka kb)) = qb * 10 ^ max ka kb"
    using pa pb by (simp_all only: scaled_value max.cobounded1 max.cobounded2)
  with pa pb show thesis by (intro that) auto
qed

lemma addDecimals_denotes:
  assumes "denotes a qa ka" and "denotes b qb kb"
  obtains s where "addDecimals a b = Inr s" "denotes s (qa + qb) (max ka kb)"
proof -
  from assms obtain x y pa pb where o: "parseDecimalString a = Inr pa" "parseDecimalString b = Inr pb"
    "length (fracStr pa) = ka" "length (fracStr pb) = kb"
    "x = (if negative pa then -1 else 1) * toScaledMagnitude pa (max ka kb)"
    "y = (if negative pb then -1 else 1) * toScaledMagnitude pb (max ka kb)"
    "of_int x = qa * 10 ^ max ka kb" "of_int y = qb * 10 ^ max ka kb"
    by (rule signed_operands)
  have "addDecimals a b = Inr (signed_str (x + y) (max ka kb))"
    unfolding addDecimals_def signed_str_def o(5,6) by (simp only: o(1-4) rbind_simps Let_def)
  with that denotes_signed_str [of "x + y" "max ka kb"] show thesis
    by (simp add: o(7,8) add_divide_distrib)
qed

lemma subtractDecimals_denotes:
  assumes "denotes a qa ka" and "denotes b qb kb"
  obtains s where "subtractDecimals a b = Inr s" "denotes s (qa - qb) (max ka kb)"
proof -
  from assms obtain x y pa pb where o: "parseDecimalString a = Inr pa" "parseDecimalString b = Inr pb"
    "length (fracStr pa) = ka" "length (fracStr pb) = kb"
    "x = (if negative pa then -1 else 1) * toScaledMagnitude pa (max ka kb)"
    "y = (if negative pb then -1 else 1) * toScaledMagnitude pb (max ka kb)"
    "of_int x = qa * 10 ^ max ka kb" "of_int y = qb * 10 ^ max ka kb"
    by (rule signed_operands)
  have "subtractDecimals a b = Inr (signed_str (x - y) (max ka kb))"
    unfolding subtractDecimals_def signed_str_def o(5,6) by (simp only: o(1-4) rbind_simps Let_def)
  with that denotes_signed_str [of "x - y" "max ka kb"] show thesis
    by (simp add: o(7,8) diff_divide_distrib)
qed

lemma compareDecimals_denotes:
  assumes "denotes a qa ka" and "denotes b qb kb"
  shows "compareDecimals a b = Inr (if qa < qb then -1 else if qa > qb then 1 else 0)"
proof -
  from assms obtain x y pa pb where o: "parseDecimalString a = Inr pa" "parseDecimalString b = Inr pb"
    "length (fracStr pa) = ka" "length (fracStr pb) = kb"
    "x = (if negative pa then -1 else 1) * toScaledMagnitude pa (max ka kb)"
    "y = (if negative pb then -1 else 1) * toScaledMagnitude pb (max ka kb)"
    "of_int x = qa * 10 ^ max ka kb" "of_int y = qb * 10 ^ max ka kb"
    by (rule signed_operands)
  have "compareDecimals a b = Inr (if x < y then -1 else if x > y then 1 else 0)"
    unfolding compareDecimals_def o(5,6) by (simp only: o(1-4) rbind_simps Let_def)
  moreover have "x < y \<longleftrightarrow> qa < qb" "x > y \<longleftrightarrow> qa > qb"
    using of_int_less_iff [of x y, where ?'a = rat] of_int_less_iff [of y x, where ?'a = rat]
    by (simp_all add: o(7,8) del: of_int_less_iff)
  ultimately show ?thesis by simp
qed

lemma multiplyDecimals_denotes:
  assumes "denotes a qa ka" and "denotes b qb kb"
  obtains r where "multiplyDecimals a b = Inr r" "denotes r (qa * qb) (ka + kb)"
proof -
  obtain pa where pa: "parseDecimalString a = Inr pa" "pd_value pa = qa" "length (fracStr pa) = ka"
    using assms(1) by (rule denotesE)
  obtain pb where pb: "parseDecimalString b = Inr pb" "pd_value pb = qb" "length (fracStr pb) = kb"
    using assms(2) by (rule denotesE)
  define v where "v = int (pd_mag pa) * int (pd_mag pb)"
  have v: "0 \<le> v" by (simp add: v_def)
  have "(if negative pa \<noteq> negative pb then -1 else 1) * of_int v / 10 ^ (ka + kb) = qa * qb"
    using pa pb by (auto simp: v_def pd_value_mag power_add)
  moreover have "multiplyDecimals a b = Inr (flag_str (negative pa \<noteq> negative pb) v (ka + kb))"
    using v unfolding multiplyDecimals_def flag_str_def v_def
    by (simp only: pa pb rbind_simps Let_def bigint_mag not_less [symmetric] if_False)
  ultimately show thesis
    using denotes_flag_str [OF v, of "negative pa \<noteq> negative pb" "ka + kb"] that by auto
qed

lemma roundToScale_denotes:
  assumes "denotes s q j"
  obtains r where "roundToScale s (IntNum (int k)) m = Inr r"
    "denotes r (of_int (round_signed m (q * 10 ^ k)) / 10 ^ k) k"
proof -
  obtain p where p: "parseDecimalString s = Inr p" "pd_value p = q" "length (fracStr p) = j"
    using assms by (rule denotesE)
  let ?sg = "if negative p then -1 else (1 :: rat)"
  show thesis
  proof (cases "j \<le> k")
    case True
    have ts: "toScaledMagnitude p k = int (pd_mag p) * 10 ^ (k - j)"
      using True p by (simp add: toScaledMagnitude_eq)
    then have nn: "0 \<le> toScaledMagnitude p k" by simp
    have "q * 10 ^ k = of_int ((if negative p then -1 else 1) * toScaledMagnitude p k)"
      using scaled_value [of p k] True p by simp
    then have "round_signed m (q * 10 ^ k) = (if negative p then -1 else 1) * toScaledMagnitude p k"
      by (simp only: round_signed_of_int)
    then have "?sg * of_int (toScaledMagnitude p k) / 10 ^ k = of_int (round_signed m (q * 10 ^ k)) / 10 ^ k"
      by simp
    moreover have "roundToScale s (IntNum (int k)) m = Inr (flag_str (negative p) (toScaledMagnitude p k) k)"
      using True p by (simp add: roundToScale_def flag_str_def toScaledMagnitude_def Let_def)
    ultimately show ?thesis
      using denotes_flag_str [OF nn, of "negative p" k] that by auto
  next
    case False
    define n where "n = int (pd_mag p)"
    define d where "d = (10 :: int) ^ (j - k)"
    have n: "bigint_of_string (intStr p) * 10 ^ j + bigint_of_string (fracStr p) = n"
      by (simp add: n_def pd_mag_def bigint_of_string_def nat_of_digits_append p(3))
    have nd: "0 \<le> n" "0 < d" by (simp_all add: n_def d_def)
    define u where "u = round_mag m (of_int n / of_int d)"
    have u: "0 \<le> u" using nd by (simp add: u_def round_mag_nonneg)
    have j: "(10 :: rat) ^ j = 10 ^ k * 10 ^ (j - k)" using False by (simp add: power_add [symmetric])
    have "?sg * (of_int n / of_int d) = q * 10 ^ k"
      using p(2,3) j by (auto simp: pd_value_mag n_def d_def)
    then have "?sg * of_int u = of_int (round_signed m (q * 10 ^ k))"
      using round_sign_flag [of "of_int n / of_int d" "negative p" m] nd by (simp add: u_def)
    moreover have "roundToScale s (IntNum (int k)) m = Inr (flag_str (negative p) u k)"
      using False p by (simp add: roundToScale_def Let_def n applyDivisionRounding_round_mag [OF nd]
          d_def [symmetric] u_def [symmetric] flag_str_def)
    ultimately show ?thesis
      using denotes_flag_str [OF u, of "negative p" k] that by auto
  qed
qed

lemma divideDecimals_denotes:
  assumes "denotes a qa ka" and "denotes b qb kb" and "qb \<noteq> 0"
  obtains r where "divideDecimals a b (IntNum (int k)) m = Inr r"
    "denotes r (of_int (round_signed m (qa / qb * 10 ^ k)) / 10 ^ k) k"
proof -
  obtain pa where pa: "parseDecimalString a = Inr pa" "pd_value pa = qa" "length (fracStr pa) = ka"
    using assms(1) by (rule denotesE)
  obtain pb where pb: "parseDecimalString b = Inr pb" "pd_value pb = qb" "length (fracStr pb) = kb"
    using assms(2) by (rule denotesE)
  let ?neg = "negative pa \<noteq> negative pb"
  define sh where "sh = int k + int kb - int ka"
  define n where "n = (if sh \<ge> 0 then int (pd_mag pa) * 10 ^ nat sh else int (pd_mag pa))"
  define d where "d = (if sh \<ge> 0 then int (pd_mag pb) else int (pd_mag pb) * 10 ^ nat (- sh))"
  have b0: "pd_mag pb \<noteq> 0" using pb assms(3) by (auto simp: pd_value_mag)
  have nd: "0 \<le> n" "0 < d" using b0 by (simp_all add: n_def d_def)
  define u where "u = round_mag m (of_int n / of_int d)"
  have u: "0 \<le> u" using nd by (simp add: u_def round_mag_nonneg)
  have "(of_int n / of_int d :: rat) = of_nat (pd_mag pa) * 10 ^ (k + kb) / (of_nat (pd_mag pb) * 10 ^ ka)"
  proof (cases "sh \<ge> 0")
    case True
    then have "k + kb = nat sh + ka" by (simp add: sh_def)
    with True show ?thesis by (simp add: n_def d_def power_add)
  next
    case False
    then have "ka = nat (- sh) + (k + kb)" by (simp add: sh_def)
    with False show ?thesis by (simp add: n_def d_def power_add)
  qed
  then have "(if ?neg then -1 else 1) * (of_int n / of_int d) = qa / qb * (10 :: rat) ^ k"
    using pa pb b0 by (auto simp: pd_value_mag power_add ac_simps)
  then have "(if ?neg then -1 else 1) * of_int u = (of_int (round_signed m (qa / qb * 10 ^ k)) :: rat)"
    using round_sign_flag [of "of_int n / of_int d" ?neg m] nd by (simp add: u_def)
  moreover have "divideDecimals a b (IntNum (int k)) m = Inr (flag_str ?neg u k)"
    using b0 unfolding divideDecimals_def flag_str_def u_def applyDivisionRounding_round_mag [OF nd, symmetric]
    by (simp add: pa pb Let_def bigint_mag n_def d_def sh_def)
  ultimately show thesis
    using denotes_flag_str [OF u, of ?neg k] that by auto
qed

lemma stripped_digits:
  assumes "list_all is_digit i"
  shows "length (dropWhile (\<lambda>c. c = CHR ''0'') i) \<le> m \<longleftrightarrow> nat_of_digits i < 10 ^ m"
proof -
  define j where "j = dropWhile (\<lambda>c. c = CHR ''0'') i"
  define z where "z = takeWhile (\<lambda>c. c = CHR ''0'') i"
  have "\<forall>c \<in> set z. c = CHR ''0''" by (auto simp: z_def dest: set_takeWhileD)
  then have z: "z = replicate (length z) CHR ''0''" by (simp add: replicate_eqI)
  have i: "i = z @ j" by (simp add: z_def j_def)
  then have nz: "nat_of_digits i = nat_of_digits j"
    using z nat_of_digits_zeros [of "length z"] by (simp add: nat_of_digits_append)
  have jd: "list_all is_digit j" using assms i by simp
  then have lt: "nat_of_digits j < 10 ^ length j" by (rule nat_of_digits_less)
  show ?thesis
  proof (cases "j = []")
    case True
    then show ?thesis using nz by (simp add: j_def [symmetric] nat_of_digits_Nil)
  next
    case False
    then obtain c r where j: "j = c # r" by (cases j) auto
    then have "c \<noteq> CHR ''0''" using hd_dropWhile [of "\<lambda>c. c = CHR ''0''" i] False by (simp add: j_def)
    moreover have "is_digit c" using jd j by simp
    moreover have "of_char c = (48 :: nat) \<longleftrightarrow> c = CHR ''0''"
      using of_char_eq_iff [of c "CHR ''0''", where ?'a = nat] by simp
    ultimately have "1 \<le> digit_val c" by (auto simp: is_digit_def digit_val_def)
    then have ge: "10 ^ length r \<le> nat_of_digits j"
      using nat_of_digits_append [of "[c]" r] j by (simp add: nat_of_digits_single trans_le_add1)
    have "length j \<le> m \<longleftrightarrow> nat_of_digits j < 10 ^ m"
    proof
      assume "length j \<le> m"
      then have "(10 :: nat) ^ length j \<le> 10 ^ m" by simp
      with lt show "nat_of_digits j < 10 ^ m" by linarith
    next
      assume "nat_of_digits j < 10 ^ m"
      with ge have "(10 :: nat) ^ length r < 10 ^ m" by linarith
      then show "length j \<le> m" using j by simp
    qed
    then show ?thesis by (simp add: nz j_def [symmetric])
  qed
qed

lemma int_part_bound:
  assumes "pd_wf p"
  shows "nat_of_digits (intStr p) < 10 ^ m \<longleftrightarrow> \<bar>pd_value p\<bar> < 10 ^ m"
proof -
  let ?k = "length (fracStr p)"
  have f: "nat_of_digits (fracStr p) < 10 ^ ?k" using assms by (simp add: pd_wf_def nat_of_digits_less)
  have "\<bar>pd_value p\<bar> < 10 ^ m \<longleftrightarrow> (of_nat (pd_mag p) :: rat) < of_nat (10 ^ m * 10 ^ ?k)"
    by (simp add: abs_pd_value divide_less_eq)
  also have "\<dots> \<longleftrightarrow> nat_of_digits (intStr p) * 10 ^ ?k + nat_of_digits (fracStr p) < 10 ^ m * 10 ^ ?k"
    by (simp only: of_nat_less_iff pd_mag_def nat_of_digits_append)
  also have "\<dots> \<longleftrightarrow> nat_of_digits (intStr p) < 10 ^ m"
  proof
    assume "nat_of_digits (intStr p) < 10 ^ m"
    then have "Suc (nat_of_digits (intStr p)) * 10 ^ ?k \<le> 10 ^ m * 10 ^ ?k" by (intro mult_le_mono1) simp
    with f show "nat_of_digits (intStr p) * 10 ^ ?k + nat_of_digits (fracStr p) < 10 ^ m * 10 ^ ?k" by simp
  next
    assume "nat_of_digits (intStr p) * 10 ^ ?k + nat_of_digits (fracStr p) < 10 ^ m * 10 ^ ?k"
    then have "nat_of_digits (intStr p) * 10 ^ ?k < 10 ^ m * 10 ^ ?k" by linarith
    then show "nat_of_digits (intStr p) < 10 ^ m" by simp
  qed
  finally show ?thesis by simp
qed

section \<open>Properties\<close>

lemma numeric_bounds:
  assumes "denotes v q k" and "s \<le> p" and "0 < p"
  shows "assertWithinNumericBounds v (IntNum (int p)) (IntNum (int s)) =
     (if k > s then Inl (DecimalScaleError v (int s) k)
      else if \<bar>q\<bar> < 10 ^ (p - s) then Inr ()
      else Inl (DecimalOverflowError v (int p) (int s)))"
proof -
  obtain d where d: "parseDecimalString v = Inr d" "pd_value d = q" "length (fracStr d) = k" "pd_wf d"
    using assms(1) by (rule denotesE)
  have "int (length (dropWhile (\<lambda>c. c = CHR ''0'') (intStr d))) > int p - int s \<longleftrightarrow>
      \<not> length (dropWhile (\<lambda>c. c = CHR ''0'') (intStr d)) \<le> p - s"
    using assms(2) by linarith
  also have "\<dots> \<longleftrightarrow> \<not> \<bar>q\<bar> < 10 ^ (p - s)"
    using d stripped_digits [of "intStr d" "p - s"] int_part_bound [of d "p - s"] by (simp add: pd_wf_def)
  finally show ?thesis using assms(2,3) d by (simp add: assertWithinNumericBounds_def Let_def)
qed

lemma isValidPositiveDecimal_iff: "isValidPositiveDecimal s \<longleftrightarrow> (\<exists>q k. denotes s q k \<and> 0 < q)"
  by (auto simp: isValidPositiveDecimal_def denotes_def bigint_mag pd_value_mag zero_less_divide_iff divide_le_0_iff
      split: sum.splits if_splits)

lemma denotes_unique: "denotes s q k \<Longrightarrow> denotes s q' k' \<Longrightarrow> q = q' \<and> k = k'"
  by (auto simp: denotes_def split: sum.splits)

lemmas dec_eval = denotes_def parseDecimalString_def trim_def is_ws_def startsWith_def
  matches_decimal_def is_digit_def Let_def pd_value_def pd_signed_def pd_mag_def
  nat_of_digits_def digit_val_def

lemma sample_decimals:
  "denotes ''10.50'' (21 / 2) 2" "denotes ''-2.255'' (- 451 / 200) 3" "denotes ''0.00'' 0 2"
  by (simp_all add: dec_eval)

text \<open>The accepted texts: an optional minus sign, digits, and optionally a point and further digits, with white
  space around.\<close>

definition decimal_text :: "string \<Rightarrow> bool" where
  "decimal_text s \<longleftrightarrow> (\<exists>g i f. (g = [] \<or> g = ''-'') \<and> i \<noteq> [] \<and> list_all is_digit i \<and> list_all is_digit f \<and>
     (trim s = g @ i \<and> f = [] \<or> trim s = g @ i @ CHR ''.'' # f))"

lemma matches_unsigned: "matches_decimal r \<Longrightarrow> \<not> startsWith r ''-''"
proof -
  assume "matches_decimal r"
  then obtain c cs where "r = c # cs" "is_digit c" by (cases r) (auto simp: matches_decimal_def split: if_splits)
  then show ?thesis by (auto simp: startsWith_def)
qed

lemma decimal_text_split: "decimal_text s \<longleftrightarrow> (\<exists>g r. (g = [] \<or> g = ''-'') \<and> trim s = g @ r \<and> matches_decimal r)"
  unfolding decimal_text_def matches_decimal_cases by blast

lemma decimal_text_iff: "decimal_text s \<longleftrightarrow>
    matches_decimal (if startsWith (trim s) ''-'' then drop 1 (trim s) else trim s)" (is "_ = ?m")
proof
  assume "decimal_text s"
  then obtain g r where g: "g = [] \<or> g = ''-''" "trim s = g @ r" "matches_decimal r" unfolding decimal_text_split by blast
  then show ?m using matches_unsigned [OF g(3)] by (auto simp: startsWith_def)
next
  assume m: ?m
  show "decimal_text s"
  proof (cases "startsWith (trim s) ''-''")
    case True
    then have "trim s = ''-'' @ drop 1 (trim s)" by (cases "trim s") (auto simp: startsWith_def)
    with m True show ?thesis unfolding decimal_text_split by metis
  next
    case False
    with m show ?thesis unfolding decimal_text_split by (intro exI [of _ "[]"] exI [of _ "trim s"]) simp
  qed
qed

lemma parse_malformed: "\<not> decimal_text s \<Longrightarrow> parseDecimalString s = Inl (InvalidDecimalString s)"
  by (simp add: decimal_text_iff parseDecimalString_def Let_def)

lemma parse_decimal_text: "decimal_text s \<Longrightarrow> \<exists>q k. denotes s q k"
  by (simp add: decimal_text_iff parseDecimalString_def denotes_def Let_def)

text \<open>Claim C32. Addition and subtraction of decimal strings are exact and reject everything else: on two texts of
  the decimal format the results parse, denote the rational sum and difference of the operands and carry the
  larger of the two scales; an operand that is not of that format is reported as the invalid one.\<close>

theorem add_subtract_exact:
  shows "(decimal_text a \<and> decimal_text b \<longrightarrow> (\<exists>qa ka qb kb s d. denotes a qa ka \<and> denotes b qb kb \<and>
      addDecimals a b = Inr s \<and> denotes s (qa + qb) (max ka kb) \<and>
      subtractDecimals a b = Inr d \<and> denotes d (qa - qb) (max ka kb))) \<and>
    (\<not> decimal_text a \<longrightarrow> addDecimals a b = Inl (InvalidDecimalString a) \<and> subtractDecimals a b = Inl (InvalidDecimalString a)) \<and>
    (decimal_text a \<and> \<not> decimal_text b \<longrightarrow>
      addDecimals a b = Inl (InvalidDecimalString b) \<and> subtractDecimals a b = Inl (InvalidDecimalString b))"
proof (intro conjI impI)
  assume "decimal_text a \<and> decimal_text b"
  then obtain qa ka qb kb where d: "denotes a qa ka" "denotes b qb kb" using parse_decimal_text by blast
  show "\<exists>qa ka qb kb s d. denotes a qa ka \<and> denotes b qb kb \<and> addDecimals a b = Inr s \<and> denotes s (qa + qb) (max ka kb) \<and>
      subtractDecimals a b = Inr d \<and> denotes d (qa - qb) (max ka kb)"
    using d by (rule addDecimals_denotes, insert d) (rule subtractDecimals_denotes, blast+)
next
  assume "decimal_text a \<and> \<not> decimal_text b"
  then obtain p where "parseDecimalString a = Inr p" "parseDecimalString b = Inl (InvalidDecimalString b)"
    using parse_decimal_text [of a] parse_malformed [of b] by (cases "parseDecimalString a") (auto simp: denotes_def)
  then show "addDecimals a b = Inl (InvalidDecimalString b)" "subtractDecimals a b = Inl (InvalidDecimalString b)"
    by (simp_all add: addDecimals_def subtractDecimals_def)
qed (simp_all add: addDecimals_def subtractDecimals_def parse_malformed)

theorem add_subtract_exact_witness:
  "(\<exists>s d. addDecimals ''10.50'' ''-2.255'' = Inr s \<and> denotes s (1649 / 200) 3 \<and>
          subtractDecimals ''10.50'' ''-2.255'' = Inr d \<and> denotes d (2551 / 200) 3) \<and>
   addDecimals ''10.50'' ''1e3'' = Inl (InvalidDecimalString ''1e3'')"
proof -
  have t: "decimal_text ''10.50''" "decimal_text ''-2.255''" "\<not> decimal_text ''1e3''"
    unfolding decimal_text_iff by code_simp+
  obtain qa ka qb kb s d where r: "denotes ''10.50'' qa ka" "denotes ''-2.255'' qb kb"
      "addDecimals ''10.50'' ''-2.255'' = Inr s" "denotes s (qa + qb) (max ka kb)"
      "subtractDecimals ''10.50'' ''-2.255'' = Inr d" "denotes d (qa - qb) (max ka kb)"
    using add_subtract_exact [of "''10.50''" "''-2.255''"] t by blast
  moreover have "qa = 21 / 2 \<and> ka = 2" "qb = - 451 / 200 \<and> kb = 3"
    using denotes_unique [OF r(1) sample_decimals(1)] denotes_unique [OF r(2) sample_decimals(2)] by simp_all
  ultimately show ?thesis using add_subtract_exact [of "''10.50''" "''1e3''"] t by auto
qed

text \<open>Claim C4. \<open>roundToScale\<close> is the mathematical rounding of the input's value: for every mode the
  result has exactly \<open>k\<close> fractional digits and denotes the value rounded to a multiple of ten to the
  power minus \<open>k\<close>, symmetrically in the sign.\<close>

theorem roundToScale_rounds:
  assumes "denotes s q j"
  shows "\<exists>r. roundToScale s (IntNum (int k)) m = Inr r \<and>
             denotes r (of_int (round_signed m (q * 10 ^ k)) / 10 ^ k) k"
  by (rule roundToScale_denotes [OF assms]) blast

theorem roundToScale_rounds_witness:
  "\<exists>r. roundToScale ''-2.255'' (IntNum (int 2)) HALF_EVEN = Inr r \<and>
       denotes r (of_int (round_signed HALF_EVEN (- 451 / 200 * 10 ^ 2)) / 10 ^ 2) 2"
  using roundToScale_rounds [OF sample_decimals(2), of 2 HALF_EVEN] by simp

text \<open>Claim C3. Division computes the exact rational quotient rounded once to the requested scale with
  the given mode, and throws \<open>DivisionByZeroError\<close> exactly when the divisor denotes zero.\<close>

theorem divideDecimals_rounds:
  assumes "denotes a qa ka" and "denotes b qb kb"
  shows "(qb = 0 \<longrightarrow> divideDecimals a b (IntNum (int k)) m = Inl (DivisionByZeroError a b)) \<and>
         (qb \<noteq> 0 \<longrightarrow> (\<exists>r. divideDecimals a b (IntNum (int k)) m = Inr r \<and>
                          denotes r (of_int (round_signed m (qa / qb * 10 ^ k)) / 10 ^ k) k))"
proof (intro conjI impI)
  obtain pa where pa: "parseDecimalString a = Inr pa" using assms(1) by (rule denotesE)
  obtain pb where pb: "parseDecimalString b = Inr pb" "pd_value pb = qb" using assms(2) by (rule denotesE)
  assume "qb = 0"
  with pb have "pd_mag pb = 0" by (auto simp: pd_value_mag split: if_splits)
  with pa pb show "divideDecimals a b (IntNum (int k)) m = Inl (DivisionByZeroError a b)"
    by (simp add: divideDecimals_def bigint_mag)
next
  assume "qb \<noteq> 0"
  with assms show "\<exists>r. divideDecimals a b (IntNum (int k)) m = Inr r \<and>
      denotes r (of_int (round_signed m (qa / qb * 10 ^ k)) / 10 ^ k) k"
    by (rule divideDecimals_denotes) blast
qed

theorem divideDecimals_rounds_witness:
  "divideDecimals ''10.50'' ''0.00'' (IntNum (int 2)) DOWN = Inl (DivisionByZeroError ''10.50'' ''0.00'') \<and>
   (\<exists>r. divideDecimals ''10.50'' ''-2.255'' (IntNum (int 2)) DOWN = Inr r \<and>
        denotes r (of_int (round_signed DOWN (21 / 2 / (- 451 / 200) * 10 ^ 2)) / 10 ^ 2) 2)"
  using divideDecimals_rounds [OF sample_decimals(1,3), of 2 DOWN]
    divideDecimals_rounds [OF sample_decimals(1,2), of 2 DOWN] by simp

text \<open>Multiplication is exact with the sum of the scales, and comparison returns the sign of
  the difference of the two values, whatever their scales.\<close>

theorem multiply_compare_exact:
  assumes "denotes a qa ka" and "denotes b qb kb"
  shows "(\<exists>r. multiplyDecimals a b = Inr r \<and> denotes r (qa * qb) (ka + kb)) \<and>
         compareDecimals a b = Inr (if qa < qb then -1 else if qa > qb then 1 else 0)"
  by (rule multiplyDecimals_denotes [OF assms]) (auto simp: compareDecimals_denotes [OF assms])

theorem multiply_compare_exact_witness:
  "(\<exists>r. multiplyDecimals ''10.50'' ''-2.255'' = Inr r \<and> denotes r (- 9471 / 400) 5) \<and>
   compareDecimals ''10.50'' ''-2.255'' = Inr 1"
  using multiply_compare_exact [OF sample_decimals(1,2)] by simp

text \<open>The \<open>NUMERIC(p,s)\<close> check accepts a decimal string exactly when it has at most \<open>s\<close>
  fractional digits and its magnitude is below ten to the power \<open>p - s\<close>, and it reports an excess
  of fractional digits before an overflow.\<close>

theorem numeric_bounds_exact:
  assumes "denotes v q k" and "s \<le> p" and "0 < p"
  shows "assertWithinNumericBounds v (IntNum (int p)) (IntNum (int s)) =
     (if k > s then Inl (DecimalScaleError v (int s) k)
      else if \<bar>q\<bar> < 10 ^ (p - s) then Inr ()
      else Inl (DecimalOverflowError v (int p) (int s)))"
  using assms by (rule numeric_bounds)

theorem numeric_bounds_exact_witness:
  "assertWithinNumericBounds ''10.50'' (IntNum (int 4)) (IntNum (int 2)) = Inr () \<and>
   assertWithinNumericBounds ''10.50'' (IntNum (int 3)) (IntNum (int 2)) =
     Inl (DecimalOverflowError ''10.50'' (int 3) (int 2))"
  using numeric_bounds_exact [OF sample_decimals(1), of 2 4] numeric_bounds_exact [OF sample_decimals(1), of 2 3]
  by simp

end
