(* ===== verification/BondAmount.thy ===== *)
theory BondAmount
  imports DecimalMath
begin

text \<open>
  \<open>src/src/lib/bondAmountMath.ts\<close>: the balance after a withdrawal and the decision to take a
  score snapshot, on top of the decimal operations.
\<close>

datatype bond_amount_error = InvalidAmount string string | DecimalFailure dec_error

text \<open>The regular expression \<open>^\d+(\.\d+)?$\<close>.\<close>

definition NON_NEGATIVE_DECIMAL_RE :: "string \<Rightarrow> bool" where
  "NON_NEGATIVE_DECIMAL_RE s =
     (takeWhile is_digit s \<noteq> [] \<and>
      (case dropWhile is_digit s of
         [] \<Rightarrow> True
       | c # r \<Rightarrow> c = CHR ''.'' \<and> r \<noteq> [] \<and> list_all is_digit r))"

definition assertValidAmount :: "string \<Rightarrow> string \<Rightarrow> (bond_amount_error, unit) result" where
  "assertValidAmount v label =
     (if \<not> NON_NEGATIVE_DECIMAL_RE v then Inl (InvalidAmount label v) else Inr ())"

text \<open>An error thrown by a decimal operation passes through unchanged.\<close>

definition from_dec :: "(dec_error, 'a) result \<Rightarrow> (bond_amount_error, 'a) result" where
  "from_dec r = (case r of Inl e \<Rightarrow> Inl (DecimalFailure e) | Inr x \<Rightarrow> Inr x)"

definition computeNewBondAmount :: "string \<Rightarrow> string \<Rightarrow> (bond_amount_error, string) result" where
  "computeNewBondAmount currentAmount withdrawalAmount =
     rbind (assertValidAmount currentAmount ''currentAmount'') (\<lambda>_.
     rbind (assertValidAmount withdrawalAmount ''withdrawalAmount'') (\<lambda>_.
     rbind (from_dec (compareDecimals withdrawalAmount currentAmount)) (\<lambda>c.
       if c \<ge> 0 then Inr ''0''
       else from_dec (subtractDecimals currentAmount withdrawalAmount))))"

definition shouldTakeSnapshot :: "string \<Rightarrow> string \<Rightarrow> bool \<Rightarrow> (bond_amount_error, bool) result" where
  "shouldTakeSnapshot previousAmount newAmount isActive =
     (if \<not> isActive then Inr True
      else if \<not> NON_NEGATIVE_DECIMAL_RE previousAmount then Inr False
      else if \<not> NON_NEGATIVE_DECIMAL_RE newAmount then Inr False
      else
        rbind (from_dec (compareDecimals previousAmount ''0'')) (\<lambda>z.
          if z = 0 then Inr False
          else
            rbind (from_dec (subtractDecimals previousAmount newAmount)) (\<lambda>withdrawn.
            rbind (from_dec (divideDecimals withdrawn previousAmount (IntNum 4) DOWN)) (\<lambda>ratio.
            rbind (from_dec (compareDecimals ratio ''0.5'')) (\<lambda>c. Inr (c \<ge> 0))))))"

section \<open>Lemmas\<close>

lemma from_dec_Inr [simp]: "from_dec (Inr x) = Inr x"
  by (simp add: from_dec_def)

lemma valid_amount_denotes:
  assumes "NON_NEGATIVE_DECIMAL_RE s"
  obtains q k where "denotes s q k" "0 \<le> q"
proof -
  have "matches_decimal s"
    using assms unfolding NON_NEGATIVE_DECIMAL_RE_def matches_decimal_def
    by (cases "dropWhile is_digit s") (simp_all del: dropWhile_eq_Nil_conv)
  then obtain i f where i: "i \<noteq> []" "list_all is_digit i" and f: "list_all is_digit f"
    and s: "s = i \<and> f = [] \<or> s = i @ CHR ''.'' # f"
    unfolding matches_decimal_cases by blast
  then obtain d where d: "d = [] \<and> f = [] \<or> d = ''.''" "s = [] @ i @ d @ f" by fastforce
  from parse_decimal_form [OF i f d(1), of "[]"]
  have p: "parseDecimalString s = Inr \<lparr>negative = False, intStr = i, fracStr = f\<rparr>"
    (is "_ = Inr ?p") by (simp add: d(2))
  show thesis
    by (rule that [of "pd_value ?p" "length f"]) (simp_all add: denotes_def p pd_value_mag)
qed

lemma zero_denotes: "denotes ''0'' 0 0" "denotes ''0.5'' (1 / 2) 1"
  by (simp_all add: dec_eval)

text \<open>Truncating a rational to four decimals does not move it across one half.\<close>

lemma truncated_ratio_half:
  "1 / 2 \<le> (of_int (round_signed DOWN (x * 10 ^ 4)) / 10 ^ 4 :: rat) \<longleftrightarrow> 1 / 2 \<le> x"
proof (cases "x < 0")
  case True
  then have "0 \<le> \<lfloor>- (x * 10 ^ 4)\<rfloor>" by simp
  then have "of_int (round_signed DOWN (x * 10 ^ 4)) \<le> (0 :: rat)"
    using True by (simp add: round_signed_def round_mag_def)
  then have "of_int (round_signed DOWN (x * 10 ^ 4)) / 10 ^ 4 \<le> (0 :: rat)"
    by (simp add: divide_nonpos_pos)
  with True show ?thesis by linarith
next
  case False
  then have r: "round_signed DOWN (x * 10 ^ 4) = \<lfloor>x * 10 ^ 4\<rfloor>"
    by (simp add: round_signed_def round_mag_def)
  have "1 / 2 \<le> (of_int \<lfloor>x * 10 ^ 4\<rfloor> / 10 ^ 4 :: rat) \<longleftrightarrow> (5000 :: rat) \<le> of_int \<lfloor>x * 10 ^ 4\<rfloor>"
    by (simp add: field_simps)
  also have "\<dots> \<longleftrightarrow> 5000 \<le> \<lfloor>x * 10 ^ 4\<rfloor>"
    using of_int_le_iff [of 5000 "\<lfloor>x * 10 ^ 4\<rfloor>", where ?'a = rat] by (simp del: of_int_le_iff)
  also have "\<dots> \<longleftrightarrow> 1 / 2 \<le> x"
    by (simp add: le_floor_iff field_simps)
  finally show ?thesis by (simp only: r)
qed

section \<open>Properties\<close>

text \<open>The balance after a withdrawal is never negative and never an overdraft: for two valid
  amounts the result denotes the larger of zero and the difference.\<close>

theorem new_bond_amount_clamped:
  assumes "NON_NEGATIVE_DECIMAL_RE cur" and "NON_NEGATIVE_DECIMAL_RE wd"
  shows "\<exists>qc kc qw kw r k. denotes cur qc kc \<and> denotes wd qw kw \<and>
           computeNewBondAmount cur wd = Inr r \<and> denotes r (max 0 (qc - qw)) k"
proof -
  obtain qc kc where c: "denotes cur qc kc" "0 \<le> qc" using assms(1) by (rule valid_amount_denotes)
  obtain qw kw where w: "denotes wd qw kw" "0 \<le> qw" using assms(2) by (rule valid_amount_denotes)
  obtain d where d: "subtractDecimals cur wd = Inr d" "denotes d (qc - qw) (max kc kw)"
    using c(1) w(1) by (rule subtractDecimals_denotes)
  have cmp: "compareDecimals wd cur = Inr (if qw < qc then -1 else if qw > qc then 1 else 0)"
    using w(1) c(1) by (rule compareDecimals_denotes)
  show ?thesis
  proof (cases "qw < qc")
    case True
    then have "computeNewBondAmount cur wd = Inr d"
      by (simp add: computeNewBondAmount_def assertValidAmount_def assms cmp d)
    with True c w d show ?thesis by fastforce
  next
    case False
    then have "computeNewBondAmount cur wd = Inr ''0''"
      by (simp add: computeNewBondAmount_def assertValidAmount_def assms cmp)
    moreover have "max 0 (qc - qw) = 0" using False by simp
    ultimately show ?thesis using c w zero_denotes(1) by metis
  qed
qed

theorem new_bond_amount_clamped_witness:
  "\<exists>qc kc qw kw r k. denotes ''1000.0000000'' qc kc \<and> denotes ''250.5'' qw kw \<and>
     computeNewBondAmount ''1000.0000000'' ''250.5'' = Inr r \<and> denotes r (max 0 (qc - qw)) k"
  by (rule new_bond_amount_clamped) (simp_all add: NON_NEGATIVE_DECIMAL_RE_def is_digit_def)

text \<open>For an active bond with a positive previous balance, the four-digit truncated ratio the
  code compares decides exactly whether the withdrawal was at least half of the previous balance.\<close>

theorem snapshot_iff_half_withdrawn:
  assumes "NON_NEGATIVE_DECIMAL_RE prev" and "NON_NEGATIVE_DECIMAL_RE new"
    and "denotes prev qp kp" and "denotes new qn kn" and "0 < qp"
  shows "shouldTakeSnapshot prev new True = Inr (qp \<le> 2 * (qp - qn))"
proof -
  have z: "compareDecimals prev ''0'' = Inr 1"
    using compareDecimals_denotes [OF assms(3) zero_denotes(1)] assms(5) by simp
  obtain w where w: "subtractDecimals prev new = Inr w" "denotes w (qp - qn) (max kp kn)"
    using assms(3,4) by (rule subtractDecimals_denotes)
  have "qp \<noteq> 0" using assms(5) by simp
  with w(2) assms(3) obtain t where
    t: "divideDecimals w prev (IntNum (int 4)) DOWN = Inr t"
      "denotes t (of_int (round_signed DOWN ((qp - qn) / qp * 10 ^ 4)) / 10 ^ 4) 4"
    by (rule divideDecimals_denotes)
  have "1 / 2 \<le> (qp - qn) / qp \<longleftrightarrow> qp \<le> 2 * (qp - qn)"
    using assms(5) by (simp add: field_simps)
  then show ?thesis
    using compareDecimals_denotes [OF t(2) zero_denotes(2)] truncated_ratio_half [of "(qp - qn) / qp"] t(1)
    by (auto simp: shouldTakeSnapshot_def assms(1,2) z w(1))
qed

theorem snapshot_iff_half_withdrawn_witness:
  "shouldTakeSnapshot ''3'' ''1.5'' True = Inr ((3 :: rat) \<le> 2 * (3 - 3 / 2))"
  by (rule snapshot_iff_half_withdrawn [of _ _ _ 0 _ 1])
    (simp_all add: NON_NEGATIVE_DECIMAL_RE_def dec_eval)

end
