(* ===== verification/FeeEngine.thy ===== *)
theory FeeEngine
  imports DecimalMath
begin

text \<open>
  \<open>src/src/services/billing/types.ts\<close> and \<open>feeEngine.ts\<close>: the currency scales and the fee
  computation.  Amounts are decimal strings; the fee is computed in integers and rounded once, at
  the currency's minor-unit scale.
\<close>

section \<open>Types\<close>

record Money =
  amount :: string
  currency :: string

record FeeInput =
  base :: Money
  ratePercent :: string

record FeeResult =
  baseAmount :: Money
  feeAmount :: Money
  totalAmount :: Money

datatype fee_error =
    RateNegative string
  | NotNonNegativeDecimal string string
  | ExcessFractionalDigits string nat nat string
  | FeeDecimal dec_error

text \<open>Keys are ISO 4217 codes; the names of members every JavaScript object inherits are not codes.\<close>

definition CURRENCY_SCALES :: "(string \<times> nat) list" where
  "CURRENCY_SCALES =
     [(''JPY'', 0), (''KRW'', 0),
      (''USD'', 2), (''EUR'', 2), (''GBP'', 2), (''CAD'', 2), (''AUD'', 2), (''CHF'', 2), (''MXN'', 2),
      (''BRL'', 2), (''SGD'', 2), (''HKD'', 2), (''SEK'', 2), (''NOK'', 2), (''DKK'', 2), (''ZAR'', 2),
      (''INR'', 2),
      (''KWD'', 3), (''BHD'', 3), (''OMR'', 3), (''JOD'', 3)]"

definition DEFAULT_CURRENCY_SCALE :: nat where
  "DEFAULT_CURRENCY_SCALE = 2"

definition getCurrencyScale :: "string \<Rightarrow> nat" where
  "getCurrencyScale c =
     (case map_of CURRENCY_SCALES c of None \<Rightarrow> DEFAULT_CURRENCY_SCALE | Some s \<Rightarrow> s)"

section \<open>Helpers\<close>

definition parseNonNegativeDecimal :: "string \<Rightarrow> string \<Rightarrow> (fee_error, string \<times> string) result" where
  "parseNonNegativeDecimal v label =
     (let trimmed = trim v in
      if \<not> matches_decimal trimmed then Inl (NotNonNegativeDecimal label v)
      else Inr (takeWhile (\<lambda>c. c \<noteq> CHR ''.'') trimmed, drop 1 (dropWhile (\<lambda>c. c \<noteq> CHR ''.'') trimmed)))"

definition from_dec_fee :: "(dec_error, 'a) result \<Rightarrow> (fee_error, 'a) result" where
  "from_dec_fee r = (case r of Inl e \<Rightarrow> Inl (FeeDecimal e) | Inr x \<Rightarrow> Inr x)"

definition normaliseAndValidateBaseAmount ::
  "string \<Rightarrow> string \<Rightarrow> nat \<Rightarrow> (fee_error, string) result" where
  "normaliseAndValidateBaseAmount amt ccy scale =
     rbind (parseNonNegativeDecimal amt ''base.amount'') (\<lambda>(_, fracDigits).
       if length fracDigits > scale
       then Inl (ExcessFractionalDigits amt (length fracDigits) scale ccy)
       else from_dec_fee (roundToScale amt (IntNum (int scale)) DOWN))"

text \<open>The final formatting step is an inlined copy of \<open>formatScaledInt\<close>.\<close>

definition computeRawFee ::
  "string \<Rightarrow> string \<Rightarrow> nat \<Rightarrow> RoundingMode \<Rightarrow> (fee_error, string) result" where
  "computeRawFee amountStr rateStr targetScale mode =
     rbind (parseNonNegativeDecimal amountStr ''amount'') (\<lambda>(aInt, aFrac).
     rbind (parseNonNegativeDecimal rateStr ''ratePercent'') (\<lambda>(rInt, rFrac).
       let amountBig = bigint_of_string (aInt @ aFrac);
           rateBig = bigint_of_string (rInt @ rFrac);
           amountScale = length aFrac;
           rateScale = length rFrac;
           denominator = 10 ^ (amountScale + rateScale) * 100;
           numerator = amountBig * rateBig * 10 ^ targetScale;
           truncated = numerator sdiv denominator;
           remainder = numerator smod denominator;
           rounded = applyDivisionRounding truncated remainder denominator mode
       in Inr (formatScaledInt rounded targetScale)))"

definition minor_units :: "nat \<Rightarrow> string \<times> string \<Rightarrow> int" where
  "minor_units scale d = bigint_of_string (fst d @ take scale (padEnd scale CHR ''0'' (snd d)))"

definition addMoneyStrings :: "string \<Rightarrow> string \<Rightarrow> nat \<Rightarrow> (fee_error, string) result" where
  "addMoneyStrings a b scale =
     rbind (parseNonNegativeDecimal a ''a'') (\<lambda>aParsed.
     rbind (parseNonNegativeDecimal b ''b'') (\<lambda>bParsed.
       let aInt = minor_units scale aParsed;
           bInt = minor_units scale bParsed;
           sum = aInt + bInt
       in from_dec_fee (roundToScale (formatScaledInt sum scale) (IntNum (int scale)) DOWN)))"

text \<open>
  \<open>parseFloat(s) < 0\<close>: after leading white space, a minus sign, then \<open>Infinity\<close> or the longest
  decimal literal with an optional exponent, whose value is not rounded to zero (a double rounds a
  magnitude of at most \<open>2\<close> to the power \<open>-1075\<close> to zero).
\<close>

definition float_exponent :: "string \<Rightarrow> int" where
  "float_exponent r =
     (case r of
        [] \<Rightarrow> 0
      | e # t \<Rightarrow>
          if e \<noteq> CHR ''e'' \<and> e \<noteq> CHR ''E'' then 0
          else
            let neg = startsWith t ''-'';
                d = takeWhile is_digit (if neg \<or> startsWith t ''+'' then drop 1 t else t)
            in (if neg then - 1 else 1) * bigint_of_string d)"

definition parseFloat_negative :: "string \<Rightarrow> bool" where
  "parseFloat_negative s =
     (case dropWhile is_ws s of
        [] \<Rightarrow> False
      | c # r \<Rightarrow>
          if c \<noteq> CHR ''-'' then False
          else if startsWith r ''Infinity'' then True
          else
            let ip = takeWhile is_digit r;
                r1 = dropWhile is_digit r;
                fp = (if startsWith r1 ''.'' then takeWhile is_digit (drop 1 r1) else []);
                r2 = (if startsWith r1 ''.'' then dropWhile is_digit (drop 1 r1) else r1);
                mant = bigint_of_string (ip @ fp);
                e = float_exponent r2 - int (length fp)
            in ip @ fp \<noteq> [] \<and> mant \<noteq> 0 \<and> (e < 0 \<longrightarrow> mant * 2 ^ 1075 > 10 ^ nat (- e)))"

section \<open>Operations\<close>

definition calculateFee :: "FeeInput \<Rightarrow> RoundingMode \<Rightarrow> (fee_error, FeeResult) result" where
  "calculateFee input roundingMode =
     (if parseFloat_negative (ratePercent input) then Inl (RateNegative (ratePercent input))
      else
        let ccy = currency (base input); scale = getCurrencyScale ccy in
        rbind (normaliseAndValidateBaseAmount (amount (base input)) ccy scale) (\<lambda>normalisedBase.
        rbind (computeRawFee normalisedBase (ratePercent input) scale roundingMode) (\<lambda>feeAmountStr.
        rbind (addMoneyStrings normalisedBase feeAmountStr scale) (\<lambda>totalAmountStr.
          Inr \<lparr>baseAmount = \<lparr>amount = normalisedBase, currency = ccy\<rparr>,
               feeAmount = \<lparr>amount = feeAmountStr, currency = ccy\<rparr>,
               totalAmount = \<lparr>amount = totalAmountStr, currency = ccy\<rparr>\<rparr>))))"

fun sum_fees :: "string \<Rightarrow> nat \<Rightarrow> RoundingMode \<Rightarrow> int \<Rightarrow> string list \<Rightarrow> (fee_error, int) result" where
  "sum_fees normBase scale mode totalFeeBig [] = Inr totalFeeBig"
| "sum_fees normBase scale mode totalFeeBig (rate # rates) =
     rbind (computeRawFee normBase rate scale mode) (\<lambda>feeStr.
     rbind (parseNonNegativeDecimal feeStr ''fee'') (\<lambda>feeParsed.
       sum_fees normBase scale mode (totalFeeBig + minor_units scale feeParsed) rates))"

definition applyFees :: "Money \<Rightarrow> string list \<Rightarrow> RoundingMode \<Rightarrow> (fee_error, FeeResult) result" where
  "applyFees b rates roundingMode =
     (let ccy = currency b; scale = getCurrencyScale ccy in
      rbind (normaliseAndValidateBaseAmount (amount b) ccy scale) (\<lambda>normBase.
        if rates = [] then
          let zeroStr = (if scale = 0 then ''0'' else ''0'' @ ''.'' @ replicate scale CHR ''0'') in
          Inr \<lparr>baseAmount = \<lparr>amount = normBase, currency = ccy\<rparr>,
               feeAmount = \<lparr>amount = zeroStr, currency = ccy\<rparr>,
               totalAmount = \<lparr>amount = normBase, currency = ccy\<rparr>\<rparr>
        else
          rbind (sum_fees normBase scale roundingMode 0 rates) (\<lambda>totalFeeBig.
            let feeAmountStr = formatScaledInt totalFeeBig scale in
            rbind (addMoneyStrings normBase feeAmountStr scale) (\<lambda>totalAmountStr.
              Inr \<lparr>baseAmount = \<lparr>amount = normBase, currency = ccy\<rparr>,
                   feeAmount = \<lparr>amount = feeAmountStr, currency = ccy\<rparr>,
                   totalAmount = \<lparr>amount = totalAmountStr, currency = ccy\<rparr>\<rparr>))))"

section \<open>Lemmas\<close>

definition nonneg_denotes :: "string \<Rightarrow> rat \<Rightarrow> nat \<Rightarrow> bool" where
  "nonneg_denotes s q k = (denotes s q k \<and> \<not> startsWith (trim s) ''-'')"

lemma from_dec_fee_Inr [simp]: "from_dec_fee (Inr x) = Inr x"
  by (simp add: from_dec_fee_def)

lemma parse_negative_iff: "parseDecimalString s = Inr p \<Longrightarrow> negative p = startsWith (trim s) ''-''"
  by (auto simp: parseDecimalString_def Let_def split: if_splits)

lemma parseNonNegativeDecimal_denotes:
  assumes "nonneg_denotes s q k"
  obtains i f where "\<forall>l. parseNonNegativeDecimal s l = Inr (i, f)" "length f = k"
    "of_int (bigint_of_string (i @ f)) = q * 10 ^ k" "0 \<le> q"
proof -
  from assms obtain p where p: "parseDecimalString s = Inr p" "pd_value p = q" "length (fracStr p) = k"
    unfolding nonneg_denotes_def by (auto elim: denotesE)
  have n: "\<not> startsWith (trim s) ''-''" using assms by (simp add: nonneg_denotes_def)
  then have "parseNonNegativeDecimal s l = Inr (intStr p, fracStr p)" for l
    using p(1) by (auto simp: parseDecimalString_def parseNonNegativeDecimal_def Let_def split: if_splits)
  moreover have "\<not> negative p" using p(1) n by (simp add: parse_negative_iff)
  ultimately show thesis using p(2,3) that [of "intStr p" "fracStr p"]
    by (fastforce simp: bigint_mag pd_value_mag)
qed

lemma nonneg_denotes_format:
  assumes "0 \<le> v" shows "nonneg_denotes (formatScaledInt v k) (of_int v / 10 ^ k) k"
proof -
  obtain p where "parseDecimalString ([] @ formatScaledInt v k) = Inr p" "negative p = ([] \<noteq> ([] :: string))"
    using parse_formatScaledInt [OF assms, of "[]" k] by auto
  then show ?thesis using denotes_format(1) [OF assms] parse_negative_iff
    by (auto simp: nonneg_denotes_def)
qed

lemma minor_units_eq: "length f = scale \<Longrightarrow> minor_units scale (i, f) = bigint_of_string (i @ f)"
  by (simp add: minor_units_def padEnd_def)

lemma normalise_base:
  assumes "nonneg_denotes amt q k" "k \<le> scale"
  obtains v where "normaliseAndValidateBaseAmount amt ccy scale = Inr (formatScaledInt v scale)"
    "0 \<le> v" "of_int v = q * 10 ^ scale"
proof -
  obtain i f where pf: "\<forall>l. parseNonNegativeDecimal amt l = Inr (i, f)" "length f = k" "0 \<le> q"
    using assms(1) by (rule parseNonNegativeDecimal_denotes)
  obtain p where p: "parseDecimalString amt = Inr p" "pd_value p = q" "length (fracStr p) = k"
    using assms(1) unfolding nonneg_denotes_def by (auto elim: denotesE)
  have np: "\<not> negative p" using parse_negative_iff [OF p(1)] assms(1) by (simp add: nonneg_denotes_def)
  let ?v = "toScaledMagnitude p scale"
  have "roundToScale amt (IntNum (int scale)) DOWN = Inr (formatScaledInt ?v scale)"
    using p assms(2) np by (simp add: roundToScale_def toScaledMagnitude_def Let_def)
  moreover have "of_int ?v = q * 10 ^ scale" using scaled_value [of p scale] p assms(2) np by simp
  moreover have "0 \<le> ?v" using p assms(2) by (simp add: toScaledMagnitude_eq)
  ultimately show thesis using that pf assms(2)
    by (simp add: normaliseAndValidateBaseAmount_def)
qed

text \<open>The fee in minor units: the exact rational fee rounded once.\<close>

definition fee_units :: "RoundingMode \<Rightarrow> nat \<Rightarrow> rat \<Rightarrow> rat \<Rightarrow> int" where
  "fee_units m scale q r = round_signed m (q * r / 100 * 10 ^ scale)"

lemma fee_units_mag:
  assumes "0 \<le> q" "0 \<le> r"
  shows "fee_units m scale q r = round_mag m (q * r / 100 * 10 ^ scale)" and "0 \<le> fee_units m scale q r"
proof -
  have n: "0 \<le> q * r / 100 * 10 ^ scale" using assms by simp
  then have "\<not> q * r / 100 * 10 ^ scale < 0" by (simp only: not_less)
  then show "fee_units m scale q r = round_mag m (q * r / 100 * 10 ^ scale)"
    unfolding fee_units_def round_signed_def by (simp only: if_False)
  then show "0 \<le> fee_units m scale q r" using round_mag_nonneg [OF n] by (simp only:)
qed

lemma computeRawFee_denotes:
  assumes "nonneg_denotes a q k" "nonneg_denotes r qr kr"
  shows "computeRawFee a r scale m = Inr (formatScaledInt (fee_units m scale q qr) scale)"
proof -
  obtain i f where a: "\<forall>l. parseNonNegativeDecimal a l = Inr (i, f)" "length f = k"
    "of_int (bigint_of_string (i @ f)) = q * 10 ^ k" "0 \<le> q"
    using assms(1) by (rule parseNonNegativeDecimal_denotes)
  obtain i' f' where r: "\<forall>l. parseNonNegativeDecimal r l = Inr (i', f')" "length f' = kr"
    "of_int (bigint_of_string (i' @ f')) = qr * 10 ^ kr" "0 \<le> qr"
    using assms(2) by (rule parseNonNegativeDecimal_denotes)
  define n where "n = bigint_of_string (i @ f) * bigint_of_string (i' @ f') * 10 ^ scale"
  define d where "d = (10 :: int) ^ (k + kr) * 100"
  have nd: "0 \<le> n" "0 < d" by (simp_all add: n_def d_def bigint_of_string_def)
  have "(of_int n / of_int d :: rat) = q * qr / 100 * 10 ^ scale"
    by (simp add: n_def d_def a(3) r(3) power_add)
  then have "applyDivisionRounding (n sdiv d) (n smod d) d m = fee_units m scale q qr"
    by (simp only: applyDivisionRounding_round_mag [OF nd] fee_units_mag(1) [OF a(4) r(4)])
  then show ?thesis
    by (simp add: computeRawFee_def a(1,2) r(1,2) Let_def n_def d_def)
qed

lemma parse_format_units:
  assumes "0 \<le> v"
  obtains i f where "\<forall>l. parseNonNegativeDecimal (formatScaledInt v k) l = Inr (i, f)"
    "minor_units k (i, f) = v"
proof -
  obtain i f where d: "\<forall>l. parseNonNegativeDecimal (formatScaledInt v k) l = Inr (i, f)" "length f = k"
    "of_int (bigint_of_string (i @ f)) = (of_int v / 10 ^ k :: rat) * 10 ^ k"
    using nonneg_denotes_format [OF assms, of k] by (rule parseNonNegativeDecimal_denotes)
  then have "of_int (bigint_of_string (i @ f)) = (of_int v :: rat)" by simp
  then have "minor_units k (i, f) = v" using d(2) by (simp only: minor_units_eq of_int_eq_iff)
  with d(1) show thesis by (rule that)
qed

lemma round_formatted:
  assumes "0 \<le> v"
  shows "roundToScale (formatScaledInt v k) (IntNum (int k)) m = Inr (formatScaledInt v k)"
proof -
  obtain p where p: "parseDecimalString (formatScaledInt v k) = Inr p" "negative p = False"
    "length (fracStr p) = k" "pd_mag p = nat v"
    using parse_formatScaledInt [OF assms, of "[]" k] by auto
  then have "toScaledMagnitude p k = v" using assms by (simp add: toScaledMagnitude_eq)
  with p show ?thesis by (simp add: roundToScale_def toScaledMagnitude_def Let_def)
qed

lemma addMoneyStrings_units:
  assumes "0 \<le> v" "0 \<le> w"
  shows "addMoneyStrings (formatScaledInt v k) (formatScaledInt w k) k = Inr (formatScaledInt (v + w) k)"
proof -
  obtain i f where a: "\<forall>l. parseNonNegativeDecimal (formatScaledInt v k) l = Inr (i, f)"
    "minor_units k (i, f) = v" using assms(1) by (rule parse_format_units [where k = k])
  obtain i' f' where b: "\<forall>l. parseNonNegativeDecimal (formatScaledInt w k) l = Inr (i', f')"
    "minor_units k (i', f') = w" using assms(2) by (rule parse_format_units [where k = k])
  show ?thesis using assms by (simp add: addMoneyStrings_def a b round_formatted)
qed

lemma sum_fees_units:
  assumes "nonneg_denotes nb q k" "0 \<le> q"
    and "list_all2 (\<lambda>r qr. \<exists>kr. nonneg_denotes r qr kr) rates qs"
  shows "sum_fees nb scale m acc rates = Inr (acc + (\<Sum>qr\<leftarrow>qs. fee_units m scale q qr))"
  using assms(3)
proof (induction rates qs arbitrary: acc rule: list_all2_induct)
  case (Cons r rs qr qs)
  then obtain kr where r: "nonneg_denotes r qr kr" by blast
  then have "0 \<le> qr" by (auto elim: parseNonNegativeDecimal_denotes)
  then have u: "0 \<le> fee_units m scale q qr" using assms(2) fee_units_mag(2) by simp
  obtain i f where d: "\<forall>l. parseNonNegativeDecimal (formatScaledInt (fee_units m scale q qr) scale) l = Inr (i, f)"
    "minor_units scale (i, f) = fee_units m scale q qr" using u by (rule parse_format_units [where k = scale])
  show ?case using Cons.IH by (simp add: computeRawFee_denotes [OF assms(1) r] d add.assoc)
qed simp

section \<open>Properties\<close>

text \<open>Claim C31. A fee is the exact rational fee rounded once to the currency's minor unit with the given
  mode, the base is preserved, and the total is exactly base plus fee.\<close>

theorem calculateFee_correct:
  assumes "nonneg_denotes (amount (base inp)) q k" and "nonneg_denotes (ratePercent inp) r kr"
    and "\<not> parseFloat_negative (ratePercent inp)"
    and "scale = getCurrencyScale (currency (base inp))" and "k \<le> scale"
  shows "\<exists>res. calculateFee inp m = Inr res \<and>
     denotes (amount (baseAmount res)) q scale \<and>
     denotes (amount (feeAmount res)) (of_int (fee_units m scale q r) / 10 ^ scale) scale \<and>
     denotes (amount (totalAmount res)) (q + of_int (fee_units m scale q r) / 10 ^ scale) scale"
proof -
  obtain v where v: "normaliseAndValidateBaseAmount (amount (base inp)) (currency (base inp)) scale =
      Inr (formatScaledInt v scale)" "0 \<le> v" "of_int v = q * 10 ^ scale"
    using assms(1,5) by (rule normalise_base)
  have q: "of_int v / 10 ^ scale = q" by (simp add: v(3))
  have nb: "nonneg_denotes (formatScaledInt v scale) q scale"
    using nonneg_denotes_format [OF v(2), of scale] by (simp add: q)
  let ?u = "fee_units m scale q r"
  have pos: "0 \<le> q" "0 \<le> r"
    using assms(1,2) by (auto elim: parseNonNegativeDecimal_denotes)
  then have u: "0 \<le> ?u" by (rule fee_units_mag(2))
  have "of_int (v + ?u) / 10 ^ scale = q + of_int ?u / 10 ^ scale"
    by (simp add: add_divide_distrib q)
  moreover have "0 \<le> v + ?u" using v(2) u by simp
  ultimately show ?thesis
    using denotes_format(1) [of v scale] denotes_format(1) [of ?u scale] denotes_format(1) [of "v + ?u" scale] v(2) u
    by (simp add: calculateFee_def Let_def assms(3) assms(4) [symmetric] v(1) q
        computeRawFee_denotes [OF nb assms(2)] addMoneyStrings_units)
qed

theorem calculateFee_correct_witness:
  "\<exists>res. calculateFee \<lparr>base = \<lparr>amount = ''100.00'', currency = ''USD''\<rparr>, ratePercent = ''2.5''\<rparr> HALF_UP = Inr res \<and>
     denotes (amount (baseAmount res)) 100 2 \<and>
     denotes (amount (feeAmount res)) (of_int (fee_units HALF_UP 2 100 (5 / 2)) / 10 ^ 2) 2 \<and>
     denotes (amount (totalAmount res)) (100 + of_int (fee_units HALF_UP 2 100 (5 / 2)) / 10 ^ 2) 2"
  by (rule calculateFee_correct [of _ _ 2 _ 1])
    (simp_all add: nonneg_denotes_def dec_eval parseFloat_negative_def getCurrencyScale_def CURRENCY_SCALES_def)

text \<open>The fee steps are additive and never compound: the accumulated fee is the sum of the
  individually rounded fees of the original base, and the total is base plus that sum.\<close>

theorem applyFees_additive:
  assumes "nonneg_denotes (amount b) q k" and "scale = getCurrencyScale (currency b)" and "k \<le> scale"
    and "list_all2 (\<lambda>r qr. \<exists>kr. nonneg_denotes r qr kr) rates qs"
  shows "\<exists>res. applyFees b rates m = Inr res \<and>
     denotes (amount (baseAmount res)) q scale \<and>
     denotes (amount (feeAmount res)) (of_int (\<Sum>qr\<leftarrow>qs. fee_units m scale q qr) / 10 ^ scale) scale \<and>
     denotes (amount (totalAmount res)) (q + of_int (\<Sum>qr\<leftarrow>qs. fee_units m scale q qr) / 10 ^ scale) scale"
proof -
  obtain v where v: "normaliseAndValidateBaseAmount (amount b) (currency b) scale =
      Inr (formatScaledInt v scale)" "0 \<le> v" "of_int v = q * 10 ^ scale"
    using assms(1,3) by (rule normalise_base)
  have q: "of_int v / 10 ^ scale = q" by (simp add: v(3))
  have nb: "nonneg_denotes (formatScaledInt v scale) q scale"
    using nonneg_denotes_format [OF v(2), of scale] by (simp add: q)
  have q0: "0 \<le> q" using assms(1) by (auto elim: parseNonNegativeDecimal_denotes)
  define t where "t = (\<Sum>qr\<leftarrow>qs. fee_units m scale q qr)"
  have "0 \<le> fee_units m scale q qr" if "qr \<in> set qs" for qr
  proof -
    have "\<exists>r kr. nonneg_denotes r qr kr"
      using list_all2_conv_all_nth [THEN iffD1, OF assms(4)] that
      unfolding in_set_conv_nth by metis
    then have "0 \<le> qr" by (auto elim: parseNonNegativeDecimal_denotes)
    with q0 show ?thesis by (rule fee_units_mag(2))
  qed
  then have t0: "0 \<le> t" unfolding t_def by (intro sum_list_nonneg) auto
  have "of_int (v + t) / 10 ^ scale = q + of_int t / 10 ^ scale" by (simp add: add_divide_distrib q)
  with denotes_format(1) [of "v + t" scale] t0 v(2)
  have dt: "denotes (formatScaledInt (v + t) scale) (q + of_int t / 10 ^ scale) scale" by simp
  have dv: "denotes (formatScaledInt v scale) q scale" using denotes_format(1) [of v scale] v(2) q by simp
  show ?thesis
  proof (cases "rates = []")
    case True
    have "(if scale = 0 then ''0'' else ''0'' @ ''.'' @ replicate scale CHR ''0'') = formatScaledInt 0 scale"
      by (cases scale) (simp_all add: formatScaledInt_def bigint_to_string_def sdiv_nonneg smod_nonneg
          padStart_def replicate_append_same)
    then have "denotes (if scale = 0 then ''0'' else ''0'' @ ''.'' @ replicate scale CHR ''0'') 0 scale"
      using denotes_format(1) [of 0 scale] by (simp only: order.refl of_int_0 div_0)
    then show ?thesis using assms(4) True dv v(1)
      by (cases "scale = 0") (simp_all add: applyFees_def Let_def assms(2) [symmetric])
  next
    case False
    then show ?thesis
      using dv dt denotes_format(1) [OF t0, of scale] t0 v(2)
      by (simp add: applyFees_def Let_def assms(2) [symmetric] v(1) addMoneyStrings_units
          sum_fees_units [OF nb q0 assms(4)] t_def [symmetric])
  qed
qed

theorem applyFees_additive_witness:
  "\<exists>res. applyFees \<lparr>amount = ''19.99'', currency = ''USD''\<rparr> [''1.5'', ''0.5''] HALF_UP = Inr res \<and>
     denotes (amount (baseAmount res)) (1999 / 100) 2 \<and>
     denotes (amount (feeAmount res))
       (of_int (\<Sum>qr\<leftarrow>[3 / 2, 1 / 2]. fee_units HALF_UP 2 (1999 / 100) qr) / 10 ^ 2) 2 \<and>
     denotes (amount (totalAmount res))
       (1999 / 100 + of_int (\<Sum>qr\<leftarrow>[3 / 2, 1 / 2]. fee_units HALF_UP 2 (1999 / 100) qr) / 10 ^ 2) 2"
  by (rule applyFees_additive [of _ _ 2])
    (simp_all add: nonneg_denotes_def dec_eval getCurrencyScale_def CURRENCY_SCALES_def)

end
