(* ===== verification/StateTransition.thy ===== *)
theory StateTransition
  imports Prelude
begin

text \<open>
  \<open>src/src/lib/stateTransition.ts\<close>: the generic transition matrix every lifecycle of the backend
  is declared with.  States are values of an arbitrary type; the composite edge key of the source
  is the pair of the two states (no state name of the repository contains the separator).  The
  locale \<open>transition_matrix\<close> states what a successfully constructed matrix promises; the
  lifecycles interpret it.
\<close>

section \<open>Data\<close>

record 's Transition =
  t_from :: 's
  t_to :: 's
  t_action :: "string option"

datatype 's transition_error = InvalidTransition 's 's

record 's TransitionResult =
  success :: bool
  tr_from :: 's
  tr_to :: 's
  tr_error :: "'s transition_error option"

datatype 's matrix_error = DuplicateTransition 's 's

record 's TransitionMatrix =
  edges :: "('s, 's list) jsmap"
  edgeKeys :: "('s \<times> 's) list"
  allStates :: "'s list"
  transitions :: "'s Transition list"

section \<open>Operations\<close>

fun add_transitions ::
  "'s Transition list \<Rightarrow> 's TransitionMatrix \<Rightarrow> ('s matrix_error, 's TransitionMatrix) result" where
  "add_transitions [] m = Inr m"
| "add_transitions (t # ts) m =
     (let m1 = m\<lparr>allStates := set_add (t_to t) (set_add (t_from t) (allStates m))\<rparr>;
          key = (t_from t, t_to t)
      in if key \<in> set (edgeKeys m1) then Inl (DuplicateTransition (t_from t) (t_to t))
         else
           let m2 = m1\<lparr>edgeKeys := set_add key (edgeKeys m1)\<rparr>;
               targets = (case map_get (edges m2) (t_from t) of None \<Rightarrow> [] | Some ts' \<Rightarrow> ts')
           in add_transitions ts
                (m2\<lparr>edges := map_set (t_from t) (set_add (t_to t) targets) (edges m2)\<rparr>))"

definition newTransitionMatrix ::
  "'s Transition list \<Rightarrow> ('s matrix_error, 's TransitionMatrix) result" where
  "newTransitionMatrix ts =
     add_transitions ts \<lparr>edges = [], edgeKeys = [], allStates = [], transitions = ts\<rparr>"

definition isValid :: "'s TransitionMatrix \<Rightarrow> 's \<Rightarrow> 's \<Rightarrow> bool" where
  "isValid m from_s to_s =
     (case map_get (edges m) from_s of None \<Rightarrow> False | Some targets \<Rightarrow> to_s \<in> set targets)"

definition tryTransition :: "'s TransitionMatrix \<Rightarrow> 's \<Rightarrow> 's \<Rightarrow> 's TransitionResult" where
  "tryTransition m from_s to_s =
     (if isValid m from_s to_s
      then \<lparr>success = True, tr_from = from_s, tr_to = to_s, tr_error = None\<rparr>
      else \<lparr>success = False, tr_from = from_s, tr_to = to_s,
            tr_error = Some (InvalidTransition from_s to_s)\<rparr>)"

definition getAllowedTargets :: "'s TransitionMatrix \<Rightarrow> 's \<Rightarrow> 's list" where
  "getAllowedTargets m from_s =
     (case map_get (edges m) from_s of None \<Rightarrow> [] | Some targets \<Rightarrow> targets)"

definition getTerminalStates :: "'s TransitionMatrix \<Rightarrow> 's list" where
  "getTerminalStates m =
     filter (\<lambda>s. \<not> map_has (edges m) s \<or> map_get (edges m) s = Some []) (allStates m)"

definition getAllStates :: "'s TransitionMatrix \<Rightarrow> 's list" where
  "getAllStates m = allStates m"

definition matrix_size :: "'s TransitionMatrix \<Rightarrow> nat" where
  "matrix_size m = length (transitions m)"

section \<open>What the constructor builds\<close>

definition pairs :: "'s Transition list \<Rightarrow> ('s \<times> 's) list" where
  "pairs ts = map (\<lambda>t. (t_from t, t_to t)) ts"

lemma pairs_simps [simp]: "pairs [] = []" "pairs (t # ts) = (t_from t, t_to t) # pairs ts"
  by (simp_all add: pairs_def)

definition targets_of :: "'s TransitionMatrix \<Rightarrow> 's \<Rightarrow> 's list" where
  "targets_of m a = (case map_get (edges m) a of None \<Rightarrow> [] | Some ts \<Rightarrow> ts)"

lemma add_transitions_built:
  assumes "add_transitions ts m = Inr m'"
  shows "distinct (pairs ts) \<and> set (pairs ts) \<inter> set (edgeKeys m) = {} \<and>
    (\<forall>a b. b \<in> set (targets_of m' a) \<longleftrightarrow> b \<in> set (targets_of m a) \<or> (a, b) \<in> set (pairs ts)) \<and>
    set (allStates m') = set (allStates m) \<union> t_from ` set ts \<union> t_to ` set ts \<and>
    transitions m' = transitions m"
  using assms
proof (induction ts arbitrary: m)
  case Nil
  then show ?case by simp
next
  case (Cons t ts)
  let ?k = "(t_from t, t_to t)"
  let ?m = "m\<lparr>allStates := set_add (t_to t) (set_add (t_from t) (allStates m)),
      edgeKeys := set_add ?k (edgeKeys m),
      edges := map_set (t_from t) (set_add (t_to t) (targets_of m (t_from t))) (edges m)\<rparr>"
  have k: "?k \<notin> set (edgeKeys m)" using Cons.prems by (auto simp: Let_def split: if_splits)
  with Cons.prems have r: "add_transitions ts ?m = Inr m'"
    by (simp add: Let_def targets_of_def)
  have "b \<in> set (targets_of ?m a) \<longleftrightarrow> b \<in> set (targets_of m a) \<or> (a, b) = ?k" for a b
    by (auto simp: targets_of_def store_simps)
  with Cons.IH [OF r] k show ?case by auto
qed

lemma add_transitions_ok:
  assumes "distinct (pairs ts)" "set (pairs ts) \<inter> set (edgeKeys m) = {}"
  shows "\<exists>m'. add_transitions ts m = Inr m'"
  using assms by (induction ts arbitrary: m) (auto simp: Let_def)

lemma isValid_targets: "isValid m a b \<longleftrightarrow> b \<in> set (targets_of m a)"
  by (simp add: isValid_def targets_of_def split: option.splits)

lemma newTransitionMatrix_ok:
  "distinct (pairs ts) \<Longrightarrow> newTransitionMatrix ts = Inr (projr (newTransitionMatrix ts))"
  using add_transitions_ok [of ts "\<lparr>edges = [], edgeKeys = [], allStates = [], transitions = ts\<rparr>"]
  by (auto simp: newTransitionMatrix_def)

lemma sink_rtranclp: "(\<And>b. \<not> R s b) \<Longrightarrow> R\<^sup>*\<^sup>* s t \<Longrightarrow> t = s"
  by (erule converse_rtranclpE) auto

section \<open>The interface of a constructed matrix\<close>

locale transition_matrix =
  fixes ts :: "'s Transition list" and m :: "'s TransitionMatrix"
  assumes built: "newTransitionMatrix ts = Inr m"
begin

lemma isValid_iff: "isValid m a b \<longleftrightarrow> (a, b) \<in> set (pairs ts)"
  using add_transitions_built [OF built [unfolded newTransitionMatrix_def]]
  by (simp add: isValid_targets targets_of_def)

lemma states: "set (getAllStates m) = t_from ` set ts \<union> t_to ` set ts"
  using add_transitions_built [OF built [unfolded newTransitionMatrix_def]]
  by (simp add: getAllStates_def)

lemma allowed_iff: "b \<in> set (getAllowedTargets m a) \<longleftrightarrow> isValid m a b"
  by (simp add: isValid_targets targets_of_def getAllowedTargets_def)

lemma terminal_iff: "s \<in> set (getTerminalStates m) \<longleftrightarrow> s \<in> set (getAllStates m) \<and> (\<forall>b. \<not> isValid m s b)"
proof (cases "map_get (edges m) s")
  case None
  then show ?thesis
    by (simp add: getTerminalStates_def getAllStates_def map_has_def isValid_def)
next
  case (Some targets)
  then show ?thesis
    by (cases targets) (auto simp: getTerminalStates_def getAllStates_def map_has_def isValid_def)
qed

lemma try_success: "success (tryTransition m a b) \<longleftrightarrow> isValid m a b"
  by (simp add: tryTransition_def)

lemma sink_absorbing: "(\<And>b. \<not> isValid m s b) \<Longrightarrow> (isValid m)\<^sup>*\<^sup>* s t \<Longrightarrow> t = s"
  by (rule sink_rtranclp)

end

section \<open>Properties\<close>

text \<open>The constructor succeeds exactly on lists without a repeated pair, and then a transition is
  valid exactly when its pair is listed, the terminal states are exactly the listed states without
  an outgoing pair, and the structured result reports success exactly for the listed pairs.\<close>

theorem matrix_constructor_correct:
  "((\<exists>m. newTransitionMatrix ts = Inr m) \<longleftrightarrow> distinct (pairs ts)) \<and>
   (\<forall>m. newTransitionMatrix ts = Inr m \<longrightarrow>
      (\<forall>a b. isValid m a b \<longleftrightarrow> (a, b) \<in> set (pairs ts)) \<and>
      (\<forall>a b. success (tryTransition m a b) \<longleftrightarrow> (a, b) \<in> set (pairs ts)) \<and>
      (\<forall>s. s \<in> set (getTerminalStates m) \<longleftrightarrow>
         s \<in> t_from ` set ts \<union> t_to ` set ts \<and> (\<forall>b. (s, b) \<notin> set (pairs ts))))"
proof (intro conjI allI impI)
  show "(\<exists>m. newTransitionMatrix ts = Inr m) \<longleftrightarrow> distinct (pairs ts)"
    using add_transitions_ok [of ts] add_transitions_built [of ts]
    unfolding newTransitionMatrix_def by fastforce
  fix m a b s
  assume "newTransitionMatrix ts = Inr m"
  then have tm: "transition_matrix ts m" by unfold_locales
  then show "isValid m a b \<longleftrightarrow> (a, b) \<in> set (pairs ts)"
    and "success (tryTransition m a b) \<longleftrightarrow> (a, b) \<in> set (pairs ts)"
    and "s \<in> set (getTerminalStates m) \<longleftrightarrow>
         s \<in> t_from ` set ts \<union> t_to ` set ts \<and> (\<forall>b. (s, b) \<notin> set (pairs ts))"
    by (simp_all add: transition_matrix.isValid_iff transition_matrix.try_success
        transition_matrix.terminal_iff transition_matrix.states)
qed

theorem matrix_constructor_correct_witness:
  "\<exists>m. newTransitionMatrix [\<lparr>t_from = (0 :: nat), t_to = 1, t_action = None\<rparr>] = Inr m \<and>
       isValid m 0 1 \<and> \<not> isValid m 1 0 \<and> 1 \<in> set (getTerminalStates m)"
  using matrix_constructor_correct [of "[\<lparr>t_from = (0 :: nat), t_to = 1, t_action = None\<rparr>]"] by auto

end
