(* ===== verification/Lifecycles.thy ===== *)
theory Lifecycles
  imports StateTransition
begin

text \<open>
  The lifecycle matrices declared with the transition matrix of \<open>src/src/lib/stateTransition.ts\<close>:
  disputes (\<open>services/governance/disputeStateMachine.ts\<close>), outbox events
  (\<open>db/outbox/transitions.ts\<close>), Horizon ingestion (\<open>listeners/horizonTransitions.ts\<close>), settlements
  (\<open>services/settlementTransitions.ts\<close>), signing keys and key-encryption keys
  (\<open>services/keyManager/keyTransitions.ts\<close>).  Each interprets the locale of a constructed matrix.
  The ingestion lifecycle keeps its states as strings, because its callers pass whatever string
  the repository returns.
\<close>

section \<open>Disputes\<close>

datatype DisputeStatus = DPending | DUnderReview | DResolved | DDismissed | DExpired

definition DISPUTE_STATES :: "DisputeStatus list" where
  "DISPUTE_STATES = [DPending, DUnderReview, DResolved, DDismissed, DExpired]"

definition edge :: "'s \<Rightarrow> 's \<Rightarrow> string \<Rightarrow> 's Transition" where
  "edge a b act = \<lparr>t_from = a, t_to = b, t_action = Some act\<rparr>"

definition VALID_TRANSITIONS :: "DisputeStatus Transition list" where
  "VALID_TRANSITIONS =
    [edge DPending DUnderReview ''mark_under_review'',
     edge DPending DResolved ''resolve'',
     edge DPending DDismissed ''dismiss'',
     edge DPending DExpired ''expire'',
     edge DUnderReview DResolved ''resolve'',
     edge DUnderReview DDismissed ''dismiss'',
     edge DUnderReview DExpired ''expire'']"

definition DISPUTE_MATRIX :: "DisputeStatus TransitionMatrix" where
  "DISPUTE_MATRIX = projr (newTransitionMatrix
    [edge DPending DUnderReview ''mark_under_review'',
     edge DPending DResolved ''resolve'',
     edge DPending DDismissed ''dismiss'',
     edge DPending DExpired ''expire'',
     edge DUnderReview DResolved ''resolve'',
     edge DUnderReview DDismissed ''dismiss'',
     edge DUnderReview DExpired ''expire''])"

definition isValidTransition :: "DisputeStatus \<Rightarrow> DisputeStatus \<Rightarrow> bool" where
  "isValidTransition from_s to_s = isValid DISPUTE_MATRIX from_s to_s"

definition tryDisputeTransition ::
  "DisputeStatus \<Rightarrow> DisputeStatus \<Rightarrow> DisputeStatus TransitionResult" where
  "tryDisputeTransition from_s to_s = tryTransition DISPUTE_MATRIX from_s to_s"

interpretation dispute_tm: transition_matrix VALID_TRANSITIONS DISPUTE_MATRIX
  unfolding DISPUTE_MATRIX_def VALID_TRANSITIONS_def
  by unfold_locales (rule newTransitionMatrix_ok, simp add: edge_def)

section \<open>Outbox events\<close>

datatype OutboxLifecycleStatus = OPending | OProcessing | OPublished | OFailed | ODeadLetter

definition OUTBOX_LIFECYCLE_STATUSES :: "OutboxLifecycleStatus list" where
  "OUTBOX_LIFECYCLE_STATUSES = [OPending, OProcessing, OPublished, OFailed, ODeadLetter]"

definition outbox_edges :: "OutboxLifecycleStatus Transition list" where
  "outbox_edges =
    [edge OPending OProcessing ''claim'',
     edge OProcessing OPublished ''mark_published'',
     edge OProcessing OPending ''retry'',
     edge OProcessing ODeadLetter ''dead_letter'']"

definition OUTBOX_LIFECYCLE_TRANSITIONS :: "OutboxLifecycleStatus TransitionMatrix" where
  "OUTBOX_LIFECYCLE_TRANSITIONS = projr (newTransitionMatrix outbox_edges)"

definition OUTBOX_TERMINAL_STATUSES :: "OutboxLifecycleStatus list" where
  "OUTBOX_TERMINAL_STATUSES = [OPublished, OFailed, ODeadLetter]"

definition isTerminalOutboxStatus :: "OutboxLifecycleStatus \<Rightarrow> bool" where
  "isTerminalOutboxStatus status = (status \<in> set OUTBOX_TERMINAL_STATUSES)"

definition isValidOutboxTransition :: "OutboxLifecycleStatus \<Rightarrow> OutboxLifecycleStatus \<Rightarrow> bool" where
  "isValidOutboxTransition from_s to_s = isValid OUTBOX_LIFECYCLE_TRANSITIONS from_s to_s"

definition isOutboxLifecycleStatus :: "string \<Rightarrow> bool" where
  "isOutboxLifecycleStatus status =
     (status = ''pending'' \<or> status = ''processing'' \<or> status = ''published'' \<or>
      status = ''failed'' \<or> status = ''dead_letter'')"

definition isTerminalOutboxStatus_2 :: "OutboxLifecycleStatus \<Rightarrow> bool" where
  "isTerminalOutboxStatus_2 status =
     (length (getAllowedTargets OUTBOX_LIFECYCLE_TRANSITIONS status) = 0)"

definition tryOutboxTransition ::
  "OutboxLifecycleStatus \<Rightarrow> OutboxLifecycleStatus \<Rightarrow> OutboxLifecycleStatus TransitionResult" where
  "tryOutboxTransition from_s to_s = tryTransition OUTBOX_LIFECYCLE_TRANSITIONS from_s to_s"

definition getAllowedOutboxTargets :: "OutboxLifecycleStatus \<Rightarrow> OutboxLifecycleStatus list" where
  "getAllowedOutboxTargets current = getAllowedTargets OUTBOX_LIFECYCLE_TRANSITIONS current"

definition isSelfOutboxTransition :: "OutboxLifecycleStatus \<Rightarrow> OutboxLifecycleStatus \<Rightarrow> bool" where
  "isSelfOutboxTransition from_s to_s = (from_s = to_s)"

definition canRecoverOutboxTransition :: "OutboxLifecycleStatus \<Rightarrow> OutboxLifecycleStatus \<Rightarrow> bool" where
  "canRecoverOutboxTransition from_s to_s = isValid OUTBOX_LIFECYCLE_TRANSITIONS from_s to_s"

interpretation outbox_tm: transition_matrix outbox_edges OUTBOX_LIFECYCLE_TRANSITIONS
  unfolding OUTBOX_LIFECYCLE_TRANSITIONS_def
  by unfold_locales (rule newTransitionMatrix_ok, simp add: outbox_edges_def edge_def)

section \<open>Horizon ingestion\<close>

definition isHorizonIngestionState :: "string option \<Rightarrow> bool" where
  "isHorizonIngestionState s = (s = Some ''active'' \<or> s = Some ''slashed'' \<or> s = Some ''withdrawn'')"

definition horizon_edges :: "string Transition list" where
  "horizon_edges =
    [edge ''active'' ''slashed'' ''slash'',
     edge ''active'' ''withdrawn'' ''withdraw'',
     edge ''slashed'' ''withdrawn'' ''withdraw'']"

definition HORIZON_INGESTION_TRANSITIONS :: "string TransitionMatrix" where
  "HORIZON_INGESTION_TRANSITIONS = projr (newTransitionMatrix horizon_edges)"

datatype ingestion_code = INVALID_STATE_TRANSITION | NODE_NOT_INGESTED

datatype IngestionTransitionDecision =
    Applied
  | Noop string
  | Rejected ingestion_code "string option" string

definition resolveIngestionTransition :: "string option \<Rightarrow> string \<Rightarrow> IngestionTransitionDecision" where
  "resolveIngestionTransition current requested =
     (case current of
        None \<Rightarrow> Rejected NODE_NOT_INGESTED None requested
      | Some c \<Rightarrow>
          if c = requested then Noop c
          else if isValid HORIZON_INGESTION_TRANSITIONS c requested then Applied
          else Rejected INVALID_STATE_TRANSITION (Some c) requested)"

definition validateIngestionTransition :: "string \<Rightarrow> string \<Rightarrow> string TransitionResult" where
  "validateIngestionTransition from_s to_s = tryTransition HORIZON_INGESTION_TRANSITIONS from_s to_s"

definition getAllowedIngestionTargets :: "string \<Rightarrow> string list" where
  "getAllowedIngestionTargets current = getAllowedTargets HORIZON_INGESTION_TRANSITIONS current"

definition getTerminalIngestionStates :: "string list" where
  "getTerminalIngestionStates = getTerminalStates HORIZON_INGESTION_TRANSITIONS"

interpretation horizon_tm: transition_matrix horizon_edges HORIZON_INGESTION_TRANSITIONS
  unfolding HORIZON_INGESTION_TRANSITIONS_def
  by unfold_locales (rule newTransitionMatrix_ok, simp add: horizon_edges_def edge_def)

section \<open>Settlements\<close>

datatype SettlementLifecycleStatus = SPending | SSettled | SFailed

definition settlement_edges :: "SettlementLifecycleStatus Transition list" where
  "settlement_edges =
    [edge SPending SSettled ''settle'',
     edge SPending SFailed ''fail'',
     edge SFailed SPending ''retry'']"

definition SETTLEMENT_TRANSITIONS :: "SettlementLifecycleStatus TransitionMatrix" where
  "SETTLEMENT_TRANSITIONS = projr (newTransitionMatrix settlement_edges)"

definition validateSettlementTransition ::
  "SettlementLifecycleStatus \<Rightarrow> SettlementLifecycleStatus \<Rightarrow> SettlementLifecycleStatus TransitionResult" where
  "validateSettlementTransition from_s to_s = tryTransition SETTLEMENT_TRANSITIONS from_s to_s"

definition getAllowedSettlementTargets ::
  "SettlementLifecycleStatus \<Rightarrow> SettlementLifecycleStatus list" where
  "getAllowedSettlementTargets current = getAllowedTargets SETTLEMENT_TRANSITIONS current"

interpretation settlement_tm: transition_matrix settlement_edges SETTLEMENT_TRANSITIONS
  unfolding SETTLEMENT_TRANSITIONS_def
  by unfold_locales (rule newTransitionMatrix_ok, simp add: settlement_edges_def edge_def)

section \<open>Signing keys and key-encryption keys\<close>

datatype SigningKeyState = SKActive | SKRetired

definition signing_key_edges :: "SigningKeyState Transition list" where
  "signing_key_edges = [edge SKActive SKRetired ''rotate'']"

definition SIGNING_KEY_TRANSITIONS :: "SigningKeyState TransitionMatrix" where
  "SIGNING_KEY_TRANSITIONS = projr (newTransitionMatrix signing_key_edges)"

definition isValidSigningKeyTransition :: "SigningKeyState \<Rightarrow> SigningKeyState \<Rightarrow> bool" where
  "isValidSigningKeyTransition from_s to_s = isValid SIGNING_KEY_TRANSITIONS from_s to_s"

definition trySigningKeyTransition ::
  "SigningKeyState \<Rightarrow> SigningKeyState \<Rightarrow> SigningKeyState TransitionResult" where
  "trySigningKeyTransition from_s to_s = tryTransition SIGNING_KEY_TRANSITIONS from_s to_s"

datatype KekLifecycleState = KekActive | KekRetired

definition kek_edges :: "KekLifecycleState Transition list" where
  "kek_edges = [edge KekRetired KekActive ''activate'', edge KekActive KekRetired ''supersede'']"

definition KEK_TRANSITIONS :: "KekLifecycleState TransitionMatrix" where
  "KEK_TRANSITIONS = projr (newTransitionMatrix kek_edges)"

definition isValidKekTransition :: "KekLifecycleState \<Rightarrow> KekLifecycleState \<Rightarrow> bool" where
  "isValidKekTransition from_s to_s = isValid KEK_TRANSITIONS from_s to_s"

definition tryKekTransition ::
  "KekLifecycleState \<Rightarrow> KekLifecycleState \<Rightarrow> KekLifecycleState TransitionResult" where
  "tryKekTransition from_s to_s = tryTransition KEK_TRANSITIONS from_s to_s"

interpretation signing_key_tm: transition_matrix signing_key_edges SIGNING_KEY_TRANSITIONS
  unfolding SIGNING_KEY_TRANSITIONS_def
  by unfold_locales (rule newTransitionMatrix_ok, simp add: signing_key_edges_def edge_def)

interpretation kek_tm: transition_matrix kek_edges KEK_TRANSITIONS
  unfolding KEK_TRANSITIONS_def
  by unfold_locales (rule newTransitionMatrix_ok, simp add: kek_edges_def edge_def)

section \<open>Which transitions are legal\<close>

lemmas lifecycle_edges =
  VALID_TRANSITIONS_def outbox_edges_def horizon_edges_def settlement_edges_def
  signing_key_edges_def kek_edges_def edge_def

lemma dispute_valid_iff:
  "isValidTransition a b \<longleftrightarrow>
     (a = DPending \<and> b \<noteq> DPending) \<or> (a = DUnderReview \<and> b \<in> {DResolved, DDismissed, DExpired})"
  by (cases a; cases b) (simp_all add: isValidTransition_def dispute_tm.isValid_iff lifecycle_edges)

lemma outbox_valid_iff:
  "isValidOutboxTransition a b \<longleftrightarrow>
     (a = OPending \<and> b = OProcessing) \<or> (a = OProcessing \<and> b \<in> {OPublished, OPending, ODeadLetter})"
  by (cases a; cases b) (simp_all add: isValidOutboxTransition_def outbox_tm.isValid_iff lifecycle_edges)

lemma settlement_valid_iff:
  "success (validateSettlementTransition a b) \<longleftrightarrow>
     (a = SPending \<and> b \<noteq> SPending) \<or> (a = SFailed \<and> b = SPending)"
  by (cases a; cases b)
    (simp_all add: validateSettlementTransition_def settlement_tm.try_success settlement_tm.isValid_iff
      lifecycle_edges)

lemma horizon_valid_iff:
  "isValid HORIZON_INGESTION_TRANSITIONS a b \<longleftrightarrow>
     (a = ''active'' \<and> (b = ''slashed'' \<or> b = ''withdrawn'')) \<or> (a = ''slashed'' \<and> b = ''withdrawn'')"
  by (auto simp: horizon_tm.isValid_iff lifecycle_edges)

section \<open>Properties\<close>

text \<open>In every lifecycle the documented final statuses are sinks: however many legal transitions
  follow, a resolved, dismissed or expired dispute, a published, failed or dead-lettered outbox event, a
  withdrawn bond, a settled settlement and a retired signing key keep their status.\<close>

theorem lifecycle_sinks:
  "(d \<in> {DResolved, DDismissed, DExpired} \<longrightarrow> isValidTransition\<^sup>*\<^sup>* d d' \<longrightarrow> d' = d) \<and>
   (isTerminalOutboxStatus ob \<longrightarrow> isValidOutboxTransition\<^sup>*\<^sup>* ob ob' \<longrightarrow> ob' = ob) \<and>
   ((isValid HORIZON_INGESTION_TRANSITIONS)\<^sup>*\<^sup>* ''withdrawn'' h \<longrightarrow> h = ''withdrawn'') \<and>
   ((\<lambda>a b. success (validateSettlementTransition a b))\<^sup>*\<^sup>* SSettled t \<longrightarrow> t = SSettled) \<and>
   (isValidSigningKeyTransition\<^sup>*\<^sup>* SKRetired k \<longrightarrow> k = SKRetired)"
proof (intro conjI impI)
  assume "d \<in> {DResolved, DDismissed, DExpired}" "isValidTransition\<^sup>*\<^sup>* d d'"
  then show "d' = d" by (intro sink_rtranclp [of isValidTransition]) (auto simp: dispute_valid_iff)
next
  assume "isTerminalOutboxStatus ob" "isValidOutboxTransition\<^sup>*\<^sup>* ob ob'"
  then show "ob' = ob"
    by (intro sink_rtranclp [of isValidOutboxTransition])
      (auto simp: outbox_valid_iff isTerminalOutboxStatus_def OUTBOX_TERMINAL_STATUSES_def)
next
  assume "(isValid HORIZON_INGESTION_TRANSITIONS)\<^sup>*\<^sup>* ''withdrawn'' h"
  then show "h = ''withdrawn''" by (rule horizon_tm.sink_absorbing [rotated]) (simp add: horizon_valid_iff)
next
  assume "(\<lambda>a b. success (validateSettlementTransition a b))\<^sup>*\<^sup>* SSettled t"
  then show "t = SSettled" by (rule converse_rtranclpE) (auto simp: settlement_valid_iff)
next
  assume "isValidSigningKeyTransition\<^sup>*\<^sup>* SKRetired k"
  then show "k = SKRetired"
    by (rule converse_rtranclpE)
      (auto simp: isValidSigningKeyTransition_def signing_key_tm.isValid_iff lifecycle_edges)
qed

theorem lifecycle_sinks_witness:
  "\<not> isValidTransition\<^sup>*\<^sup>* DExpired DPending \<and> \<not> isValidOutboxTransition\<^sup>*\<^sup>* OFailed OPending \<and>
   \<not> (isValid HORIZON_INGESTION_TRANSITIONS)\<^sup>*\<^sup>* ''withdrawn'' ''active'' \<and>
   \<not> (\<lambda>a b. success (validateSettlementTransition a b))\<^sup>*\<^sup>* SSettled SPending \<and>
   \<not> isValidSigningKeyTransition\<^sup>*\<^sup>* SKRetired SKActive"
  using lifecycle_sinks [of DExpired DPending OFailed OPending "''active''" SPending SKActive]
  by (simp add: isTerminalOutboxStatus_def OUTBOX_TERMINAL_STATUSES_def)

text \<open>The outbox lifecycle: the two declarations of the terminal predicate agree on every status, no
  status has a transition to itself, and both retry and dead-letter start only from processing.\<close>

theorem outbox_lifecycle:
  "isTerminalOutboxStatus s = isTerminalOutboxStatus_2 s \<and>
   (isTerminalOutboxStatus s = (\<forall>t. \<not> success (tryOutboxTransition s t))) \<and>
   \<not> canRecoverOutboxTransition s s \<and>
   (isValidOutboxTransition s OPending = (s = OProcessing)) \<and>
   (isValidOutboxTransition s ODeadLetter = (s = OProcessing))"
proof -
  have allowed: "getAllowedTargets OUTBOX_LIFECYCLE_TRANSITIONS s = [] \<longleftrightarrow>
      (\<forall>t. \<not> isValidOutboxTransition s t)"
    by (simp add: isValidOutboxTransition_def flip: outbox_tm.allowed_iff)
  have try_iff: "success (tryOutboxTransition s t) = isValidOutboxTransition s t" for t
    by (simp add: tryOutboxTransition_def outbox_tm.try_success isValidOutboxTransition_def)
  have "(\<forall>t. \<not> isValidOutboxTransition s t) = isTerminalOutboxStatus s"
    by (cases s) (auto simp: outbox_valid_iff isTerminalOutboxStatus_def OUTBOX_TERMINAL_STATUSES_def)
  then show ?thesis
    using outbox_valid_iff [of s]
    by (auto simp: isTerminalOutboxStatus_2_def allowed try_iff canRecoverOutboxTransition_def
        simp flip: isValidOutboxTransition_def)
qed

end
