(* ===== verification/NodeIngestion.thy ===== *)
theory NodeIngestion
  imports Lifecycles
begin

text \<open>
  Ingestion of Horizon events into node records: the in-memory repository of
  \<open>src/src/db/repository.ts\<close>, the stateful repository the integration-boundary tests put behind the listener
  (\<open>src/src/listeners/__tests__/horizonIngestionBoundary.test.ts\<close>) and \<open>HorizonListener\<close> of
  \<open>src/src/listeners/horizon.listeners.ts\<close>.
  The repository a listener is constructed with is a record of its three operations; every
  operation of the in-memory repository runs under its per-node lock and is one atomic step.  Events are handled
  one after the other, as the lease holder processes its stream.
  Statuses are strings, as both sides of the interface declare them.
\<close>

section \<open>The in-memory repository\<close>

record NodeRecord =
  nd_amount :: string
  nd_status :: string
  nd_updatedAt :: int

type_synonym node_store = "(string, NodeRecord) jsmap"

datatype ingest_error =
    UpsertNodeIdEmpty
  | UpsertAmountEmpty
  | UpdateNodeIdEmpty
  | UnknownStatus string
  | IllegalTransition string string string
  | GetNodeIdEmpty
  | MalformedEvent
  | WriteFailure
  | HorizonIngestionTransitionError ingestion_code string string "string option" string

definition ALLOWED :: "(string, string list) jsmap" where
  "ALLOWED =
    [(''pending'', [''confirmed'', ''failed'']),
     (''confirmed'', [''completed'', ''failed'']),
     (''completed'', []),
     (''failed'', [''pending''])]"

definition isValidStatus :: "string \<Rightarrow> bool" where
  "isValidStatus status =
     (status = ''pending'' \<or> status = ''confirmed'' \<or> status = ''completed'' \<or> status = ''failed'')"

definition upsertNode :: "int \<Rightarrow> string \<Rightarrow> string \<Rightarrow> (node_store, ingest_error, bool) exec" where
  "upsertNode now nodeId amount nodes =
     (if nodeId = '''' then (Inl UpsertNodeIdEmpty, nodes)
      else if length (trim amount) = 0 then (Inl UpsertAmountEmpty, nodes)
      else case map_get nodes nodeId of
        Some existing \<Rightarrow>
          if nd_amount existing = amount then (Inr False, nodes)
          else (Inr True, map_set nodeId (existing\<lparr>nd_amount := amount, nd_updatedAt := now\<rparr>) nodes)
      | None \<Rightarrow>
          (Inr True, map_set nodeId \<lparr>nd_amount = amount, nd_status = ''pending'', nd_updatedAt = now\<rparr> nodes))"

definition updateNodeStatus ::
  "int \<Rightarrow> string \<Rightarrow> string \<Rightarrow> string option \<Rightarrow> (node_store, ingest_error, bool) exec" where
  "updateNodeStatus now nodeId status amount nodes =
     (if nodeId = '''' then (Inl UpdateNodeIdEmpty, nodes)
      else if \<not> isValidStatus status then (Inl (UnknownStatus status), nodes)
      else case map_get nodes nodeId of
        None \<Rightarrow> (Inr False, nodes)
      | Some existing \<Rightarrow>
          if nd_status existing = status then (Inr False, nodes)
          else if \<not> (case map_get ALLOWED (nd_status existing) of
                       None \<Rightarrow> False | Some allowed \<Rightarrow> status \<in> set allowed)
          then (Inl (IllegalTransition (nd_status existing) status nodeId), nodes)
          else (Inr True, map_set nodeId
                 (existing\<lparr>nd_status := status,
                   nd_amount := (case amount of None \<Rightarrow> nd_amount existing | Some a \<Rightarrow> a),
                   nd_updatedAt := now\<rparr>) nodes))"

definition getNodeStatus :: "string \<Rightarrow> (node_store, ingest_error, string option) exec" where
  "getNodeStatus nodeId nodes =
     (if nodeId = '''' then (Inl GetNodeIdEmpty, nodes)
      else (Inr (map_option nd_status (map_get nodes nodeId)), nodes))"

definition node_snapshot :: "string \<Rightarrow> node_store \<Rightarrow> NodeRecord option" where
  "node_snapshot nodeId nodes = map_get nodes nodeId"

definition node_reset :: "node_store \<Rightarrow> node_store" where
  "node_reset nodes = []"

section \<open>The listener\<close>

record HorizonEvent =
  ev_type :: string
  ev_nodeId :: "string option"
  ev_amount :: "string option"
  ev_penalty :: "string option"
  ev_pagingToken :: "string option"

record 'db HorizonIngestionRepository =
  op_upsertNode :: "string \<Rightarrow> string \<Rightarrow> ('db, ingest_error, bool) exec"
  op_updateNodeStatus :: "string \<Rightarrow> string \<Rightarrow> string option \<Rightarrow> ('db, ingest_error, bool) exec"
  op_getNodeStatus :: "string \<Rightarrow> ('db, ingest_error, string option) exec"

definition dbRepository :: "int \<Rightarrow> node_store HorizonIngestionRepository" where
  "dbRepository now =
     \<lparr>op_upsertNode = upsertNode now, op_updateNodeStatus = updateNodeStatus now,
      op_getNodeStatus = getNodeStatus\<rparr>"

definition isAppliedTransition ::
  "'db HorizonIngestionRepository \<Rightarrow> string \<Rightarrow> string \<Rightarrow> string \<Rightarrow> ('db, ingest_error, bool) exec" where
  "isAppliedTransition repo nodeId requested eventType =
     xbind (op_getNodeStatus repo nodeId) (\<lambda>current.
       case resolveIngestionTransition current requested of
         Rejected code cur req \<Rightarrow>
           xthrow (HorizonIngestionTransitionError code nodeId eventType cur req)
       | Applied \<Rightarrow> xreturn True
       | Noop _ \<Rightarrow> xreturn False)"

definition handleEvent ::
  "'db HorizonIngestionRepository \<Rightarrow> HorizonEvent \<Rightarrow> ('db, ingest_error, unit) exec" where
  "handleEvent repo event =
     (if \<not> truthy (ev_nodeId event) \<or> ev_type event = '''' then xthrow MalformedEvent
      else let nodeId = the (ev_nodeId event) in
        if ev_type event = ''bond'' then
          if \<not> truthy (ev_amount event) then xthrow MalformedEvent
          else xbind (op_upsertNode repo nodeId (the (ev_amount event))) (\<lambda>_. xreturn ())
        else if ev_type event = ''slash'' then
          if \<not> truthy (ev_penalty event) then xthrow MalformedEvent
          else xbind (isAppliedTransition repo nodeId ''slashed'' (ev_type event)) (\<lambda>applied.
            if applied
            then xbind (op_updateNodeStatus repo nodeId ''slashed'' (ev_penalty event)) (\<lambda>_. xreturn ())
            else xreturn ())
        else if ev_type event = ''withdrawal'' then
          xbind (isAppliedTransition repo nodeId ''withdrawn'' (ev_type event)) (\<lambda>applied.
            if applied
            then xbind (op_updateNodeStatus repo nodeId ''withdrawn'' None) (\<lambda>_. xreturn ())
            else xreturn ())
        else xreturn ())"

text \<open>Feeding a sequence of events; a thrown error ends the event that raised it, not the feed.\<close>

definition feed :: "'db HorizonIngestionRepository \<Rightarrow> 'db \<Rightarrow> HorizonEvent \<Rightarrow> 'db" where
  "feed repo db event = snd (handleEvent repo event db)"

section \<open>The repository of the boundary tests\<close>

record InMemoryIngestionRepo =
  ir_statuses :: "(string, string) jsmap"
  ir_upserts :: "(string \<times> string) list"
  ir_updates :: "(string \<times> string \<times> string option) list"
  ir_failNextUpdate :: bool

definition ir_upsertNode :: "string \<Rightarrow> string \<Rightarrow> (InMemoryIngestionRepo, ingest_error, bool) exec" where
  "ir_upsertNode nodeId amount db =
     (Inr True, db\<lparr>ir_upserts := ir_upserts db @ [(nodeId, amount)], ir_statuses := map_set nodeId ''active'' (ir_statuses db)\<rparr>)"

definition ir_updateNodeStatus :: "string \<Rightarrow> string \<Rightarrow> string option \<Rightarrow> (InMemoryIngestionRepo, ingest_error, bool) exec" where
  "ir_updateNodeStatus nodeId status amount db =
     (if ir_failNextUpdate db then (Inl WriteFailure, db\<lparr>ir_failNextUpdate := False\<rparr>)
      else (Inr True, db\<lparr>ir_updates := ir_updates db @ [(nodeId, status, amount)],
                         ir_statuses := map_set nodeId status (ir_statuses db)\<rparr>))"

definition ir_getNodeStatus :: "string \<Rightarrow> (InMemoryIngestionRepo, ingest_error, string option) exec" where
  "ir_getNodeStatus nodeId db = (Inr (map_get (ir_statuses db) nodeId), db)"

definition boundaryRepository :: "InMemoryIngestionRepo HorizonIngestionRepository" where
  "boundaryRepository =
     \<lparr>op_upsertNode = ir_upsertNode, op_updateNodeStatus = ir_updateNodeStatus, op_getNodeStatus = ir_getNodeStatus\<rparr>"

section \<open>The interface the listener relies on\<close>

text \<open>
  A repository answers reads without writing; an upsert creates the named node in, or refreshes it into, the
  initial status, or leaves its status alone; an update can only give the named node the requested status.
  Both may fail without a change.
\<close>

definition bonds :: "HorizonEvent \<Rightarrow> string \<Rightarrow> bool" where
  "bonds e k \<longleftrightarrow> ev_type e = ''bond'' \<and> ev_nodeId e = Some k"

definition moves :: "HorizonEvent \<Rightarrow> string \<Rightarrow> string \<Rightarrow> bool" where
  "moves e k d \<longleftrightarrow> ev_nodeId e = Some k \<and>
     (ev_type e = ''slash'' \<and> d = ''slashed'' \<or> ev_type e = ''withdrawal'' \<and> d = ''withdrawn'')"

locale ingestion_repository =
  fixes repo :: "'db HorizonIngestionRepository"
    and status :: "'db \<Rightarrow> string \<Rightarrow> string option"
    and initial :: string
  assumes read: "n \<noteq> '''' \<Longrightarrow> op_getNodeStatus repo n db = (Inr (status db n), db)"
    and upsert: "status (snd (op_upsertNode repo n a db)) k = status db k \<or>
      (k = n \<and> status (snd (op_upsertNode repo n a db)) k = Some initial)"
    and update: "status (snd (op_updateNodeStatus repo n st am db)) k = status db k \<or>
      (k = n \<and> status (snd (op_updateNodeStatus repo n st am db)) k = Some st)"
begin

lemma applied_cases:
  assumes "n \<noteq> ''''"
  shows "snd (isAppliedTransition repo n req ty db) = db"
    and "fst (isAppliedTransition repo n req ty db) = Inr True \<longleftrightarrow>
      (\<exists>c. status db n = Some c \<and> c \<noteq> req \<and> isValid HORIZON_INGESTION_TRANSITIONS c req)"
  using read [OF assms, of db]
  by (auto simp: isAppliedTransition_def resolveIngestionTransition_def split: option.splits)

lemma guarded_update:
  fixes req ty am
  assumes "n \<noteq> ''''"
  defines "prog \<equiv> xbind (isAppliedTransition repo n req ty) (\<lambda>applied.
      if applied then xbind (op_updateNodeStatus repo n req am) (\<lambda>_. xreturn ()) else xreturn ())"
  shows "status (snd (prog db)) k = status db k \<or>
    (k = n \<and> (\<exists>c. status db k = Some c \<and> isValid HORIZON_INGESTION_TRANSITIONS c req \<and>
       status (snd (prog db)) k = Some req))"
proof (cases "fst (isAppliedTransition repo n req ty db) = Inr True")
  case True
  then have r: "isAppliedTransition repo n req ty db = (Inr True, db)"
    using applied_cases(1) [OF assms(1)] by (metis prod.collapse)
  have "snd (prog db) = snd (op_updateNodeStatus repo n req am db)"
    unfolding prog_def by (simp add: r) (auto simp: xbind_def split: sum.splits prod.splits)
  with True applied_cases(2) [OF assms(1)] show ?thesis using update [of n req am db k] by auto
next
  case False
  then have "snd (prog db) = db"
    using applied_cases(1) [OF assms(1), of req ty db]
    by (auto simp: prog_def xbind_def split: sum.splits prod.splits)
  then show ?thesis by simp
qed

lemma feed_step:
  "status (feed repo db e) k = status db k \<or>
   (bonds e k \<and> status (feed repo db e) k = Some initial) \<or>
   (\<exists>c d. moves e k d \<and> status db k = Some c \<and> status (feed repo db e) k = Some d \<and>
      isValid HORIZON_INGESTION_TRANSITIONS c d)"
proof (cases "truthy (ev_nodeId e)")
  case True
  then obtain n where n: "ev_nodeId e = Some n" "n \<noteq> ''''"
    by (auto simp: truthy_def split: option.splits)
  have up: "snd (xbind (op_upsertNode repo n a) (\<lambda>_. xreturn ()) db) = snd (op_upsertNode repo n a db)" for a
    by (auto simp: xbind_def split: sum.splits prod.splits)
  show ?thesis
    using n True upsert [of n "the (ev_amount e)" db k]
      guarded_update [OF n(2), where req = "''slashed''" and ty = "ev_type e" and am = "ev_penalty e" and db = db and k = k]
      guarded_update [OF n(2), where req = "''withdrawn''" and ty = "ev_type e" and am = None and db = db and k = k]
    by (auto simp: feed_def handleEvent_def Let_def up bonds_def moves_def)
qed (simp add: feed_def handleEvent_def)

lemma feed_path:
  assumes "list_all (\<lambda>e. \<not> bonds e k) es"
  shows "case status db k of
      None \<Rightarrow> status (foldl (feed repo) db es) k = None
    | Some c \<Rightarrow> \<exists>d. status (foldl (feed repo) db es) k = Some d \<and> (isValid HORIZON_INGESTION_TRANSITIONS)\<^sup>*\<^sup>* c d"
  using assms
proof (induction es arbitrary: db)
  case (Cons e es)
  from feed_step [of db e k] Cons.prems
  consider "status (feed repo db e) k = status db k"
    | c d where "status db k = Some c" "status (feed repo db e) k = Some d" "isValid HORIZON_INGESTION_TRANSITIONS c d"
    by auto
  then show ?case
    using Cons.IH [of "feed repo db e"] Cons.prems
    by cases (auto intro: converse_rtranclp_into_rtranclp split: option.splits)
qed (simp split: option.splits)

end

definition node_status :: "node_store \<Rightarrow> string \<Rightarrow> string option" where
  "node_status nodes n = map_option nd_status (map_get nodes n)"

interpretation default_repo: ingestion_repository "dbRepository now" node_status "''pending''"
proof
  show "n \<noteq> '''' \<Longrightarrow> op_getNodeStatus (dbRepository now) n db = (Inr (node_status db n), db)" for n db
    by (simp add: dbRepository_def getNodeStatus_def node_status_def)
  show "node_status (snd (op_upsertNode (dbRepository now) n a db)) k = node_status db k \<or>
      (k = n \<and> node_status (snd (op_upsertNode (dbRepository now) n a db)) k = Some ''pending'')" for n a db k
    by (auto simp: dbRepository_def upsertNode_def node_status_def store_simps split: option.splits)
  show "node_status (snd (op_updateNodeStatus (dbRepository now) n st am db)) k = node_status db k \<or>
      (k = n \<and> node_status (snd (op_updateNodeStatus (dbRepository now) n st am db)) k = Some st)" for n st am db k
    by (auto simp: dbRepository_def updateNodeStatus_def node_status_def store_simps split: option.splits)
qed

definition boundary_status :: "InMemoryIngestionRepo \<Rightarrow> string \<Rightarrow> string option" where
  "boundary_status db n = map_get (ir_statuses db) n"

interpretation boundary_repo: ingestion_repository boundaryRepository boundary_status "''active''"
  by unfold_locales (auto simp: boundaryRepository_def boundary_status_def ir_getNodeStatus_def ir_upsertNode_def
      ir_updateNodeStatus_def store_simps)

section \<open>Properties\<close>

definition default_feed :: "node_store \<Rightarrow> int \<times> HorizonEvent \<Rightarrow> node_store" where
  "default_feed nodes te = feed (dbRepository (fst te)) nodes (snd te)"

lemma default_all_pending:
  assumes "\<And>k. node_status nodes k \<in> {None, Some ''pending''}"
  shows "node_status (foldl default_feed nodes es) k \<in> {None, Some ''pending''}"
  using assms
proof (induction es arbitrary: nodes)
  case (Cons te es)
  have "node_status (default_feed nodes te) k \<in> {None, Some ''pending''}" for k
    using default_repo.feed_step [of "fst te" nodes "snd te" k] Cons.prems [of k]
    by (auto simp: default_feed_def horizon_valid_iff)
  with Cons.IH show ?case by simp
qed auto


definition sample_slash :: HorizonEvent where
  "sample_slash = \<lparr>ev_type = ''slash'', ev_nodeId = Some ''n1'', ev_amount = None,
     ev_penalty = Some ''5'', ev_pagingToken = None\<rparr>"

definition sample_nodes :: "string \<Rightarrow> InMemoryIngestionRepo" where
  "sample_nodes st = \<lparr>ir_statuses = [(''n1'', st)], ir_upserts = [], ir_updates = [], ir_failNextUpdate = False\<rparr>"


text \<open>A redelivered bond event is not a no-op behind the documented repository (create-or-refresh into \<open>active\<close>): it
  moves a slashed or withdrawn node back to active, although withdrawn is documented as terminal.\<close>

theorem bond_redelivery_reactivates:
  assumes "bonds e n" and "n \<noteq> ''''" and "truthy (ev_amount e)"
  shows "handleEvent boundaryRepository e db = (Inr (), snd (ir_upsertNode n (the (ev_amount e)) db)) \<and>
    boundary_status (feed boundaryRepository db e) n = Some ''active''"
  using assms by (simp add: feed_def handleEvent_def bonds_def truthy_def boundaryRepository_def ir_upsertNode_def boundary_status_def store_simps)

text \<open>With the default in-memory repository every node stays pending, whatever events arrive and
  whenever: a well-formed slash or withdrawal of a recorded node is always rejected as an invalid
  transition and changes nothing, since the repository creates nodes in a status the ingestion
  lifecycle does not know.\<close>

theorem default_repository_rejects:
  assumes "nodes = foldl default_feed [] es" and "map_has nodes n" and "n \<noteq> ''''"
    and "ev_nodeId e = Some n"
    and "(ev_type e = ''slash'' \<and> truthy (ev_penalty e) \<and> req = ''slashed'') \<or>
         (ev_type e = ''withdrawal'' \<and> req = ''withdrawn'')"
  shows "handleEvent (dbRepository now) e nodes =
    (Inl (HorizonIngestionTransitionError INVALID_STATE_TRANSITION n (ev_type e) (Some ''pending'') req), nodes)"
proof -
  have "node_status nodes n = Some ''pending''"
    using default_all_pending [of "[]" es n] assms(1,2) by (auto simp: node_status_def map_has_def)
  then have "op_getNodeStatus (dbRepository now) n nodes = (Inr (Some ''pending''), nodes)"
    using default_repo.read [OF assms(3)] by simp
  then have "isAppliedTransition (dbRepository now) n req (ev_type e) nodes =
      (Inl (HorizonIngestionTransitionError INVALID_STATE_TRANSITION n (ev_type e) (Some ''pending'') req), nodes)"
    using assms(5) by (auto simp: isAppliedTransition_def resolveIngestionTransition_def horizon_valid_iff)
  then show ?thesis
    using assms(3-5) by (auto simp: handleEvent_def truthy_def Let_def)
qed

definition sample_bond :: HorizonEvent where
  "sample_bond = \<lparr>ev_type = ''bond'', ev_nodeId = Some ''n1'', ev_amount = Some ''10'',
     ev_penalty = None, ev_pagingToken = None\<rparr>"

definition sample_withdrawal :: HorizonEvent where
  "sample_withdrawal = \<lparr>ev_type = ''withdrawal'', ev_nodeId = Some ''n1'', ev_amount = None,
     ev_penalty = None, ev_pagingToken = None\<rparr>"

lemma sample_bond_node:
  "foldl default_feed [] [(0, sample_bond)] =
     [(''n1'', \<lparr>nd_amount = ''10'', nd_status = ''pending'', nd_updatedAt = 0\<rparr>)]"
  by code_simp

theorem default_repository_rejects_witness:
  "fst (handleEvent (dbRepository 7) sample_withdrawal
      [(''n1'', \<lparr>nd_amount = ''10'', nd_status = ''pending'', nd_updatedAt = 0\<rparr>)]) =
   Inl (HorizonIngestionTransitionError INVALID_STATE_TRANSITION ''n1'' ''withdrawal'' (Some ''pending'')
     ''withdrawn'')"
  using default_repository_rejects [OF sample_bond_node [symmetric], of "''n1''" sample_withdrawal]
  by (simp add: sample_withdrawal_def map_has_def)

end
