(* ===== verification/ListenerLease.thy ===== *)
theory ListenerLease
  imports NodeIngestion
begin

text \<open>
  Lease and fencing of the Horizon listeners (\<open>LeaseManager\<close> and \<open>LeasedHorizonListener\<close> of
  \<open>src/src/listeners/horizon.listeners.ts\<close>).  The table \<open>listener_leases\<close> is a map from the stream
  name, its primary key, to the row; every SQL statement is one atomic step on it.  Times are
  milliseconds.  Several managers, one per process, share the table; their calls interleave in
  any order.
\<close>

section \<open>Rows and managers\<close>

record LeaseRow =
  streamName_of :: string
  ownerId_of :: string
  pagingToken :: string
  leaseExpiresAt :: int
  heartbeatAt :: int
  fencingToken :: int

type_synonym lease_table = "(string, LeaseRow) jsmap"

datatype lease_reason = HeldByOther | DbError

record LeaseAcquireResult =
  acquired :: bool
  lease :: "LeaseRow option"
  reason :: "lease_reason option"

record LeaseManager =
  streamName :: string
  ownerId :: string
  ttlMs :: int
  heartbeatMs :: int
  currentFencingToken :: int

datatype lease_error = HeartbeatTooSlow int int | InvalidPagingToken string

definition newLeaseManager ::
  "string \<Rightarrow> string \<Rightarrow> int option \<Rightarrow> int option \<Rightarrow> (lease_error, LeaseManager) result" where
  "newLeaseManager stream owner ttl_opt heartbeat_opt =
     (let ttl = (case ttl_opt of None \<Rightarrow> 15000 | Some t \<Rightarrow> t);
          hb = (case heartbeat_opt of None \<Rightarrow> 5000 | Some h \<Rightarrow> h)
      in if hb * 2 > ttl then Inl (HeartbeatTooSlow hb ttl)
         else Inr \<lparr>streamName = stream, ownerId = owner, ttlMs = ttl, heartbeatMs = hb,
                   currentFencingToken = 0\<rparr>)"

definition peek :: "LeaseManager \<Rightarrow> lease_table \<Rightarrow> LeaseRow option" where
  "peek lm tbl = map_get tbl (streamName lm)"

text \<open>The upsert of \<open>acquire\<close>: the returned row, when the conflict clause let the write through.\<close>

definition upsert_lease ::
  "LeaseManager \<Rightarrow> int \<Rightarrow> int \<Rightarrow> lease_table \<Rightarrow> LeaseRow option \<times> lease_table" where
  "upsert_lease lm expires now tbl =
     (case map_get tbl (streamName lm) of
        None \<Rightarrow>
          let row = \<lparr>streamName_of = streamName lm, ownerId_of = ownerId lm, pagingToken = ''0'',
                     leaseExpiresAt = expires, heartbeatAt = now, fencingToken = 1\<rparr>
          in (Some row, map_set (streamName lm) row tbl)
      | Some old \<Rightarrow>
          if ownerId_of old = ownerId lm \<or> leaseExpiresAt old \<le> now then
            let row = old\<lparr>ownerId_of := ownerId lm, leaseExpiresAt := expires, heartbeatAt := now,
                          fencingToken := fencingToken old + 1\<rparr>
            in (Some row, map_set (streamName lm) row tbl)
          else (None, tbl))"

text \<open>\<open>db_up\<close> tells whether the database answers; when it does not, the statement throws and \<open>acquire\<close> catches.\<close>

definition acquire ::
  "bool \<Rightarrow> int \<Rightarrow> LeaseManager \<Rightarrow> lease_table \<Rightarrow> LeaseAcquireResult \<times> LeaseManager \<times> lease_table" where
  "acquire db_up now lm tbl =
     (if \<not> db_up then (\<lparr>acquired = False, lease = None, reason = Some DbError\<rparr>, lm, tbl)
      else case upsert_lease lm (now + ttlMs lm) now tbl of
        (Some row, tbl') \<Rightarrow>
          if ownerId_of row = ownerId lm
          then (\<lparr>acquired = True, lease = Some row, reason = None\<rparr>,
                lm\<lparr>currentFencingToken := fencingToken row\<rparr>, tbl')
          else (\<lparr>acquired = False, lease = peek lm tbl', reason = Some HeldByOther\<rparr>, lm, tbl')
      | (None, tbl') \<Rightarrow>
          (\<lparr>acquired = False, lease = peek lm tbl', reason = Some HeldByOther\<rparr>, lm, tbl'))"

definition heartbeat :: "int \<Rightarrow> LeaseManager \<Rightarrow> lease_table \<Rightarrow> bool \<times> lease_table" where
  "heartbeat now lm tbl =
     (case map_get tbl (streamName lm) of
        None \<Rightarrow> (False, tbl)
      | Some row \<Rightarrow>
          if ownerId_of row = ownerId lm \<and> fencingToken row = currentFencingToken lm
          then (True, map_set (streamName lm)
                 (row\<lparr>leaseExpiresAt := now + ttlMs lm, heartbeatAt := now\<rparr>) tbl)
          else (False, tbl))"

definition release :: "LeaseManager \<Rightarrow> lease_table \<Rightarrow> lease_table" where
  "release lm tbl =
     (case map_get tbl (streamName lm) of
        None \<Rightarrow> tbl
      | Some row \<Rightarrow>
          if ownerId_of row = ownerId lm
          then map_set (streamName lm) (row\<lparr>leaseExpiresAt := heartbeatAt row\<rparr>) tbl
          else tbl)"

definition valid_paging_token :: "string \<Rightarrow> bool" where
  "valid_paging_token t = ((t \<noteq> '''' \<and> list_all is_digit t) \<or> t = ''now'')"

definition updateCursor :: "string \<Rightarrow> LeaseManager \<Rightarrow> (lease_table, lease_error, bool) exec" where
  "updateCursor token lm tbl =
     (if \<not> valid_paging_token token then (Inl (InvalidPagingToken token), tbl)
      else case map_get tbl (streamName lm) of
        None \<Rightarrow> (Inr False, tbl)
      | Some row \<Rightarrow>
          if ownerId_of row = ownerId lm \<and> fencingToken row = currentFencingToken lm
          then (Inr True, map_set (streamName lm) (row\<lparr>pagingToken := token\<rparr>) tbl)
          else (Inr False, tbl))"

definition getLagSeconds :: "int \<Rightarrow> LeaseManager \<Rightarrow> lease_table \<Rightarrow> int option" where
  "getLagSeconds now lm tbl =
     (case peek lm tbl of None \<Rightarrow> None | Some row \<Rightarrow> Some (max 0 ((now - heartbeatAt row) div 1000)))"

section \<open>The lease-aware listener\<close>

datatype process_result = Processed | Skipped

datatype process_error = IngestFailed ingest_error | CursorFailed lease_error

text \<open>\<open>between\<close> is what other processes do to the table while the event is being applied.\<close>

definition process ::
  "'db HorizonIngestionRepository \<Rightarrow> (lease_table \<Rightarrow> lease_table) \<Rightarrow> int \<Rightarrow> LeaseManager \<Rightarrow> HorizonEvent \<Rightarrow>
   (lease_table \<times> 'db, process_error, process_result) exec" where
  "process repo between now lm event s =
     (case s of (tbl, db) \<Rightarrow>
        case heartbeat now lm tbl of
          (False, tbl1) \<Rightarrow> (Inr Skipped, (tbl1, db))
        | (True, tbl1) \<Rightarrow>
            case handleEvent repo event db of
              (Inl e, db1) \<Rightarrow> (Inl (IngestFailed e), (between tbl1, db1))
            | (Inr _, db1) \<Rightarrow>
                if truthy (ev_pagingToken event) then
                  case updateCursor (the (ev_pagingToken event)) lm (between tbl1) of
                    (Inl e, tbl2) \<Rightarrow> (Inl (CursorFailed e), (tbl2, db1))
                  | (Inr False, tbl2) \<Rightarrow> (Inr Skipped, (tbl2, db1))
                  | (Inr True, tbl2) \<Rightarrow> (Inr Processed, (tbl2, db1))
                else (Inr Processed, (between tbl1, db1)))"

section \<open>Interleaved processes\<close>

record lease_world =
  w_table :: lease_table
  w_managers :: "nat \<Rightarrow> LeaseManager"

datatype lease_call =
    CallAcquire nat bool int
  | CallHeartbeat nat int
  | CallRelease nat
  | CallUpdateCursor nat string

fun lease_step :: "lease_world \<Rightarrow> lease_call \<Rightarrow> lease_world" where
  "lease_step w (CallAcquire i db_up now) =
     (case acquire db_up now (w_managers w i) (w_table w) of
        (_, lm, tbl) \<Rightarrow> \<lparr>w_table = tbl, w_managers = (w_managers w)(i := lm)\<rparr>)"
| "lease_step w (CallHeartbeat i now) =
     w\<lparr>w_table := snd (heartbeat now (w_managers w i) (w_table w))\<rparr>"
| "lease_step w (CallRelease i) = w\<lparr>w_table := release (w_managers w i) (w_table w)\<rparr>"
| "lease_step w (CallUpdateCursor i token) =
     w\<lparr>w_table := snd (updateCursor token (w_managers w i) (w_table w))\<rparr>"

definition row_token :: "lease_table \<Rightarrow> string \<Rightarrow> int" where
  "row_token tbl st = (case map_get tbl st of None \<Rightarrow> 0 | Some row \<Rightarrow> fencingToken row)"

text \<open>Every token in use was handed out by the row, and no token was handed out twice.\<close>

definition fenced :: "lease_world \<Rightarrow> bool" where
  "fenced w =
     ((\<forall>st. map_has (w_table w) st \<longrightarrow> 1 \<le> row_token (w_table w) st) \<and>
      (\<forall>i. 0 \<le> currentFencingToken (w_managers w i) \<and>
           currentFencingToken (w_managers w i) \<le> row_token (w_table w) (streamName (w_managers w i))) \<and>
      (\<forall>i j. i \<noteq> j \<longrightarrow> streamName (w_managers w i) = streamName (w_managers w j) \<longrightarrow>
           currentFencingToken (w_managers w i) \<noteq> 0 \<longrightarrow>
           currentFencingToken (w_managers w i) \<noteq> currentFencingToken (w_managers w j)))"

definition token_le :: "lease_world \<Rightarrow> lease_world \<Rightarrow> bool" where
  "token_le w w' = (\<forall>st. row_token (w_table w) st \<le> row_token (w_table w') st)"

lemma row_token_absent: "\<not> map_has tbl st \<Longrightarrow> row_token tbl st = 0"
  by (simp add: row_token_def map_has_def)

lemma fenced_nonneg: "fenced w \<Longrightarrow> 0 \<le> row_token (w_table w) st"
  using row_token_absent [of "w_table w" st]
  by (cases "map_has (w_table w) st") (auto simp: fenced_def dest!: spec [of _ st])

lemma row_token_acquire:
  "acquire db_up now lm tbl = (r, lm', tbl') \<Longrightarrow>
   (if acquired r then row_token tbl' (streamName lm) = row_token tbl (streamName lm) + 1 \<and>
        currentFencingToken lm' = row_token tbl' (streamName lm) \<and>
        map_has tbl' (streamName lm)
      else tbl' = tbl \<and> lm' = lm) \<and>
   (\<forall>st. st \<noteq> streamName lm \<longrightarrow> row_token tbl' st = row_token tbl st \<and> map_has tbl' st = map_has tbl st) \<and>
   streamName lm' = streamName lm"
  by (auto simp: acquire_def upsert_lease_def row_token_def map_has_def Let_def store_simps
      split: option.splits if_splits prod.splits)

lemma row_token_quiet [simp]:
  "row_token (snd (heartbeat now lm tbl)) st = row_token tbl st"
  "row_token (release lm tbl) st = row_token tbl st"
  "row_token (snd (updateCursor token lm tbl)) st = row_token tbl st"
  "map_has (snd (heartbeat now lm tbl)) st = map_has tbl st"
  "map_has (release lm tbl) st = map_has tbl st"
  "map_has (snd (updateCursor token lm tbl)) st = map_has tbl st"
  by (auto simp: heartbeat_def release_def updateCursor_def row_token_def map_has_def store_simps
      split: option.splits)

lemma fenced_acquire:
  assumes "fenced w"
  shows "fenced (lease_step w (CallAcquire i db_up now)) \<and>
    token_le w (lease_step w (CallAcquire i db_up now))"
proof -
  obtain r lm tbl where a: "acquire db_up now (w_managers w i) (w_table w) = (r, lm, tbl)"
    by (metis prod_cases3)
  note f = assms [unfolded fenced_def] row_token_acquire [OF a]
  have w': "lease_step w (CallAcquire i db_up now) = \<lparr>w_table = tbl, w_managers = (w_managers w)(i := lm)\<rparr>"
    by (simp add: a)
  have tok: "row_token (w_table w) st \<le> row_token tbl st" for st
    using f(2) by (cases "st = streamName (w_managers w i)") (auto split: if_splits)
  show ?thesis
  proof (cases "acquired r")
    case True
    have low: "currentFencingToken (w_managers w j) < currentFencingToken lm"
      if "j \<noteq> i" "streamName (w_managers w j) = streamName lm" for j
      using f that True by (metis add.commute zle_add1_eq_le)
    have le: "currentFencingToken (w_managers w j) \<le> row_token tbl (streamName (w_managers w j))" for j
      using f(1) tok order_trans by blast
    have eq: "currentFencingToken lm = row_token tbl (streamName lm)" using f(2) True by simp
    have pos: "1 \<le> row_token tbl st" if "map_has tbl st" for st
      using f(1) f(2) that True fenced_nonneg [OF assms, of st] by (cases "st = streamName lm") auto
    have nonneg: "0 \<le> currentFencingToken lm"
      using eq tok [of "streamName lm"] fenced_nonneg [OF assms, of "streamName lm"] by simp
    have "fenced \<lparr>w_table = tbl, w_managers = (w_managers w)(i := lm)\<rparr>"
      unfolding fenced_def
    proof (intro conjI allI impI, goal_cases)
      case (4 j k)
      then show ?case using low [of j] low [of k] f(1) by (auto split: if_splits)
    qed (use pos le f(1) eq nonneg in \<open>auto\<close>)
    then show ?thesis unfolding w' token_le_def using tok by simp
  next
    case False
    then have "\<lparr>w_table = tbl, w_managers = (w_managers w)(i := lm)\<rparr> = w" using f(2) by simp
    with assms show ?thesis unfolding w' by (simp add: token_le_def)
  qed
qed

lemma fenced_step: "fenced w \<Longrightarrow> fenced (lease_step w c) \<and> token_le w (lease_step w c)"
proof (cases c)
  case (CallAcquire i db_up now)
  then show "fenced w \<Longrightarrow> ?thesis" using fenced_acquire by simp
qed (simp_all add: fenced_def token_le_def)

interpretation lease_sys: ordered_step_system lease_step fenced token_le
proof
  show "token_le s t \<Longrightarrow> token_le t u \<Longrightarrow> token_le s u" for s t u
    unfolding token_le_def by (meson order_trans)
qed (simp_all add: fenced_step, simp add: token_le_def)

section \<open>Who may write\<close>

definition may_write :: "lease_world \<Rightarrow> nat \<Rightarrow> bool" where
  "may_write w i = (\<exists>row. map_get (w_table w) (streamName (w_managers w i)) = Some row \<and>
     ownerId_of row = ownerId (w_managers w i) \<and>
     fencingToken row = currentFencingToken (w_managers w i))"

lemma write_iff:
  "fst (heartbeat now (w_managers w i) (w_table w)) = may_write w i"
  "fst (updateCursor token (w_managers w i) (w_table w)) = Inr True \<longleftrightarrow> valid_paging_token token \<and> may_write w i"
  "valid_paging_token token \<Longrightarrow> \<not> may_write w i \<Longrightarrow>
     updateCursor token (w_managers w i) (w_table w) = (Inr False, w_table w)"
  by (auto simp: heartbeat_def updateCursor_def may_write_def split: option.splits)

lemma may_write_token:
  "may_write w i \<Longrightarrow> currentFencingToken (w_managers w i) = row_token (w_table w) (streamName (w_managers w i)) \<and>
     map_has (w_table w) (streamName (w_managers w i))"
  by (auto simp: may_write_def row_token_def map_has_def)

lemma fenced_unique:
  assumes "fenced w" "may_write w i" "may_write w j" "streamName (w_managers w i) = streamName (w_managers w j)"
  shows "i = j"
proof (rule ccontr)
  assume "i \<noteq> j"
  moreover have "currentFencingToken (w_managers w i) = currentFencingToken (w_managers w j)"
    using may_write_token assms by metis
  moreover have "currentFencingToken (w_managers w i) \<noteq> 0"
    using may_write_token [OF assms(2)] assms(1) by (force simp: fenced_def)
  ultimately show False using assms(1,4) unfolding fenced_def by blast
qed

fun acquires :: "nat \<Rightarrow> lease_call \<Rightarrow> bool" where
  "acquires i (CallAcquire j _ _) = (i = j)"
| "acquires i _ = False"

lemma manager_unchanged:
  "list_all (\<lambda>c. \<not> acquires i c) cs \<Longrightarrow> w_managers (foldl lease_step w cs) i = w_managers w i"
proof (induction cs arbitrary: w)
  case (Cons c cs)
  moreover have "\<not> acquires i c \<Longrightarrow> w_managers (lease_step w c) i = w_managers w i" for w
    by (cases c) (auto split: prod.splits)
  ultimately show ?case by simp
qed simp

section \<open>Properties\<close>

definition fresh_world :: "(nat \<Rightarrow> string \<times> string \<times> int) \<Rightarrow> lease_world" where
  "fresh_world cfg = \<lparr>w_table = [], w_managers = (\<lambda>i. case cfg i of (stream, owner, ttl) \<Rightarrow>
     \<lparr>streamName = stream, ownerId = owner, ttlMs = ttl, heartbeatMs = 0, currentFencingToken = 0\<rparr>)\<rparr>"

lemma fenced_fresh: "fenced (fresh_world cfg)"
  by (simp add: fenced_def fresh_world_def row_token_def map_has_def split: prod.splits)

text \<open>Claim C1. Split-brain protection: starting from an empty lease table, after any interleaving of acquire,
  heartbeat, release and cursor calls of any number of processes, at most one process per stream
  can extend the lease or move the cursor, even when two processes share an owner id.\<close>

theorem lease_single_writer:
  assumes "w = foldl lease_step (fresh_world cfg) calls"
    and "streamName (w_managers w i) = streamName (w_managers w j)"
    and "fst (updateCursor tok (w_managers w i) (w_table w)) = Inr True \<or>
         fst (heartbeat now (w_managers w i) (w_table w))"
    and "fst (updateCursor tok' (w_managers w j) (w_table w)) = Inr True \<or>
         fst (heartbeat now' (w_managers w j) (w_table w))"
  shows "i = j"
  using fenced_unique [OF lease_sys.run_inv [OF fenced_fresh], of cfg calls i j] assms by (auto simp: write_iff)

definition two_processes :: "nat \<Rightarrow> string \<times> string \<times> int" where
  "two_processes i = (if i = 0 then (''bonds'', ''a:1'', 15000) else (''bonds'', ''b:2'', 15000))"

theorem lease_single_writer_witness:
  "(let w = foldl lease_step (fresh_world two_processes) [CallAcquire 0 True 0, CallAcquire 1 True 20000]
    in fst (updateCursor ''7'' (w_managers w 1) (w_table w)) = Inr True \<and>
       fst (updateCursor ''7'' (w_managers w 0) (w_table w)) \<noteq> Inr True)"
proof -
  let ?w = "foldl lease_step (fresh_world two_processes) [CallAcquire 0 True 0, CallAcquire 1 True 20000]"
  have "fst (updateCursor ''7'' (w_managers ?w 1) (w_table ?w)) = Inr True"
    "streamName (w_managers ?w 0) = streamName (w_managers ?w 1)"
    by code_simp+
  then show ?thesis
    using lease_single_writer [OF refl, of two_processes "[CallAcquire 0 True 0, CallAcquire 1 True 20000]" 0 1 "''7''" 0 "''7''" 0]
    unfolding Let_def by auto
qed

text \<open>Claim C2. A process that lost its lease stays fenced: once another process has acquired the stream, every
  cursor write the old process attempts is refused and leaves the table as it is, until the old
  process acquires again, whatever all processes do in between.\<close>

theorem evicted_owner_fenced:
  assumes "w = foldl lease_step (fresh_world cfg) calls"
    and "acquired (fst (acquire db_up now (w_managers w j) (w_table w)))"
    and "i \<noteq> j" "streamName (w_managers w i) = streamName (w_managers w j)"
    and "list_all (\<lambda>c. \<not> acquires i c) later"
    and "w' = foldl lease_step (lease_step w (CallAcquire j db_up now)) later"
    and "valid_paging_token tok"
  shows "updateCursor tok (w_managers w' i) (w_table w') = (Inr False, w_table w') \<and>
         \<not> fst (heartbeat now' (w_managers w' i) (w_table w'))"
proof -
  let ?w1 = "lease_step w (CallAcquire j db_up now)"
  have f: "fenced w" and f1: "fenced ?w1"
    using lease_sys.run_inv [OF fenced_fresh] lease_sys.step_inv assms(1) by blast+
  obtain r lm tbl where a: "acquire db_up now (w_managers w j) (w_table w) = (r, lm, tbl)"
    by (metis prod_cases3)
  have up: "row_token (w_table ?w1) (streamName (w_managers w j)) = row_token (w_table w) (streamName (w_managers w j)) + 1"
    and same: "w_managers ?w1 i = w_managers w i"
    using row_token_acquire [OF a] assms(2,3) by (auto simp: a)
  have "row_token (w_table ?w1) st \<le> row_token (w_table w') st" for st
    using lease_sys.run_le [OF f1] unfolding assms(6) token_le_def by blast
  moreover have "w_managers w' i = w_managers w i" using manager_unchanged [OF assms(5)] assms(6) same by simp
  moreover have "currentFencingToken (w_managers w i) \<le> row_token (w_table w) (streamName (w_managers w i))"
    using f by (simp add: fenced_def)
  ultimately have "\<not> may_write w' i"
    using up assms(4) may_write_token [of w' i] by (metis add_le_same_cancel1 not_one_le_zero order_trans)
  then show ?thesis using write_iff(1,3) assms(7) by blast
qed

theorem evicted_owner_fenced_witness:
  "(let w' = foldl lease_step (fresh_world two_processes)
        [CallAcquire 0 True 0, CallAcquire 1 True 20000, CallRelease 1, CallHeartbeat 0 21000]
    in updateCursor ''9'' (w_managers w' 0) (w_table w') = (Inr False, w_table w'))"
proof -
  have "acquired (fst (acquire True 20000
      (w_managers (foldl lease_step (fresh_world two_processes) [CallAcquire 0 True 0]) 1)
      (w_table (foldl lease_step (fresh_world two_processes) [CallAcquire 0 True 0]))))"
    "streamName (w_managers (foldl lease_step (fresh_world two_processes) [CallAcquire 0 True 0]) 0) =
     streamName (w_managers (foldl lease_step (fresh_world two_processes) [CallAcquire 0 True 0]) 1)"
    "valid_paging_token ''9''"
    by code_simp+
  from evicted_owner_fenced [OF refl this(1) _ this(2) _ refl this(3), of "[CallRelease 1, CallHeartbeat 0 21000]"]
  show ?thesis by simp
qed

text \<open>A lease changes hands only when it may: after a heartbeat at time \<open>t\<close> another owner's acquire
  succeeds exactly when the granted lifetime has run out; it then keeps the recorded cursor and
  moves to a larger fencing token.\<close>

theorem lease_handover:
  assumes "heartbeat t lm tbl = (True, tbl1)" and "ownerId lm' \<noteq> ownerId lm" and "streamName lm' = streamName lm"
    and "acquire True now lm' tbl1 = (r, lm'', tbl2)"
  shows "(acquired r \<longleftrightarrow> t + ttlMs lm \<le> now) \<and>
    (acquired r \<longrightarrow> (\<exists>row row'. peek lm tbl = Some row \<and> peek lm tbl2 = Some row' \<and>
       ownerId_of row' = ownerId lm' \<and> pagingToken row' = pagingToken row \<and>
       leaseExpiresAt row' = now + ttlMs lm' \<and> fencingToken row < fencingToken row'))"
proof -
  obtain row where row: "map_get tbl (streamName lm) = Some row" "ownerId_of row = ownerId lm"
    and tbl1: "tbl1 = map_set (streamName lm) (row\<lparr>leaseExpiresAt := t + ttlMs lm, heartbeatAt := t\<rparr>) tbl"
    using assms(1) by (auto simp: heartbeat_def split: option.splits if_splits)
  show ?thesis
    using assms(2-4) row
    by (auto simp: acquire_def upsert_lease_def peek_def tbl1 Let_def store_simps split: if_splits)
qed

theorem lease_handover_witness:
  "(let lm = \<lparr>streamName = ''bonds'', ownerId = ''a'', ttlMs = 15000, heartbeatMs = 5000, currentFencingToken = 1\<rparr>;
        row = \<lparr>streamName_of = ''bonds'', ownerId_of = ''a'', pagingToken = ''42'', leaseExpiresAt = 100,
               heartbeatAt = 0, fencingToken = 1\<rparr>;
        tbl1 = snd (heartbeat 50 lm [(''bonds'', row)])
    in fst (heartbeat 50 lm [(''bonds'', row)]) \<and>
       \<not> acquired (fst (acquire True 15049 (lm\<lparr>ownerId := ''b''\<rparr>) tbl1)))"
proof -
  let ?lm = "\<lparr>streamName = ''bonds'', ownerId = ''a'', ttlMs = 15000, heartbeatMs = 5000, currentFencingToken = 1\<rparr>"
  let ?row = "\<lparr>streamName_of = ''bonds'', ownerId_of = ''a'', pagingToken = ''42'', leaseExpiresAt = 100,
               heartbeatAt = 0, fencingToken = 1\<rparr>"
  have h: "heartbeat 50 ?lm [(''bonds'', ?row)] = (True, [(''bonds'', ?row\<lparr>leaseExpiresAt := 15050, heartbeatAt := 50\<rparr>)])"
    by (simp add: heartbeat_def)
  obtain r lm2 tbl2 where a: "acquire True 15049 (?lm\<lparr>ownerId := ''b''\<rparr>)
      [(''bonds'', ?row\<lparr>leaseExpiresAt := 15050, heartbeatAt := 50\<rparr>)] = (r, lm2, tbl2)"
    by (metis prod_cases3)
  show ?thesis using lease_handover [OF h _ _ a] a by (simp add: h)
qed

end
