(* ===== verification/Settlement.thy ===== *)
theory Settlement
  imports Lifecycles
begin

text \<open>
  Settlements: the repository (\<open>src/src/db/repositories/settlementsRepository.ts\<close>), the shadow-write
  comparison (\<open>src/src/services/shadowWrite.ts\<close>) and the service
  (\<open>src/src/services/settlementService.ts\<close>).  The table is a map from the transaction hash, which is
  unique, to the row, with the counter that hands out ids; every SQL statement is one step on it.
  The service reads and writes in separate statements without a transaction around them: what other calls do
  to the table in between is the parameter \<open>others\<close>, an arbitrary function of the table at each such point.
  What the service does to the cache after the write is the parameter \<open>post_commit\<close>; it cannot
  touch the table.
\<close>

section \<open>Rows and inputs\<close>

record Settlement =
  se_id :: nat
  se_bondId :: string
  se_amount :: string
  se_transactionHash :: string
  se_settledAt :: int
  se_status :: SettlementLifecycleStatus
  se_createdAt :: int
  se_updatedAt :: int

record CreateSettlementInput =
  in_bondId :: string
  in_amount :: string
  in_transactionHash :: string
  in_settledAt :: "int option"
  in_status :: "SettlementLifecycleStatus option"

record UpsertSettlementResult =
  up_settlement :: Settlement
  up_isDuplicate :: bool

record settlements_table =
  st_rows :: "(string, Settlement) jsmap"
  st_next :: nat

section \<open>The repository\<close>

definition upsert :: "int \<Rightarrow> CreateSettlementInput \<Rightarrow> settlements_table \<Rightarrow>
  UpsertSettlementResult \<times> settlements_table" where
  "upsert now input tbl =
     (let settledAt = (case in_settledAt input of None \<Rightarrow> now | Some d \<Rightarrow> d);
          status = (case in_status input of None \<Rightarrow> SPending | Some st \<Rightarrow> st);
          hash = in_transactionHash input
      in case map_get (st_rows tbl) hash of
           None \<Rightarrow>
             let row = \<lparr>se_id = st_next tbl, se_bondId = in_bondId input, se_amount = in_amount input,
                        se_transactionHash = hash, se_settledAt = settledAt, se_status = status,
                        se_createdAt = now, se_updatedAt = now\<rparr>
             in (\<lparr>up_settlement = row, up_isDuplicate = False\<rparr>,
                 tbl\<lparr>st_rows := map_set hash row (st_rows tbl), st_next := Suc (st_next tbl)\<rparr>)
         | Some old \<Rightarrow>
             let row = old\<lparr>se_amount := in_amount input, se_status := status,
                           se_settledAt := settledAt, se_updatedAt := now\<rparr>
             in (\<lparr>up_settlement = row, up_isDuplicate = True\<rparr>,
                 tbl\<lparr>st_rows := map_set hash row (st_rows tbl)\<rparr>))"

fun upsertBatch :: "int \<Rightarrow> CreateSettlementInput list \<Rightarrow> settlements_table \<Rightarrow>
  UpsertSettlementResult list \<times> settlements_table" where
  "upsertBatch now [] tbl = ([], tbl)"
| "upsertBatch now (i # is) tbl =
     (let (res, tbl1) = upsert now i tbl; (rest, tbl2) = upsertBatch now is tbl1
      in (res # rest, tbl2))"

definition findById :: "nat \<Rightarrow> settlements_table \<Rightarrow> Settlement option" where
  "findById i tbl = find (\<lambda>s. se_id s = i) (map_values (st_rows tbl))"

fun insert_newest :: "Settlement \<Rightarrow> Settlement list \<Rightarrow> Settlement list" where
  "insert_newest s [] = [s]"
| "insert_newest s (t # ts) =
     (if se_settledAt t < se_settledAt s \<or> (se_settledAt t = se_settledAt s \<and> se_id t \<le> se_id s)
      then s # t # ts else t # insert_newest s ts)"

definition findByBondId :: "string \<Rightarrow> settlements_table \<Rightarrow> Settlement list" where
  "findByBondId bondId tbl =
     foldr insert_newest (filter (\<lambda>s. se_bondId s = bondId) (map_values (st_rows tbl))) []"

definition findByTransactionHash :: "string \<Rightarrow> settlements_table \<Rightarrow> Settlement option" where
  "findByTransactionHash hash tbl = map_get (st_rows tbl) hash"

definition countByBondId :: "string \<Rightarrow> settlements_table \<Rightarrow> nat" where
  "countByBondId bondId tbl = length (filter (\<lambda>s. se_bondId s = bondId) (map_values (st_rows tbl)))"

definition delete_settlement :: "nat \<Rightarrow> settlements_table \<Rightarrow> bool \<times> settlements_table" where
  "delete_settlement i tbl =
     (let rows = filter (\<lambda>(h, s). se_id s \<noteq> i) (st_rows tbl)
      in (length rows < length (st_rows tbl), tbl\<lparr>st_rows := rows\<rparr>))"

section \<open>Shadow writes\<close>

record 'e ShadowWriteResult =
  oldResult :: "UpsertSettlementResult option"
  newResult :: "UpsertSettlementResult option"
  oldError :: "'e option"
  newError :: "'e option"

text \<open>The verdict, and the mismatches recorded in the metrics.\<close>

definition diffAndRecordShadowWrites :: "'e ShadowWriteResult \<Rightarrow> bool \<times> string list" where
  "diffAndRecordShadowWrites result =
     (if (oldError result = None) \<noteq> (newError result = None) then (True, [''error_mismatch''])
      else if oldError result \<noteq> None \<and> newError result \<noteq> None then (False, [])
      else case (oldResult result, newResult result) of
        (Some old, Some new) \<Rightarrow>
          let oldS = up_settlement old; newS = up_settlement new;
              m1 = (if se_status oldS \<noteq> se_status newS then [''status_mismatch''] else []);
              m2 = (if se_amount oldS \<noteq> se_amount newS \<or> se_bondId oldS \<noteq> se_bondId newS \<or>
                       se_transactionHash oldS \<noteq> se_transactionHash newS
                    then [''data_mismatch''] else []);
              m3 = (if up_isDuplicate old \<noteq> up_isDuplicate new then [''data_mismatch''] else [])
          in (m1 @ m2 @ m3 \<noteq> [], m1 @ m2 @ m3)
      | _ \<Rightarrow> (False, []))"

text \<open>Both pipelines run on the same table; the old one is issued first, and others may write before the new one.\<close>

definition executeShadowWrite ::
  "(settlements_table \<Rightarrow> settlements_table) \<Rightarrow>
   (settlements_table, 'e, UpsertSettlementResult) exec \<Rightarrow>
   (settlements_table, 'e, UpsertSettlementResult) exec \<Rightarrow>
   (settlements_table, 'e, UpsertSettlementResult \<times> bool) exec" where
  "executeShadowWrite between oldUpsert newUpsert tbl =
     (let (oldOutcome, tbl1) = oldUpsert tbl; (newOutcome, tbl2) = newUpsert (between tbl1);
          result = \<lparr>oldResult = (case oldOutcome of Inr v \<Rightarrow> Some v | Inl _ \<Rightarrow> None),
                    newResult = (case newOutcome of Inr v \<Rightarrow> Some v | Inl _ \<Rightarrow> None),
                    oldError = (case oldOutcome of Inr _ \<Rightarrow> None | Inl e \<Rightarrow> Some e),
                    newError = (case newOutcome of Inr _ \<Rightarrow> None | Inl e \<Rightarrow> Some e)\<rparr>;
          hadMismatch = fst (diffAndRecordShadowWrites result)
      in case oldOutcome of Inl e \<Rightarrow> (Inl e, tbl2) | Inr v \<Rightarrow> (Inr (v, hadMismatch), tbl2))"

section \<open>The service\<close>

datatype settlement_error =
    TransitionRejected SettlementLifecycleStatus SettlementLifecycleStatus nat string
  | BadInitialStatus SettlementLifecycleStatus
  | PostCommitFailed string
  | ItemNotObject nat
  | BadBondId nat
  | BadAmount nat
  | AmountOutOfRange nat
  | BadTransactionHash nat
  | BadSettledAt nat

definition check_transition ::
  "CreateSettlementInput \<Rightarrow> settlements_table \<Rightarrow> (settlement_error, unit) result" where
  "check_transition input tbl =
     (case in_status input of
        None \<Rightarrow> Inr ()
      | Some status \<Rightarrow>
          (case findByTransactionHash (in_transactionHash input) tbl of
             Some existing \<Rightarrow>
               let transition = validateSettlementTransition (se_status existing) status
               in if \<not> success transition
                  then Inl (TransitionRejected (se_status existing) status (se_id existing)
                             (in_transactionHash input))
                  else Inr ()
           | None \<Rightarrow>
               if status \<noteq> SPending \<and> status \<noteq> SFailed then Inl (BadInitialStatus status) else Inr ()))"

text \<open>After the lookup has answered others may write (\<open>others 0\<close>), and so they may between the two shadow writes
  (\<open>others 1\<close>).\<close>

definition upsertSettlementStatus ::
  "(nat \<Rightarrow> settlements_table \<Rightarrow> settlements_table) \<Rightarrow> (Settlement \<Rightarrow> (string, unit) result) \<Rightarrow> bool \<Rightarrow> int \<Rightarrow> CreateSettlementInput \<Rightarrow>
   (settlements_table, settlement_error, Settlement) exec" where
  "upsertSettlementStatus others post_commit shadowWriteEnabled now input tbl =
     (case check_transition input tbl of
        Inl e \<Rightarrow> (Inl e, tbl)
      | Inr _ \<Rightarrow>
          let write = (\<lambda>t. case upsert now input t of (r, t') \<Rightarrow> (Inr r, t'));
              (outcome, tbl1) =
                (if shadowWriteEnabled
                 then (case executeShadowWrite (others 1) write write (others 0 tbl) of
                         (Inl e, t) \<Rightarrow> (Inl e, t) | (Inr (v, _), t) \<Rightarrow> (Inr v, t))
                 else write (others 0 tbl))
          in case outcome of
               Inl e \<Rightarrow> (Inl e, tbl1)
             | Inr result \<Rightarrow>
                 case post_commit (up_settlement result) of
                   Inl e \<Rightarrow> (Inl (PostCommitFailed e), tbl1)
                 | Inr _ \<Rightarrow> (Inr (up_settlement result), tbl1))"

section \<open>Batches\<close>

datatype date_arg = NoDate | ValidDate int | InvalidDate

record batch_item =
  bi_bondId :: "string option"
  bi_amount :: "string option"
  bi_transactionHash :: "string option"
  bi_settledAt :: date_arg
  bi_status :: "SettlementLifecycleStatus option"

definition matches_amount :: "string \<Rightarrow> bool" where
  "matches_amount s =
     (let ip = takeWhile is_digit s; rest = dropWhile is_digit s
      in ip \<noteq> [] \<and>
         (rest = [] \<or>
          (hd rest = CHR ''.'' \<and> list_all is_digit (tl rest) \<and> 1 \<le> length (tl rest) \<and> length (tl rest) \<le> 18)))"

text \<open>
  \<open>parseFloat(s) > 1e18\<close> on a string of that form: neighbouring doubles above 1e18 are 128 apart and
  1e18 has an even significand, so everything up to 1e18 + 64 rounds to 1e18 itself.
\<close>

definition amount_over :: "string \<Rightarrow> bool" where
  "amount_over s =
     (let ip = takeWhile is_digit s; fp = tl (dropWhile is_digit s)
      in nat_of_digits (ip @ fp) > (10 ^ 18 + 64) * 10 ^ length fp)"

definition validate_item :: "nat \<Rightarrow> batch_item option \<Rightarrow> (settlement_error, CreateSettlementInput) result" where
  "validate_item i item =
     (case item of None \<Rightarrow> Inl (ItemNotObject i)
      | Some it \<Rightarrow>
          case bi_bondId it of None \<Rightarrow> Inl (BadBondId i)
          | Some bondId \<Rightarrow>
              if trim bondId = '''' then Inl (BadBondId i) else
              case bi_amount it of None \<Rightarrow> Inl (BadAmount i)
              | Some amount \<Rightarrow>
                  if \<not> matches_amount amount then Inl (BadAmount i)
                  else if amount_over amount then Inl (AmountOutOfRange i) else
                  case bi_transactionHash it of None \<Rightarrow> Inl (BadTransactionHash i)
                  | Some hash \<Rightarrow>
                      if length (trim hash) = 0 \<or> length hash > 128 then Inl (BadTransactionHash i)
                      else case bi_settledAt it of
                        InvalidDate \<Rightarrow> Inl (BadSettledAt i)
                      | NoDate \<Rightarrow> Inr \<lparr>in_bondId = bondId, in_amount = amount, in_transactionHash = hash,
                                      in_settledAt = None, in_status = bi_status it\<rparr>
                      | ValidDate d \<Rightarrow> Inr \<lparr>in_bondId = bondId, in_amount = amount, in_transactionHash = hash,
                                      in_settledAt = Some d, in_status = bi_status it\<rparr>)"

fun validateBatchInputs ::
  "nat \<Rightarrow> batch_item option list \<Rightarrow> (settlement_error, CreateSettlementInput list) result" where
  "validateBatchInputs i [] = Inr []"
| "validateBatchInputs i (item # items) =
     rbind (validate_item i item) (\<lambda>x. rbind (validateBatchInputs (Suc i) items) (\<lambda>xs. Inr (x # xs)))"

definition upsertSettlementBatch ::
  "int \<Rightarrow> batch_item option list \<Rightarrow> (settlements_table, settlement_error, Settlement list) exec" where
  "upsertSettlementBatch now items tbl =
     (case validateBatchInputs 0 items of
        Inl e \<Rightarrow> (Inl e, tbl)
      | Inr inputs \<Rightarrow>
          let (results, tbl') = upsertBatch now inputs tbl in (Inr (map up_settlement results), tbl'))"

section \<open>The table under an upsert\<close>

definition st_wf :: "settlements_table \<Rightarrow> bool" where
  "st_wf tbl \<longleftrightarrow>
     map_wf (st_rows tbl) \<and>
     (\<forall>h s. map_get (st_rows tbl) h = Some s \<longrightarrow> se_transactionHash s = h \<and> se_id s < st_next tbl) \<and>
     (\<forall>h h' s s'. map_get (st_rows tbl) h = Some s \<longrightarrow> map_get (st_rows tbl) h' = Some s' \<longrightarrow>
        se_id s = se_id s' \<longrightarrow> h = h')"

definition row_of :: "settlements_table \<Rightarrow> string \<Rightarrow> Settlement option" where
  "row_of tbl h = map_get (st_rows tbl) h"

lemma upsert_row:
  "row_of (snd (upsert now input tbl)) h =
     (if h = in_transactionHash input then Some (up_settlement (fst (upsert now input tbl))) else row_of tbl h)"
  by (auto simp: upsert_def row_of_def Let_def store_simps split: option.splits)

lemma upsert_result:
  "se_status (up_settlement (fst (upsert now input tbl))) = (case in_status input of None \<Rightarrow> SPending | Some st \<Rightarrow> st)"
  "up_isDuplicate (fst (upsert now input tbl)) \<longleftrightarrow> row_of tbl (in_transactionHash input) \<noteq> None"
  by (auto simp: upsert_def row_of_def Let_def split: option.splits)

lemma upsert_kept:
  "row_of tbl (in_transactionHash input) = Some old \<Longrightarrow>
   (let s = up_settlement (fst (upsert now input tbl))
    in se_id s = se_id old \<and> se_bondId s = se_bondId old \<and> se_createdAt s = se_createdAt old \<and>
       se_transactionHash s = se_transactionHash old)"
  by (simp add: upsert_def row_of_def Let_def)

lemma st_wf_set:
  assumes "st_wf tbl" "se_transactionHash row = h" "se_id row < nxt" "st_next tbl \<le> nxt"
    and "\<And>h' s. h' \<noteq> h \<Longrightarrow> map_get (st_rows tbl) h' = Some s \<Longrightarrow> se_id s \<noteq> se_id row"
  shows "st_wf (tbl\<lparr>st_rows := map_set h row (st_rows tbl), st_next := nxt\<rparr>)"
  unfolding st_wf_def
proof (intro conjI allI impI, goal_cases)
  case 1
  then show ?case using assms(1) by (simp add: st_wf_def map_wf_set)
next
  case (2 k s)
  then show ?case using assms(1,2) by (cases "k = h") (auto simp: st_wf_def store_simps)
next
  case (3 k s)
  then show ?case using assms(1,3,4) by (cases "k = h") (fastforce simp: st_wf_def store_simps)+
next
  case (4 k k' s s')
  then show ?case
    using assms(1,5) [unfolded st_wf_def] by (cases "k = h"; cases "k' = h") (auto simp: store_simps)
qed

lemma upsert_wf:
  assumes "st_wf tbl"
  shows "st_wf (snd (upsert now input tbl))"
proof (cases "map_get (st_rows tbl) (in_transactionHash input)")
  case None
  have "se_id s \<noteq> st_next tbl" if "map_get (st_rows tbl) h = Some s" for h s
    using assms that unfolding st_wf_def by (metis less_irrefl)
  then show ?thesis by (simp add: upsert_def Let_def None) (intro st_wf_set [OF assms]; simp)
next
  case (Some old)
  have ids: "se_id s \<noteq> se_id old" if "h \<noteq> in_transactionHash input" "map_get (st_rows tbl) h = Some s" for h s
    using assms that Some unfolding st_wf_def by blast
  have "st_wf (tbl\<lparr>st_rows := map_set (in_transactionHash input) row (st_rows tbl), st_next := st_next tbl\<rparr>)"
    if "se_id row = se_id old" "se_transactionHash row = in_transactionHash input" for row
    using assms Some that ids by (intro st_wf_set) (auto simp: st_wf_def)
  moreover have "se_transactionHash old = in_transactionHash input" using assms Some by (simp add: st_wf_def)
  ultimately show ?thesis by (simp add: upsert_def Let_def Some)
qed

lemma upsert_again:
  "upsert now input (snd (upsert now input tbl)) =
     (\<lparr>up_settlement = up_settlement (fst (upsert now input tbl)), up_isDuplicate = True\<rparr>,
      snd (upsert now input tbl))"
  by (auto simp: upsert_def Let_def store_simps split: option.splits)

lemma find_by_id:
  assumes "st_wf tbl" "row_of tbl h = Some s"
  shows "findById (se_id s) tbl = Some s"
proof -
  have mem: "s \<in> set (map_values (st_rows tbl))"
    using assms(2) by (auto simp: row_of_def dest!: map_of_SomeD intro!: image_eqI)
  moreover have "t = s" if "t \<in> set (map_values (st_rows tbl))" "se_id t = se_id s" for t
  proof -
    from that(1) assms(1) obtain h' where "row_of tbl h' = Some t"
      by (auto simp: row_of_def st_wf_def map_wf_def)
    with assms that(2) show ?thesis unfolding st_wf_def row_of_def by (metis option.inject)
  qed
  ultimately show ?thesis unfolding findById_def by (intro find_unique) auto
qed

section \<open>The service on one row\<close>

text \<open>An accepted call ends with its last write, on the table as others have left it.\<close>

definition last_table where
  "last_table others shadow now input tbl =
     (if shadow then others (1 :: nat) (snd (upsert now input (others 0 tbl))) else others 0 tbl)"

lemma service_table:
  "snd (upsertSettlementStatus others post shadow now input tbl) =
     (if check_transition input tbl = Inr () then snd (upsert now input (last_table others shadow now input tbl)) else tbl)"
proof (cases "check_transition input tbl")
  case (Inr u)
  obtain r t1 where u: "upsert now input (others 0 tbl) = (r, t1)" by (metis prod.collapse)
  obtain r2 t2 where u2: "upsert now input (others 1 t1) = (r2, t2)" by (metis prod.collapse)
  show ?thesis
    unfolding upsertSettlementStatus_def executeShadowWrite_def last_table_def
    by (cases shadow; cases "post (up_settlement r)") (simp_all add: Inr u u2 [simplified] Let_def)
qed (simp add: upsertSettlementStatus_def)

lemma check_transition_status:
  assumes "check_transition input tbl = Inr ()" "in_status input = Some st"
  shows "case row_of tbl (in_transactionHash input) of
      None \<Rightarrow> st \<noteq> SSettled | Some s \<Rightarrow> success (validateSettlementTransition (se_status s) st)"
  using assms
  by (cases st) (auto simp: check_transition_def findByTransactionHash_def row_of_def Let_def
      split: option.splits if_splits)

lemma upsertBatch_row:
  "h \<notin> in_transactionHash ` set inputs \<Longrightarrow> row_of (snd (upsertBatch now inputs tbl)) h = row_of tbl h"
  by (induction inputs arbitrary: tbl) (auto simp: upsert_row split: prod.splits; metis snd_conv upsert_row)+

lemma validated_hash: "validate_item i item = Inr input \<Longrightarrow> \<exists>it. item = Some it \<and> bi_transactionHash it = Some (in_transactionHash input)"
  by (auto simp: validate_item_def split: option.splits if_splits date_arg.splits)

lemma validated_hashes:
  "validateBatchInputs i items = Inr inputs \<Longrightarrow> x \<in> set inputs \<Longrightarrow>
   \<exists>it. Some it \<in> set items \<and> bi_transactionHash it = Some (in_transactionHash x)"
proof (induction items arbitrary: i inputs)
  case (Cons item items)
  then obtain y ys where y: "validate_item i item = Inr y" "validateBatchInputs (Suc i) items = Inr ys" "inputs = y # ys"
    by (auto simp: rbind_Inr_iff)
  show ?case using Cons.IH [OF y(2)] Cons.prems(2) validated_hash [OF y(1)] y(3) by auto
qed simp

section \<open>Sequences of service calls\<close>

record service_call =
  sc_others :: "nat \<Rightarrow> settlements_table \<Rightarrow> settlements_table"
  sc_post :: "Settlement \<Rightarrow> (string, unit) result"
  sc_shadow :: bool
  sc_now :: int
  sc_input :: CreateSettlementInput

datatype settlement_call = StatusCall service_call | BatchCall int "batch_item option list"

fun service :: "settlements_table \<Rightarrow> settlement_call \<Rightarrow> settlements_table" where
  "service tbl (StatusCall c) = snd (upsertSettlementStatus (sc_others c) (sc_post c) (sc_shadow c) (sc_now c) (sc_input c) tbl)"
| "service tbl (BatchCall now items) = snd (upsertSettlementBatch now items tbl)"

definition legal :: "SettlementLifecycleStatus \<Rightarrow> SettlementLifecycleStatus \<Rightarrow> bool" where
  "legal a b = success (validateSettlementTransition a b)"

text \<open>Calls that respect the settlement of one transaction: while a status call is under way others leave its row
  alone, a status call for it names a status, and no batch contains it.\<close>

definition leaves :: "string \<Rightarrow> (settlements_table \<Rightarrow> settlements_table) \<Rightarrow> bool" where
  "leaves h f \<longleftrightarrow> (\<forall>t. row_of (f t) h = row_of t h)"

fun respectful :: "string \<Rightarrow> settlement_call \<Rightarrow> bool" where
  "respectful h (StatusCall c) \<longleftrightarrow> leaves h (sc_others c 0) \<and> leaves h (sc_others c 1) \<and>
     (in_transactionHash (sc_input c) = h \<longrightarrow> in_status (sc_input c) \<noteq> None)"
| "respectful h (BatchCall now items) \<longleftrightarrow> list_all (\<lambda>item. case item of None \<Rightarrow> True | Some it \<Rightarrow> bi_transactionHash it \<noteq> Some h) items"

lemma batch_row:
  assumes "respectful h (BatchCall now items)"
  shows "row_of (service tbl (BatchCall now items)) h = row_of tbl h"
proof (cases "validateBatchInputs 0 items")
  case (Inr inputs)
  have "h \<notin> in_transactionHash ` set inputs"
    using validated_hashes [OF Inr] assms by (fastforce simp: list_all_iff)
  from upsertBatch_row [OF this] show ?thesis by (simp add: upsertSettlementBatch_def Inr split: prod.splits) (metis snd_conv)
qed (simp add: upsertSettlementBatch_def)

lemma last_row:
  assumes "leaves h (others 0)" "leaves h (others 1)"
  shows "row_of (last_table others shadow now input tbl) h =
    (if shadow then row_of (snd (upsert now input (others 0 tbl))) h else row_of tbl h)"
  using assms by (simp add: last_table_def leaves_def)

definition moved :: "Settlement option \<Rightarrow> Settlement \<Rightarrow> bool" where
  "moved old s' \<longleftrightarrow>
     (case old of
        None \<Rightarrow> se_status s' \<noteq> SSettled
      | Some s \<Rightarrow> legal (se_status s) (se_status s') \<and> se_id s' = se_id s \<and> se_bondId s' = se_bondId s)"

lemma status_row:
  assumes "respectful h (StatusCall c)" "in_transactionHash (sc_input c) = h" "check_transition (sc_input c) tbl = Inr ()"
  shows "\<exists>s'. row_of (service tbl (StatusCall c)) h = Some s' \<and> moved (row_of tbl h) s'"
proof -
  obtain st where st: "in_status (sc_input c) = Some st" using assms(1,2) by auto
  let ?up = "upsert (sc_now c) (sc_input c)"
  let ?first = "up_settlement (fst (?up (sc_others c 0 tbl)))"
  let ?t = "last_table (sc_others c) (sc_shadow c) (sc_now c) (sc_input c) tbl"
  let ?s' = "up_settlement (fst (?up ?t))"
  have zero: "row_of (sc_others c 0 tbl) h = row_of tbl h" using assms(1) by (simp add: leaves_def)
  have t: "row_of ?t h = (if sc_shadow c then Some ?first else row_of tbl h)"
    using assms(1,2) by (simp add: last_row upsert_row)
  have kept: "se_id (up_settlement (fst (?up x))) = se_id s \<and> se_bondId (up_settlement (fst (?up x))) = se_bondId s"
    if "row_of x h = Some s" for x s
    using upsert_kept [of x "sc_input c" s "sc_now c"] that assms(2) by (simp add: Let_def)
  have "se_id ?s' = se_id s \<and> se_bondId ?s' = se_bondId s" if "row_of tbl h = Some s" for s
    using kept [of ?t] kept [of "sc_others c 0 tbl" s] t zero that by (cases "sc_shadow c") auto
  moreover have "se_status ?s' = st" by (simp add: upsert_result st)
  ultimately have "moved (row_of tbl h) ?s'"
    using check_transition_status [OF assms(3) st] assms(2) by (auto simp: moved_def legal_def split: option.splits)
  then show ?thesis using assms(2,3) by (simp add: service_table upsert_row)
qed

lemma service_row:
  assumes "respectful h c"
  shows "row_of (service tbl c) h = row_of tbl h \<or> (\<exists>s'. row_of (service tbl c) h = Some s' \<and> moved (row_of tbl h) s')"
proof (cases c)
  case (StatusCall sc)
  show ?thesis
  proof (cases "check_transition (sc_input sc) tbl = Inr () \<and> in_transactionHash (sc_input sc) = h")
    case True
    then show ?thesis using status_row [of h sc tbl] assms StatusCall by simp
  next
    case False
    then show ?thesis
      using assms StatusCall last_row [of h "sc_others sc"] by (auto simp: service_table upsert_row leaves_def)
  qed
qed (use assms batch_row in simp)

lemma service_run:
  assumes "list_all (respectful h) cs" "row_of tbl h = Some s"
  shows "\<exists>s'. row_of (foldl service tbl cs) h = Some s' \<and> legal\<^sup>*\<^sup>* (se_status s) (se_status s') \<and>
    se_id s' = se_id s \<and> se_bondId s' = se_bondId s"
  using assms
proof (induction cs arbitrary: tbl s)
  case (Cons c cs)
  obtain s1 where s1: "row_of (service tbl c) h = Some s1" "legal\<^sup>*\<^sup>* (se_status s) (se_status s1)"
      "se_id s1 = se_id s" "se_bondId s1 = se_bondId s"
    using service_row [of h c tbl] Cons.prems by (auto simp: moved_def)
  with Cons.IH [OF _ s1(1)] Cons.prems(1) show ?case by (auto intro: rtranclp_trans)
qed auto

lemma service_created:
  assumes "list_all (respectful h) cs" "row_of tbl h = None" "row_of (foldl service tbl cs) h = Some s'"
  shows "\<exists>first. first \<noteq> SSettled \<and> legal\<^sup>*\<^sup>* first (se_status s')"
  using assms
proof (induction cs arbitrary: tbl)
  case (Cons c cs)
  show ?case
  proof (cases "row_of (service tbl c) h")
    case None
    then show ?thesis using Cons by simp
  next
    case (Some s1)
    then have "se_status s1 \<noteq> SSettled" using service_row [of h c tbl] Cons.prems by (auto simp: moved_def)
    then show ?thesis using service_run [OF _ Some, of cs] Cons.prems by auto
  qed
qed simp

section \<open>Properties\<close>


definition sample_settled :: Settlement where
  "sample_settled = \<lparr>se_id = 0, se_bondId = ''1'', se_amount = ''5'', se_transactionHash = ''tx'',
     se_settledAt = 0, se_status = SSettled, se_createdAt = 0, se_updatedAt = 0\<rparr>"

definition sample_input :: "SettlementLifecycleStatus option \<Rightarrow> CreateSettlementInput" where
  "sample_input st = \<lparr>in_bondId = ''1'', in_amount = ''5'', in_transactionHash = ''tx'',
     in_settledAt = None, in_status = st\<rparr>"

definition sample_table :: settlements_table where
  "sample_table = \<lparr>st_rows = [(''tx'', sample_settled)], st_next = 1\<rparr>"

text \<open>A call that is interrupted by a write to another transaction.\<close>

definition sample_call :: "SettlementLifecycleStatus \<Rightarrow> settlement_call" where
  "sample_call st = StatusCall \<lparr>sc_others = (\<lambda>n t. snd (upsert 8 ((sample_input None)\<lparr>in_transactionHash := ''ty''\<rparr>) t)),
     sc_post = (\<lambda>_. Inr ()), sc_shadow = True, sc_now = 9, sc_input = sample_input (Some st)\<rparr>"


text \<open>Claim C38. A call without a status skips the lifecycle check and writes the default status: whatever other calls
  do meanwhile, a settled settlement is moved back to pending, although settled is documented as terminal.\<close>

theorem settlement_status_omitted_resets:
  assumes "map_get (st_rows tbl) h = Some s" and "se_status s = SSettled"
    and "in_transactionHash input = h" and "in_status input = None"
  shows "map_option se_status (findByTransactionHash h (snd (upsertSettlementStatus others post shadow now input tbl)))
    = Some SPending"
proof -
  have "check_transition input tbl = Inr ()" using assms by (simp add: check_transition_def)
  then show ?thesis
    using assms(3,4) by (simp add: service_table findByTransactionHash_def upsert_result flip: row_of_def) (simp add: upsert_row upsert_result)
qed

theorem settlement_status_omitted_resets_witness:
  "map_option se_status (findByTransactionHash ''tx''
     (snd (upsertSettlementStatus (\<lambda>_ t. t) (\<lambda>_. Inr ()) False 9 (sample_input None) sample_table))) = Some SPending"
  using settlement_status_omitted_resets [of sample_table "''tx''" sample_settled "sample_input None"]
  by (simp add: sample_table_def sample_input_def sample_settled_def)

text \<open>The check is not atomic with the write: when a second call settles a pending settlement while a first one,
  which asked for failed, is between its lookup and its write, the settlement ends as failed, out of the
  terminal status.\<close>

theorem settlement_overlap_unsettles:
  assumes "row_of tbl h = Some s" and "se_status s = SPending"
    and "in_transactionHash a = h" "in_status a = Some SSettled" and "in_transactionHash b = h" "in_status b = Some SFailed"
    and "others 0 = (\<lambda>t. snd (upsertSettlementStatus (\<lambda>_ t. t) post shadow now a t))" and "others 1 = id"
  shows "map_option se_status (row_of (others 0 tbl) h) = Some SSettled \<and>
    map_option se_status (row_of (snd (upsertSettlementStatus others post' shadow' now' b tbl)) h) = Some SFailed"
proof -
  have "check_transition a tbl = Inr ()" "check_transition b tbl = Inr ()"
    using assms by (simp_all add: check_transition_def findByTransactionHash_def settlement_valid_iff flip: row_of_def)
  then show ?thesis using assms by (simp add: service_table upsert_row upsert_result)
qed

text \<open>A batch is written without any check: the status it names, or pending, replaces the recorded one.\<close>

theorem settlement_batch_unchecked:
  assumes "validate_item 0 (Some it) = Inr input" and "bi_transactionHash it = Some h"
  shows "map_option se_status (row_of (service tbl (BatchCall now [Some it])) h) =
    Some (case bi_status it of None \<Rightarrow> SPending | Some st \<Rightarrow> st)"
proof -
  have "in_transactionHash input = h" using validated_hash [OF assms(1)] assms(2) by auto
  moreover have "in_status input = bi_status it"
    using assms(1) by (auto simp: validate_item_def split: option.splits if_splits date_arg.splits)
  ultimately show ?thesis
    using assms(1) by (simp add: upsertSettlementBatch_def upsert_row upsert_result split: prod.splits) (metis fst_conv snd_conv upsert_row upsert_result(1) option.map(2))
qed

text \<open>Replaying an upsert is safe: on a well-formed table the second of two equal upserts reports a
  duplicate, returns the same settlement and leaves the table unchanged; the table stays well formed (one row
  per hash, unique ids), and the row is found by its id and by its hash.\<close>

theorem upsert_idempotent:
  assumes "st_wf tbl" and "upsert now input tbl = (r, tbl')"
  shows "upsert now input tbl' = (\<lparr>up_settlement = up_settlement r, up_isDuplicate = True\<rparr>, tbl') \<and>
    st_wf tbl' \<and>
    findByTransactionHash (in_transactionHash input) tbl' = Some (up_settlement r) \<and>
    findById (se_id (up_settlement r)) tbl' = Some (up_settlement r) \<and>
    (up_isDuplicate r \<longleftrightarrow> findByTransactionHash (in_transactionHash input) tbl \<noteq> None)"
proof -
  have wf: "st_wf tbl'" using upsert_wf [OF assms(1), of now input] assms(2) by simp
  moreover have row: "row_of tbl' (in_transactionHash input) = Some (up_settlement r)"
    using upsert_row [of now input tbl "in_transactionHash input"] assms(2) by simp
  ultimately show ?thesis
    using upsert_again [of now input tbl] assms(2) find_by_id [OF wf row] upsert_result(2) [of now input tbl]
    by (simp add: findByTransactionHash_def row_of_def)
qed

theorem upsert_idempotent_witness:
  "st_wf sample_table \<and> st_wf (snd (upsert 9 (sample_input (Some SFailed)) sample_table)) \<and>
   up_isDuplicate (fst (upsert 9 (sample_input (Some SFailed)) sample_table))"
proof -
  have wf: "st_wf sample_table"
    by (simp add: st_wf_def sample_table_def sample_settled_def map_wf_def)
  obtain r tbl' where u: "upsert 9 (sample_input (Some SFailed)) sample_table = (r, tbl')"
    by (metis prod.collapse)
  show ?thesis
    using upsert_idempotent [OF wf u] wf u
    by (simp add: findByTransactionHash_def sample_table_def sample_input_def)
qed

end
