(* ===== verification/Sorting.thy ===== *)
theory Sorting
  imports Prelude "HOL-Library.Multiset" "HOL-Library.List_Lexorder" "HOL-Library.Char_ord"
begin

text \<open>
  \<open>Array.prototype.sort\<close> with a comparator (a stable sort), and keyset pages of a sorted list.  The
  \<open><\<close> of two JavaScript strings is the lexicographic order of their code units, which is the order
  of \<open>string\<close> here.
\<close>

section \<open>The stable sort\<close>

fun sort_insert :: "('a \<Rightarrow> 'a \<Rightarrow> int) \<Rightarrow> 'a \<Rightarrow> 'a list \<Rightarrow> 'a list" where
  "sort_insert cmp x [] = [x]"
| "sort_insert cmp x (y # ys) = (if cmp x y \<le> 0 then x # y # ys else y # sort_insert cmp x ys)"

definition js_sort :: "('a \<Rightarrow> 'a \<Rightarrow> int) \<Rightarrow> 'a list \<Rightarrow> 'a list" where
  "js_sort cmp xs = foldr (sort_insert cmp) xs []"

lemma js_sort_simps [simp]: "js_sort cmp [] = []" "js_sort cmp (x # xs) = sort_insert cmp x (js_sort cmp xs)"
  by (simp_all add: js_sort_def)

lemma mset_sort_insert [simp]: "mset (sort_insert cmp x ys) = add_mset x (mset ys)"
  by (induction ys) auto

lemma mset_js_sort [simp]: "mset (js_sort cmp xs) = mset xs"
  by (induction xs) auto

lemma set_js_sort [simp]: "set (js_sort cmp xs) = set xs"
  by (metis mset_js_sort set_mset_mset)

lemma length_js_sort [simp]: "length (js_sort cmp xs) = length xs"
  by (metis mset_js_sort size_mset)

lemma distinct_js_sort [simp]: "distinct (js_sort cmp xs) = distinct xs"
  by (metis mset_eq_imp_distinct_iff mset_js_sort)

text \<open>What a comparator has to promise on the elements it is used with.\<close>

locale comparator =
  fixes cmp :: "'a \<Rightarrow> 'a \<Rightarrow> int" and dom :: "'a set"
  assumes total: "x \<in> dom \<Longrightarrow> y \<in> dom \<Longrightarrow> cmp x y \<le> 0 \<or> cmp y x \<le> 0"
    and trans: "x \<in> dom \<Longrightarrow> y \<in> dom \<Longrightarrow> z \<in> dom \<Longrightarrow> cmp x y \<le> 0 \<Longrightarrow> cmp y z \<le> 0 \<Longrightarrow> cmp x z \<le> 0"
begin

lemma sorted_insert:
  assumes "x \<in> dom" "set ys \<subseteq> dom" "sorted_wrt (\<lambda>a b. cmp a b \<le> 0) ys"
  shows "sorted_wrt (\<lambda>a b. cmp a b \<le> 0) (sort_insert cmp x ys)"
  using assms(2,3)
proof (induction ys)
  case (Cons y ys)
  have ins: "set (sort_insert cmp x ys) = insert x (set ys)"
    using mset_sort_insert [of cmp x ys] by (metis set_mset_add_mset_insert set_mset_mset)
  show ?case
  proof (cases "cmp x y \<le> 0")
    case True
    have "cmp x z \<le> 0" if "z \<in> set ys" for z
      using trans [of x y z] assms(1) Cons.prems True that by auto
    with True Cons.prems show ?thesis by simp
  next
    case False
    then have "cmp y x \<le> 0" using total [of x y] assms(1) Cons.prems(1) by simp
    with False Cons show ?thesis by (simp add: ins)
  qed
qed simp

lemma sorted_js_sort: "set xs \<subseteq> dom \<Longrightarrow> sorted_wrt (\<lambda>a b. cmp a b \<le> 0) (js_sort cmp xs)"
  by (induction xs) (simp_all add: sorted_insert)

end

lemma sorted_wrt_strict:
  assumes "sorted_wrt P xs" "distinct xs" "\<And>x y. x \<in> set xs \<Longrightarrow> y \<in> set xs \<Longrightarrow> P x y \<Longrightarrow> x = y \<or> Q x y"
  shows "sorted_wrt Q xs"
  using assms by (induction xs) auto

lemma js_sort_sorted: "sorted_wrt (\<lambda>a b. cmp a b \<le> 0) xs \<Longrightarrow> js_sort cmp xs = xs"
proof (induction xs)
  case (Cons x xs)
  then show ?case by (cases xs) auto
qed simp

section \<open>Keyset pages\<close>

lemma filter_after:
  assumes "sorted_wrt P xs" "i < length xs" "\<And>x y. P x y \<Longrightarrow> \<not> P y x"
  shows "filter (P (xs ! i)) xs = drop (Suc i) xs"
proof -
  let ?x = "xs ! i"
  have split: "xs = take i xs @ ?x # drop (Suc i) xs" using assms(2) by (simp add: id_take_nth_drop)
  then have "sorted_wrt P (take i xs @ ?x # drop (Suc i) xs)" using assms(1) by simp
  then have "\<forall>a\<in>set (take i xs). \<not> P ?x a" "\<forall>b\<in>set (drop (Suc i) xs). P ?x b"
    using assms(3) by (auto simp: sorted_wrt_append)
  moreover have "\<not> P ?x ?x" using assms(3) by blast
  ultimately have "filter (P ?x) (take i xs @ ?x # drop (Suc i) xs) = drop (Suc i) xs"
    by (simp add: filter_False)
  with split show ?thesis by simp
qed

text \<open>\<open>slice(0, limit + 1)\<close> followed by dropping the extra element.\<close>

definition take_page :: "nat \<Rightarrow> 'a list \<Rightarrow> 'a list \<times> bool" where
  "take_page limit xs =
     (let limited = take (limit + 1) xs; hasMore = length limited > limit
      in (if hasMore then butlast limited else limited, hasMore))"

lemma take_page: "take_page n xs = (take n xs, n < length xs)"
  by (cases "n < length xs") (simp_all add: take_page_def Let_def butlast_take del: take_all_iff)

end
