(* ===== verification/Disputes.thy ===== *)
theory Disputes
  imports Lifecycles Sorting
begin

text \<open>
  The dispute store (\<open>src/src/services/governance/disputes.ts\<close>).  The module-level \<open>Map\<close> is the state;
  the current time and the random id are arguments.  \<open>deadlineMs\<close> is a number, so it may be NaN; a
  date is then invalid, which is \<open>None\<close>.  \<open>localeCompare\<close> depends on the locale of the process and is an
  argument of the listing.
\<close>

section \<open>Data\<close>

record Dispute =
  dp_id :: string
  dp_tenantId :: string
  dp_filedBy :: string
  dp_respondent :: string
  dp_reason :: string
  dp_evidence :: "string list"
  dp_status :: DisputeStatus
  dp_createdAt :: int
  dp_deadline :: "int option"
  dp_resolution :: "string option"

record DisputeInput =
  di_filedBy :: string
  di_respondent :: string
  di_reason :: string
  di_evidence :: "string list"
  di_deadlineMs :: "int option"

type_synonym dispute_store = "(string, Dispute) jsmap"

datatype dispute_error =
    InvalidDispute "string list"
  | DisputeNotFound string
  | CannotResolveExpired
  | ResolutionRequired
  | DismissReasonRequired
  | DisputeTransition DisputeStatus DisputeStatus

definition MIN_DEADLINE_MS :: int where "MIN_DEADLINE_MS = 60 * 60 * 1000"
definition MAX_DEADLINE_MS :: int where "MAX_DEADLINE_MS = 30 * 24 * 60 * 60 * 1000"

definition is_base32 :: "char \<Rightarrow> bool" where
  "is_base32 c = ((CHR ''A'' \<le> c \<and> c \<le> CHR ''Z'') \<or> (CHR ''2'' \<le> c \<and> c \<le> CHR ''7''))"

definition STELLAR_ADDRESS_RE :: "string \<Rightarrow> bool" where
  "STELLAR_ADDRESS_RE s = (length s = 56 \<and> hd s = CHR ''G'' \<and> list_all is_base32 (tl s))"

section \<open>Operations\<close>

definition resetStore :: "dispute_store \<Rightarrow> dispute_store" where
  "resetStore store = []"

definition validateDisputeInput :: "DisputeInput \<Rightarrow> string list" where
  "validateDisputeInput input =
     (if di_filedBy input = '''' then [''filedBy is required'']
      else if \<not> STELLAR_ADDRESS_RE (di_filedBy input) then [''filedBy must be a valid Stellar address'']
      else []) @
     (if di_respondent input = '''' then [''respondent is required'']
      else if \<not> STELLAR_ADDRESS_RE (di_respondent input) then [''respondent must be a valid Stellar address'']
      else []) @
     (if di_filedBy input \<noteq> '''' \<and> di_respondent input \<noteq> '''' \<and> di_filedBy input = di_respondent input
      then [''filedBy and respondent must differ''] else []) @
     (if di_reason input = '''' then [''reason is required'']
      else if length (trim (di_reason input)) < 10 then [''reason must be at least 10 characters'']
      else []) @
     (if length (di_evidence input) = 0 then [''at least one piece of evidence is required''] else []) @
     (case di_deadlineMs input of
        None \<Rightarrow> []
      | Some ms \<Rightarrow>
          if ms < MIN_DEADLINE_MS
          then [''deadline must be at least '' @ bigint_to_string MIN_DEADLINE_MS @ ''ms from now'']
          else if ms > MAX_DEADLINE_MS
          then [''deadline must be at most '' @ bigint_to_string MAX_DEADLINE_MS @ ''ms from now'']
          else [])"

definition submitDispute ::
  "string \<Rightarrow> int \<Rightarrow> DisputeInput \<Rightarrow> string \<Rightarrow> (dispute_store, dispute_error, Dispute) exec" where
  "submitDispute uuid now input tenantId store =
     (let errors = validateDisputeInput input
      in if length errors > 0 then (Inl (InvalidDispute errors), store)
         else
           let dispute = \<lparr>dp_id = uuid, dp_tenantId = tenantId, dp_filedBy = di_filedBy input,
                 dp_respondent = di_respondent input, dp_reason = di_reason input,
                 dp_evidence = di_evidence input, dp_status = DPending, dp_createdAt = now,
                 dp_deadline = map_option (\<lambda>ms. now + ms) (di_deadlineMs input), dp_resolution = None\<rparr>
           in (Inr dispute, map_set (dp_id dispute) dispute store))"

definition getDispute :: "string \<Rightarrow> dispute_store \<Rightarrow> Dispute option" where
  "getDispute i store = map_get store i"

definition isExpired :: "int \<Rightarrow> Dispute \<Rightarrow> bool" where
  "isExpired now dispute = (case dp_deadline dispute of None \<Rightarrow> False | Some d \<Rightarrow> now > d)"

definition resolveDispute ::
  "int \<Rightarrow> string \<Rightarrow> string \<Rightarrow> (dispute_store, dispute_error, Dispute) exec" where
  "resolveDispute now i resolution store =
     (case map_get store i of
        None \<Rightarrow> (Inl (DisputeNotFound i), store)
      | Some dispute \<Rightarrow>
          if isExpired now dispute
          then (Inl CannotResolveExpired, map_set i (dispute\<lparr>dp_status := DExpired\<rparr>) store)
          else if length (trim resolution) = 0 then (Inl ResolutionRequired, store)
          else if \<not> success (tryDisputeTransition (dp_status dispute) DResolved)
          then (Inl (DisputeTransition (dp_status dispute) DResolved), store)
          else
            let dispute' = dispute\<lparr>dp_status := DResolved, dp_resolution := Some resolution\<rparr>
            in (Inr dispute', map_set i dispute' store))"

definition dismissDispute :: "string \<Rightarrow> string \<Rightarrow> (dispute_store, dispute_error, Dispute) exec" where
  "dismissDispute i reason store =
     (case map_get store i of
        None \<Rightarrow> (Inl (DisputeNotFound i), store)
      | Some dispute \<Rightarrow>
          if length (trim reason) = 0 then (Inl DismissReasonRequired, store)
          else if \<not> success (tryDisputeTransition (dp_status dispute) DDismissed)
          then (Inl (DisputeTransition (dp_status dispute) DDismissed), store)
          else
            let dispute' = dispute\<lparr>dp_status := DDismissed, dp_resolution := Some reason\<rparr>
            in (Inr dispute', map_set i dispute' store))"

definition markUnderReview :: "string \<Rightarrow> (dispute_store, dispute_error, Dispute) exec" where
  "markUnderReview i store =
     (case map_get store i of
        None \<Rightarrow> (Inl (DisputeNotFound i), store)
      | Some dispute \<Rightarrow>
          if \<not> success (tryDisputeTransition (dp_status dispute) DUnderReview)
          then (Inl (DisputeTransition (dp_status dispute) DUnderReview), store)
          else
            let dispute' = dispute\<lparr>dp_status := DUnderReview\<rparr>
            in (Inr dispute', map_set i dispute' store))"

record ListDisputesFilter =
  lf_tenantId :: string
  lf_status :: "DisputeStatus option"

record dispute_cursor =
  cur_t :: "int option"
  cur_i :: string

record ListDisputesPagination =
  lp_limit :: nat
  lp_cursor :: "dispute_cursor option"

record ListDisputesResult =
  ld_data :: "Dispute list"
  ld_hasMore :: bool

definition dispute_cmp :: "(string \<Rightarrow> string \<Rightarrow> int) \<Rightarrow> Dispute \<Rightarrow> Dispute \<Rightarrow> int" where
  "dispute_cmp localeCompare a b =
     (let timeDiff = dp_createdAt b - dp_createdAt a
      in if timeDiff \<noteq> 0 then timeDiff else localeCompare (dp_id b) (dp_id a))"

definition after_cursor :: "dispute_cursor \<Rightarrow> Dispute \<Rightarrow> bool" where
  "after_cursor c d =
     (case cur_t c of
        None \<Rightarrow> False
      | Some cursorTimeMs \<Rightarrow>
          dp_createdAt d < cursorTimeMs \<or> (dp_createdAt d = cursorTimeMs \<and> dp_id d < cur_i c))"

definition listDisputes ::
  "(string \<Rightarrow> string \<Rightarrow> int) \<Rightarrow> ListDisputesFilter \<Rightarrow> ListDisputesPagination \<Rightarrow> dispute_store \<Rightarrow> ListDisputesResult" where
  "listDisputes localeCompare flt pagination store =
     (let results = filter (\<lambda>d. dp_tenantId d = lf_tenantId flt) (map_values store);
          results = (case lf_status flt of None \<Rightarrow> results
                     | Some st \<Rightarrow> filter (\<lambda>d. dp_status d = st) results);
          results = js_sort (dispute_cmp localeCompare) results;
          results = (case lp_cursor pagination of None \<Rightarrow> results
                     | Some c \<Rightarrow> filter (after_cursor c) results);
          page = take_page (lp_limit pagination) results
      in \<lparr>ld_data = fst page, ld_hasMore = snd page\<rparr>)"

section \<open>Calls in sequence\<close>

datatype dispute_call =
    Submit string int DisputeInput string
  | Resolve int string string
  | Dismiss string string
  | MarkReview string

fun dispute_step :: "dispute_store \<Rightarrow> dispute_call \<Rightarrow> dispute_store" where
  "dispute_step store (Submit uuid now input tenant) = snd (submitDispute uuid now input tenant store)"
| "dispute_step store (Resolve now i body) = snd (resolveDispute now i body store)"
| "dispute_step store (Dismiss i body) = snd (dismissDispute i body store)"
| "dispute_step store (MarkReview i) = snd (markUnderReview i store)"

fun submits :: "string \<Rightarrow> dispute_call \<Rightarrow> bool" where
  "submits k (Submit uuid _ _ _) = (uuid = k)"
| "submits k _ = False"

text \<open>A verdict is recorded exactly by resolving or dismissing, and an open dispute has none.\<close>

definition dispute_ok :: "string \<Rightarrow> Dispute \<Rightarrow> bool" where
  "dispute_ok k d \<longleftrightarrow> dp_id d = k \<and>
     (dp_status d \<in> {DResolved, DDismissed} \<longrightarrow> (\<exists>t. dp_resolution d = Some t \<and> trim t \<noteq> [])) \<and>
     (dp_status d \<in> {DPending, DUnderReview} \<longrightarrow> dp_resolution d = None)"

definition disputes_wf :: "dispute_store \<Rightarrow> bool" where
  "disputes_wf store \<longleftrightarrow> map_wf store \<and> (\<forall>k d. map_get store k = Some d \<longrightarrow> dispute_ok k d)"

lemma disputes_wf_set: "disputes_wf store \<Longrightarrow> dispute_ok k d \<Longrightarrow> disputes_wf (map_set k d store)"
  by (auto simp: disputes_wf_def map_wf_set store_simps)

lemma try_dispute [simp]: "success (tryDisputeTransition a b) = isValidTransition a b"
  by (simp add: tryDisputeTransition_def dispute_tm.try_success isValidTransition_def)

lemma dispute_step_wf: "disputes_wf store \<Longrightarrow> disputes_wf (dispute_step store c)"
proof (cases c)
  case (Submit uuid now input tenant)
  assume "disputes_wf store"
  then show ?thesis
    using Submit by (auto simp: submitDispute_def Let_def dispute_ok_def intro: disputes_wf_set)
next
  case (Resolve now i body)
  assume "disputes_wf store"
  then show ?thesis
    using Resolve
    by (auto simp: resolveDispute_def Let_def disputes_wf_def [of store] dispute_ok_def
        intro!: disputes_wf_set split: option.splits)
next
  case (Dismiss i body)
  assume "disputes_wf store"
  then show ?thesis
    using Dismiss
    by (auto simp: dismissDispute_def Let_def disputes_wf_def [of store] dispute_ok_def
        intro!: disputes_wf_set split: option.splits)
next
  case (MarkReview i)
  assume "disputes_wf store"
  then show ?thesis
    using MarkReview
    by (auto simp: markUnderReview_def Let_def disputes_wf_def [of store] dispute_ok_def dispute_valid_iff
        intro!: disputes_wf_set split: option.splits)
qed

interpretation dispute_sys: step_system dispute_step disputes_wf
  by unfold_locales (rule dispute_step_wf)

text \<open>How one call may change one dispute.\<close>

definition dispute_evolves :: "Dispute \<Rightarrow> Dispute \<Rightarrow> bool" where
  "dispute_evolves d d' \<longleftrightarrow>
     dp_id d' = dp_id d \<and> dp_tenantId d' = dp_tenantId d \<and> dp_filedBy d' = dp_filedBy d \<and>
     dp_respondent d' = dp_respondent d \<and> dp_deadline d' = dp_deadline d \<and>
     (\<lambda>a b. isValidTransition a b \<or> b = DExpired)\<^sup>*\<^sup>* (dp_status d) (dp_status d') \<and>
     (dp_resolution d \<noteq> None \<longrightarrow> dp_resolution d' = dp_resolution d) \<and>
     (dp_status d \<in> {DResolved, DDismissed, DExpired} \<longrightarrow>
        dp_resolution d' = dp_resolution d \<and> dp_status d' \<in> {dp_status d, DExpired})"

lemma dispute_evolves_refl: "dispute_evolves d d"
  by (simp add: dispute_evolves_def)

lemma dispute_evolves_trans:
  assumes "dispute_evolves a b" "dispute_evolves b c"
  shows "dispute_evolves a c"
proof -
  note ab = assms(1) [unfolded dispute_evolves_def] and bc = assms(2) [unfolded dispute_evolves_def]
  have "(\<lambda>a b. isValidTransition a b \<or> b = DExpired)\<^sup>*\<^sup>* (dp_status a) (dp_status c)"
    by (rule rtranclp_trans [of _ _ "dp_status b"]) (simp_all only: ab bc)
  moreover have "dp_resolution a \<noteq> None \<longrightarrow> dp_resolution c = dp_resolution a" using ab bc by metis
  moreover have "dp_resolution c = dp_resolution a \<and> dp_status c \<in> {dp_status a, DExpired}"
    if "dp_status a \<in> {DResolved, DDismissed, DExpired}"
  proof -
    have b: "dp_resolution b = dp_resolution a" "dp_status b \<in> {dp_status a, DExpired}" using ab that by blast+
    then have "dp_status b \<in> {DResolved, DDismissed, DExpired}" using that by (metis insert_iff singletonD)
    then have "dp_resolution c = dp_resolution b" "dp_status c \<in> {dp_status b, DExpired}" using bc by blast+
    with b show ?thesis by (metis insert_iff singletonD)
  qed
  ultimately show ?thesis unfolding dispute_evolves_def using ab bc by (intro conjI impI) simp_all
qed

lemma dispute_step_evolves:
  assumes "disputes_wf store" "map_get store k = Some d" "\<not> submits k c"
  shows "\<exists>d'. map_get (dispute_step store c) k = Some d' \<and> dispute_evolves d d'"
proof -
  have ok: "dispute_ok k d" using assms by (simp add: disputes_wf_def)
  show ?thesis
  proof (cases c)
    case (Submit uuid now input tenant)
    with assms show ?thesis by (auto simp: submitDispute_def Let_def store_simps dispute_evolves_refl)
  next
    case (Resolve now i body)
    with assms ok show ?thesis
      by (cases "i = k")
        (auto simp: resolveDispute_def Let_def store_simps dispute_evolves_def dispute_ok_def dispute_valid_iff
          split: option.splits)
  next
    case (Dismiss i body)
    with assms ok show ?thesis
      by (cases "i = k")
        (auto simp: dismissDispute_def Let_def store_simps dispute_evolves_def dispute_ok_def dispute_valid_iff
          split: option.splits)
  next
    case (MarkReview i)
    with assms ok show ?thesis
      by (cases "i = k")
        (auto simp: markUnderReview_def Let_def store_simps dispute_evolves_def dispute_ok_def dispute_valid_iff
          split: option.splits)
  qed
qed

lemma dispute_run_evolves:
  assumes "disputes_wf store" "map_get store k = Some d" "list_all (\<lambda>c. \<not> submits k c) cs"
  shows "\<exists>d'. map_get (foldl dispute_step store cs) k = Some d' \<and> dispute_evolves d d'"
  using assms
proof (induction cs arbitrary: store d)
  case Nil
  then show ?case by (simp add: dispute_evolves_refl)
next
  case (Cons c cs)
  obtain d1 where d1: "map_get (dispute_step store c) k = Some d1" "dispute_evolves d d1"
    using dispute_step_evolves [OF Cons.prems(1,2)] Cons.prems(3) by auto
  obtain d2 where "map_get (foldl dispute_step (dispute_step store c) cs) k = Some d2" "dispute_evolves d1 d2"
    using Cons.IH [OF dispute_step_wf [OF Cons.prems(1)] d1(1)] Cons.prems(3) by auto
  with d1(2) show ?case using dispute_evolves_trans by fastforce
qed

section \<open>Listing\<close>

text \<open>The order of the listing: newest first, then by descending id.\<close>

definition listed_after :: "Dispute \<Rightarrow> Dispute \<Rightarrow> bool" where
  "listed_after a b \<longleftrightarrow>
     dp_createdAt b < dp_createdAt a \<or> (dp_createdAt b = dp_createdAt a \<and> dp_id b < dp_id a)"

definition matching :: "ListDisputesFilter \<Rightarrow> dispute_store \<Rightarrow> Dispute list" where
  "matching flt store = filter (\<lambda>d. dp_tenantId d = lf_tenantId flt \<and>
     (case lf_status flt of None \<Rightarrow> True | Some st \<Rightarrow> dp_status d = st)) (map_values store)"

definition all_pages :: "(string \<Rightarrow> string \<Rightarrow> int) \<Rightarrow> ListDisputesFilter \<Rightarrow> dispute_store \<Rightarrow> Dispute list" where
  "all_pages localeCompare flt store = js_sort (dispute_cmp localeCompare) (matching flt store)"

text \<open>What the listing needs of \<open>localeCompare\<close>: on the ids in use it orders as \<open><\<close> does.\<close>

definition compares_ids :: "(string \<Rightarrow> string \<Rightarrow> int) \<Rightarrow> dispute_store \<Rightarrow> bool" where
  "compares_ids lc store \<longleftrightarrow>
     (\<forall>a \<in> fst ` set store. \<forall>b \<in> fst ` set store. (lc a b < 0 \<longleftrightarrow> a < b) \<and> (lc a b = 0 \<longleftrightarrow> a = b))"

lemma list_page:
  "listDisputes lc flt pg store =
     (let rs = (case lp_cursor pg of None \<Rightarrow> all_pages lc flt store
                | Some c \<Rightarrow> filter (after_cursor c) (all_pages lc flt store))
      in \<lparr>ld_data = take (lp_limit pg) rs, ld_hasMore = lp_limit pg < length rs\<rparr>)"
proof -
  have m: "(case lf_status flt of None \<Rightarrow> filter (\<lambda>d. dp_tenantId d = lf_tenantId flt) (map_values store)
      | Some st \<Rightarrow> filter (\<lambda>d. dp_status d = st) (filter (\<lambda>d. dp_tenantId d = lf_tenantId flt) (map_values store)))
      = matching flt store"
    by (auto simp: matching_def conj_commute split: option.splits)
  show ?thesis unfolding listDisputes_def Let_def m take_page all_pages_def fst_conv snd_conv ..
qed

lemma listed_after_trans: "listed_after a b \<Longrightarrow> listed_after b c \<Longrightarrow> listed_after a c"
  by (auto simp: listed_after_def)

lemma dispute_key:
  assumes "disputes_wf store" "d \<in> set (map_values store)"
  shows "map_get store (dp_id d) = Some d" "dp_id d \<in> fst ` set store"
proof -
  obtain k where k: "map_get store k = Some d"
    using assms map_values_get [of store d] unfolding disputes_wf_def by blast
  moreover have "dp_id d = k" using k assms(1) by (simp add: disputes_wf_def dispute_ok_def)
  ultimately show "map_get store (dp_id d) = Some d" by simp
  then show "dp_id d \<in> fst ` set store" using map_of_SomeD by force
qed

lemma dispute_same_id:
  assumes "disputes_wf store" "a \<in> set (map_values store)" "b \<in> set (map_values store)" "dp_id a = dp_id b"
  shows "a = b"
  using dispute_key(1) [OF assms(1,2)] dispute_key(1) [OF assms(1,3)] assms(4) by (metis option.inject)

lemma listed_after_total: "dp_id a \<noteq> dp_id b \<Longrightarrow> listed_after a b \<or> listed_after b a"
  unfolding listed_after_def
  using linorder_less_linear [of "dp_createdAt a" "dp_createdAt b"] linorder_less_linear [of "dp_id a" "dp_id b"]
  by metis

lemma dispute_cmp_iff:
  assumes "disputes_wf store" "compares_ids lc store" "a \<in> set (map_values store)" "b \<in> set (map_values store)"
  shows "dispute_cmp lc a b \<le> 0 \<longleftrightarrow> a = b \<or> listed_after a b"
proof (cases "dp_createdAt a = dp_createdAt b")
  case True
  have lc: "(lc (dp_id b) (dp_id a) < 0 \<longleftrightarrow> dp_id b < dp_id a) \<and> (lc (dp_id b) (dp_id a) = 0 \<longleftrightarrow> dp_id b = dp_id a)"
    using assms(2) dispute_key(2) [OF assms(1,4)] dispute_key(2) [OF assms(1,3)] unfolding compares_ids_def by blast
  have "dispute_cmp lc a b \<le> 0 \<longleftrightarrow> lc (dp_id b) (dp_id a) < 0 \<or> lc (dp_id b) (dp_id a) = 0"
    unfolding dispute_cmp_def Let_def True by auto
  moreover have "listed_after a b \<longleftrightarrow> dp_id b < dp_id a" unfolding listed_after_def True by blast
  ultimately show ?thesis using lc dispute_same_id [OF assms(1,3,4)] by metis
next
  case False
  then have "a \<noteq> b" by blast
  with False show ?thesis unfolding dispute_cmp_def listed_after_def Let_def by auto
qed

lemma all_pages_sorted:
  assumes "disputes_wf store" "compares_ids lc store"
  shows "sorted_wrt listed_after (all_pages lc flt store)"
proof -
  let ?D = "set (map_values store)"
  note cmp = dispute_cmp_iff [OF assms]
  have laws: "comparator (dispute_cmp lc) ?D"
  proof
    show "dispute_cmp lc a b \<le> 0 \<or> dispute_cmp lc b a \<le> 0" if "a \<in> ?D" "b \<in> ?D" for a b
      using cmp [OF that] cmp [OF that(2,1)] listed_after_total dispute_same_id [OF assms(1) that] by blast
    show "dispute_cmp lc a c \<le> 0"
      if "a \<in> ?D" "b \<in> ?D" "c \<in> ?D" "dispute_cmp lc a b \<le> 0" "dispute_cmp lc b c \<le> 0" for a b c
      using cmp [OF that(1,2)] cmp [OF that(2,3)] cmp [OF that(1,3)] that(4,5) listed_after_trans
      by blast
  qed
  have sub: "set (matching flt store) \<subseteq> ?D" by (auto simp: matching_def)
  have "distinct (map_values store)"
  proof (rule distinct_map_values [where f = dp_id])
    show "map_wf store" using assms(1) by (simp add: disputes_wf_def)
    then show "dp_id v = k" if "(k, v) \<in> set store" for k v
      using assms(1) map_of_is_SomeI [of store k v] that by (simp add: disputes_wf_def dispute_ok_def map_wf_def)
  qed
  then have dist: "distinct (all_pages lc flt store)"
    unfolding all_pages_def by (simp add: matching_def)
  have srt: "sorted_wrt (\<lambda>a b. dispute_cmp lc a b \<le> 0) (all_pages lc flt store)"
    unfolding all_pages_def by (rule comparator.sorted_js_sort [OF laws sub])
  show ?thesis
  proof (rule sorted_wrt_strict [OF srt dist])
    fix a b
    assume "a \<in> set (all_pages lc flt store)" "b \<in> set (all_pages lc flt store)" "dispute_cmp lc a b \<le> 0"
    then show "a = b \<or> listed_after a b" using cmp [of a b] sub by (simp add: all_pages_def subset_iff)
  qed
qed

section \<open>Properties\<close>

text \<open>A verdict is final: starting from a well-formed store, whatever calls follow, a resolved or
  dismissed dispute keeps the recorded verdict, its parties and its deadline; its status stays or becomes
  expired, and resolved never becomes dismissed nor the other way round.\<close>

theorem dispute_verdict_final:
  assumes "disputes_wf store" and "getDispute k store = Some d" and "dp_status d \<in> {DResolved, DDismissed}"
    and "list_all (\<lambda>c. \<not> submits k c) calls"
  shows "disputes_wf (foldl dispute_step store calls) \<and>
    (\<exists>d'. getDispute k (foldl dispute_step store calls) = Some d' \<and>
      dp_resolution d' = dp_resolution d \<and> dp_resolution d' \<noteq> None \<and>
      dp_filedBy d' = dp_filedBy d \<and> dp_respondent d' = dp_respondent d \<and> dp_deadline d' = dp_deadline d \<and>
      dp_status d' \<in> {dp_status d, DExpired})"
proof -
  have ok: "dispute_ok k d" using assms(1,2) by (simp add: disputes_wf_def getDispute_def)
  obtain d' where d': "map_get (foldl dispute_step store calls) k = Some d'" "dispute_evolves d d'"
    using dispute_run_evolves [OF assms(1) _ assms(4)] assms(2) by (auto simp: getDispute_def)
  have "dp_resolution d' = dp_resolution d \<and> dp_status d' \<in> {dp_status d, DExpired}"
    using d'(2) assms(3) unfolding dispute_evolves_def by blast
  moreover have "dp_resolution d \<noteq> None" using ok assms(3) unfolding dispute_ok_def by blast
  ultimately show ?thesis
    using d' dispute_sys.run_inv [OF assms(1)] unfolding dispute_evolves_def getDispute_def by auto
qed

definition sample_dispute :: Dispute where
  "sample_dispute = \<lparr>dp_id = ''d1'', dp_tenantId = ''t'', dp_filedBy = ''A'', dp_respondent = ''B'',
     dp_reason = ''late payment'', dp_evidence = [''e''], dp_status = DResolved, dp_createdAt = 0,
     dp_deadline = Some 100, dp_resolution = Some ''refund''\<rparr>"

lemma sample_dispute_wf: "disputes_wf [(''d1'', sample_dispute)]"
  by (auto simp: disputes_wf_def dispute_ok_def sample_dispute_def map_wf_def trim_def is_ws_def)

theorem dispute_verdict_final_witness:
  "\<exists>d'. getDispute ''d1'' (foldl dispute_step [(''d1'', sample_dispute)]
      [Dismiss ''d1'' ''too late'', Resolve 200 ''d1'' ''other'', MarkReview ''d1'']) = Some d' \<and>
     dp_resolution d' = Some ''refund''"
  using dispute_verdict_final [OF sample_dispute_wf, of "''d1''" sample_dispute
      "[Dismiss ''d1'' ''too late'', Resolve 200 ''d1'' ''other'', MarkReview ''d1'']"]
  by (auto simp: getDispute_def sample_dispute_def)

text \<open>Claim C39. Resolving any recorded dispute after its deadline fails and marks it expired, also when it was
  already resolved or dismissed, although the lifecycle has no transition out of those statuses.\<close>

theorem resolve_overwrites_terminal:
  assumes "map_get store k = Some d" and "dp_deadline d = Some t" and "t < now"
    and "dp_status d \<in> {DResolved, DDismissed}"
  shows "resolveDispute now k body store = (Inl CannotResolveExpired, map_set k (d\<lparr>dp_status := DExpired\<rparr>) store) \<and>
    \<not> isValidTransition (dp_status d) DExpired"
  using assms by (auto simp: resolveDispute_def isExpired_def dispute_valid_iff)

theorem resolve_overwrites_terminal_witness:
  "fst (resolveDispute 101 ''d1'' ''x'' [(''d1'', sample_dispute)]) = Inl CannotResolveExpired \<and>
   map_get (snd (resolveDispute 101 ''d1'' ''x'' [(''d1'', sample_dispute)])) ''d1'' =
     Some (sample_dispute\<lparr>dp_status := DExpired\<rparr>)"
  using resolve_overwrites_terminal [of "[(''d1'', sample_dispute)]" "''d1''" sample_dispute 100 101 "''x''"]
  by (simp add: sample_dispute_def)

text \<open>Claim C23. Paging is complete and without repetition: as long as localeCompare orders the stored ids as
  \<open><\<close> does, there is one ordering of exactly the disputes the filter selects, newest first, such that the first
  page is its first \<open>limit\<close> entries, the page after the cursor of any entry starts right behind that entry, and
  \<open>hasMore\<close> tells whether entries are left.\<close>

theorem list_disputes_pages:
  assumes "disputes_wf store" and "compares_ids lc store"
  shows "\<exists>rs. mset rs = mset (matching flt store) \<and> distinct rs \<and> sorted_wrt listed_after rs \<and>
    listDisputes lc flt \<lparr>lp_limit = n, lp_cursor = None\<rparr> store =
      \<lparr>ld_data = take n rs, ld_hasMore = n < length rs\<rparr> \<and>
    (\<forall>i < length rs. listDisputes lc flt
        \<lparr>lp_limit = n, lp_cursor = Some \<lparr>cur_t = Some (dp_createdAt (rs ! i)), cur_i = dp_id (rs ! i)\<rparr>\<rparr> store =
      \<lparr>ld_data = take n (drop (Suc i) rs), ld_hasMore = Suc i + n < length rs\<rparr>)"
proof (intro exI conjI allI impI)
  let ?rs = "all_pages lc flt store"
  show srt: "sorted_wrt listed_after ?rs" by (rule all_pages_sorted [OF assms])
  have asym: "listed_after a b \<Longrightarrow> \<not> listed_after b a" for a b by (auto simp: listed_after_def)
  then show "distinct ?rs"
    using srt by (auto simp: distinct_conv_nth sorted_wrt_iff_nth_less) (metis linorder_neqE_nat)
  show "mset ?rs = mset (matching flt store)" by (simp add: all_pages_def)
  show "listDisputes lc flt \<lparr>lp_limit = n, lp_cursor = None\<rparr> store =
      \<lparr>ld_data = take n ?rs, ld_hasMore = n < length ?rs\<rparr>"
    by (simp add: list_page Let_def)
  fix i
  assume i: "i < length ?rs"
  have "after_cursor \<lparr>cur_t = Some (dp_createdAt (?rs ! i)), cur_i = dp_id (?rs ! i)\<rparr> = listed_after (?rs ! i)"
    by (rule ext) (simp add: after_cursor_def listed_after_def)
  then show "listDisputes lc flt
        \<lparr>lp_limit = n, lp_cursor = Some \<lparr>cur_t = Some (dp_createdAt (?rs ! i)), cur_i = dp_id (?rs ! i)\<rparr>\<rparr> store =
      \<lparr>ld_data = take n (drop (Suc i) ?rs), ld_hasMore = Suc i + n < length ?rs\<rparr>"
    using filter_after [OF srt i asym] by (auto simp: list_page Let_def)
qed

definition unit_compare :: "string \<Rightarrow> string \<Rightarrow> int" where
  "unit_compare a b = (if a < b then -1 else if a = b then 0 else 1)"

theorem list_disputes_pages_witness:
  "\<exists>rs. mset rs = mset (matching \<lparr>lf_tenantId = ''t'', lf_status = None\<rparr> [(''d1'', sample_dispute)]) \<and>
     listDisputes unit_compare \<lparr>lf_tenantId = ''t'', lf_status = None\<rparr> \<lparr>lp_limit = 5, lp_cursor = None\<rparr>
       [(''d1'', sample_dispute)] = \<lparr>ld_data = take 5 rs, ld_hasMore = 5 < length rs\<rparr>"
proof -
  have "compares_ids unit_compare [(''d1'', sample_dispute)]" by (simp add: compares_ids_def unit_compare_def)
  from list_disputes_pages [OF sample_dispute_wf this, of "\<lparr>lf_tenantId = ''t'', lf_status = None\<rparr>" 5]
  show ?thesis by blast
qed

end
