(* ===== verification/Voting.thy ===== *)
theory Voting
  imports Sorting
begin

text \<open>
  The voting stores of the governance services: weighted votes on proposals
  (\<open>src/src/services/governance/votes.ts\<close>), the arbitration log (\<open>arbitration.ts\<close>) and the slash requests
  decided by signer votes (\<open>slashingVotes.ts\<close>).  Each module-level \<open>Map\<close> is the state of its operations;
  the current time and generated ids are arguments.  Weights, thresholds and signer counts are
  integers.
\<close>

section \<open>Weighted votes\<close>

record Vote =
  vt_proposalId :: string
  vt_voter :: string
  vt_weight :: int
  vt_inFavor :: bool
  vt_castAt :: int

record VoteInput =
  vi_proposalId :: string
  vi_voter :: string
  vi_weight :: int
  vi_inFavor :: bool

type_synonym vote_store = "(string, Vote list) jsmap"

datatype vote_error = ProposalIdRequired | VoterRequired | WeightNotPositive | AlreadyVoted string string

definition castVote :: "int \<Rightarrow> VoteInput \<Rightarrow> (vote_store, vote_error, Vote) exec" where
  "castVote now input store =
     (if vi_proposalId input = '''' then (Inl ProposalIdRequired, store)
      else if vi_voter input = '''' then (Inl VoterRequired, store)
      else if vi_weight input \<le> 0 then (Inl WeightNotPositive, store)
      else
        let existing = (case map_get store (vi_proposalId input) of None \<Rightarrow> [] | Some vs \<Rightarrow> vs);
            alreadyVoted = list_ex (\<lambda>v. vt_voter v = vi_voter input) existing
        in if alreadyVoted then (Inl (AlreadyVoted (vi_voter input) (vi_proposalId input)), store)
           else
             let vote = \<lparr>vt_proposalId = vi_proposalId input, vt_voter = vi_voter input,
                   vt_weight = vi_weight input, vt_inFavor = vi_inFavor input, vt_castAt = now\<rparr>
             in (Inr vote, map_set (vi_proposalId input) (existing @ [vote]) store))"

definition getVotes :: "string \<Rightarrow> vote_store \<Rightarrow> Vote list" where
  "getVotes proposalId store = (case map_get store proposalId of None \<Rightarrow> [] | Some vs \<Rightarrow> vs)"

fun count_loop :: "Vote list \<Rightarrow> int \<times> int \<Rightarrow> int \<times> int" where
  "count_loop [] acc = acc"
| "count_loop (v # vs) (totalFor, totalAgainst) =
     count_loop vs (if vt_inFavor v then (totalFor + vt_weight v, totalAgainst)
                    else (totalFor, totalAgainst + vt_weight v))"

definition countVotes :: "string \<Rightarrow> vote_store \<Rightarrow> int \<times> int" where
  "countVotes proposalId store = count_loop (getVotes proposalId store) (0, 0)"

section \<open>The arbitration log\<close>

record ArbitrationEntry =
  ar_id :: string
  ar_disputeId :: string
  ar_arbiter :: string
  ar_decision :: string
  ar_reasoning :: string
  ar_timestamp :: int

record ArbitrationInput =
  ai_disputeId :: string
  ai_arbiter :: string
  ai_decision :: string
  ai_reasoning :: string

type_synonym arbitration_store = "(string, ArbitrationEntry) jsmap"

datatype arbitration_error = DisputeIdRequired | ArbiterRequired | DecisionRequired | ReasoningRequired

definition writeLog ::
  "string \<Rightarrow> int \<Rightarrow> ArbitrationInput \<Rightarrow> (arbitration_store, arbitration_error, ArbitrationEntry) exec" where
  "writeLog uuid now input store =
     (if ai_disputeId input = '''' then (Inl DisputeIdRequired, store)
      else if ai_arbiter input = '''' then (Inl ArbiterRequired, store)
      else if ai_decision input = '''' then (Inl DecisionRequired, store)
      else if length (trim (ai_reasoning input)) = 0 then (Inl ReasoningRequired, store)
      else
        let entry = \<lparr>ar_id = uuid, ar_disputeId = ai_disputeId input, ar_arbiter = ai_arbiter input,
              ar_decision = ai_decision input, ar_reasoning = ai_reasoning input, ar_timestamp = now\<rparr>
        in (Inr entry, map_set (ar_id entry) entry store))"

definition readLog :: "string \<Rightarrow> arbitration_store \<Rightarrow> ArbitrationEntry option" where
  "readLog i store = map_get store i"

definition by_timestamp :: "ArbitrationEntry \<Rightarrow> ArbitrationEntry \<Rightarrow> int" where
  "by_timestamp a b = ar_timestamp a - ar_timestamp b"

definition getLogsByDispute :: "string \<Rightarrow> arbitration_store \<Rightarrow> ArbitrationEntry list" where
  "getLogsByDispute disputeId store =
     js_sort by_timestamp (filter (\<lambda>e. ar_disputeId e = disputeId) (map_values store))"

definition getLogsByArbiter :: "string \<Rightarrow> arbitration_store \<Rightarrow> ArbitrationEntry list" where
  "getLogsByArbiter arbiter store =
     js_sort by_timestamp (filter (\<lambda>e. ar_arbiter e = arbiter) (map_values store))"

definition deleteLog :: "string \<Rightarrow> arbitration_store \<Rightarrow> bool \<times> arbitration_store" where
  "deleteLog i store = (map_has store i, map_delete i store)"

interpretation log_order: comparator by_timestamp UNIV
  by unfold_locales (auto simp: by_timestamp_def)

section \<open>Slash requests\<close>

datatype VoteChoice = Approve | Reject
datatype SlashRequestStatus = SlPending | SlApproved | SlRejected

record SlashVote =
  sv_voterId :: string
  sv_choice :: VoteChoice
  sv_timestamp :: int

record SlashRequest =
  sl_id :: string
  sl_targetAddress :: string
  sl_reason :: string
  sl_requestedBy :: string
  sl_createdAt :: int
  sl_votes :: "SlashVote list"
  sl_status :: SlashRequestStatus
  sl_threshold :: int
  sl_totalSigners :: int

record CreateSlashRequestInput =
  cs_targetAddress :: string
  cs_reason :: string
  cs_requestedBy :: string
  cs_threshold :: "int option"
  cs_totalSigners :: "int option"

record VoteResult =
  vr_slashRequestId :: string
  vr_voterId :: string
  vr_choice :: VoteChoice
  vr_approveCount :: nat
  vr_rejectCount :: nat
  vr_status :: SlashRequestStatus

type_synonym slash_store = "(string, SlashRequest) jsmap"

datatype slash_error =
    ThresholdTooSmall
  | TotalBelowThreshold
  | AlreadyDecided SlashRequestStatus
  | VoterAlreadyVoted string

definition DEFAULT_THRESHOLD :: int where "DEFAULT_THRESHOLD = 3"
definition DEFAULT_TOTAL_SIGNERS :: int where "DEFAULT_TOTAL_SIGNERS = 5"

definition count_choice :: "VoteChoice \<Rightarrow> SlashVote list \<Rightarrow> nat" where
  "count_choice ch vs = length (filter (\<lambda>v. sv_choice v = ch) vs)"

definition computeStatus :: "SlashRequest \<Rightarrow> SlashRequestStatus" where
  "computeStatus req =
     (let approveCount = int (count_choice Approve (sl_votes req));
          rejectCount = int (count_choice Reject (sl_votes req))
      in if approveCount \<ge> sl_threshold req then SlApproved
         else
           let remainingVoters = sl_totalSigners req - int (length (sl_votes req))
           in if approveCount + remainingVoters < sl_threshold req then SlRejected
              else if rejectCount > sl_totalSigners req - sl_threshold req then SlRejected
              else SlPending)"

definition createSlashRequest ::
  "string \<Rightarrow> int \<Rightarrow> CreateSlashRequestInput \<Rightarrow> (slash_store, slash_error, SlashRequest) exec" where
  "createSlashRequest hexId now input store =
     (let resolvedThreshold = (case cs_threshold input of None \<Rightarrow> DEFAULT_THRESHOLD | Some t \<Rightarrow> t);
          resolvedTotal = (case cs_totalSigners input of None \<Rightarrow> DEFAULT_TOTAL_SIGNERS | Some n \<Rightarrow> n)
      in if resolvedThreshold < 1 then (Inl ThresholdTooSmall, store)
         else if resolvedTotal < resolvedThreshold then (Inl TotalBelowThreshold, store)
         else
           let req = \<lparr>sl_id = hexId, sl_targetAddress = cs_targetAddress input, sl_reason = cs_reason input,
                 sl_requestedBy = cs_requestedBy input, sl_createdAt = now, sl_votes = [],
                 sl_status = SlPending, sl_threshold = resolvedThreshold, sl_totalSigners = resolvedTotal\<rparr>
           in (Inr req, map_set (sl_id req) req store))"

definition submitVote ::
  "int \<Rightarrow> string \<Rightarrow> string \<Rightarrow> VoteChoice \<Rightarrow> (slash_store, slash_error, VoteResult option) exec" where
  "submitVote now slashRequestId voterId choice store =
     (case map_get store slashRequestId of
        None \<Rightarrow> (Inr None, store)
      | Some req \<Rightarrow>
          if sl_status req \<noteq> SlPending then (Inl (AlreadyDecided (sl_status req)), store)
          else if list_ex (\<lambda>v. sv_voterId v = voterId) (sl_votes req)
          then (Inl (VoterAlreadyVoted voterId), store)
          else
            let req1 = req\<lparr>sl_votes := sl_votes req @
                        [\<lparr>sv_voterId = voterId, sv_choice = choice, sv_timestamp = now\<rparr>]\<rparr>;
                req2 = req1\<lparr>sl_status := computeStatus req1\<rparr>
            in (Inr (Some \<lparr>vr_slashRequestId = sl_id req2, vr_voterId = voterId, vr_choice = choice,
                           vr_approveCount = count_choice Approve (sl_votes req2),
                           vr_rejectCount = count_choice Reject (sl_votes req2),
                           vr_status = sl_status req2\<rparr>),
                map_set slashRequestId req2 store))"

definition getSlashRequest :: "string \<Rightarrow> slash_store \<Rightarrow> SlashRequest option" where
  "getSlashRequest i store = map_get store i"

definition listSlashRequests ::
  "SlashRequestStatus option \<Rightarrow> nat \<Rightarrow> nat \<Rightarrow> slash_store \<Rightarrow> SlashRequest list \<times> nat" where
  "listSlashRequests status limit offset store =
     (let all = map_values store;
          filtered = (case status of None \<Rightarrow> all | Some st \<Rightarrow> filter (\<lambda>r. sl_status r = st) all)
      in (take limit (drop offset filtered), length filtered))"

definition resetSlashStore :: "slash_store \<Rightarrow> slash_store" where
  "resetSlashStore store = []"

section \<open>Each voter counts once\<close>

definition votes_ok :: "vote_store \<Rightarrow> bool" where
  "votes_ok store \<longleftrightarrow> (\<forall>p vs. map_get store p = Some vs \<longrightarrow>
     distinct (map vt_voter vs) \<and> (\<forall>v\<in>set vs. 0 < vt_weight v \<and> vt_proposalId v = p))"

definition vote_step :: "vote_store \<Rightarrow> int \<times> VoteInput \<Rightarrow> vote_store" where
  "vote_step store c = snd (castVote (fst c) (snd c) store)"

lemma vote_step_ok: "votes_ok store \<Longrightarrow> votes_ok (vote_step store c)"
  unfolding votes_ok_def vote_step_def castVote_def Let_def
  by (auto simp: store_simps list_ex_iff image_iff split: option.splits if_splits)

interpretation vote_sys: step_system vote_step votes_ok
  by unfold_locales (rule vote_step_ok)

definition weight_of :: "bool \<Rightarrow> Vote list \<Rightarrow> int" where
  "weight_of side vs = sum_list (map vt_weight (filter (\<lambda>v. vt_inFavor v = side) vs))"

lemma count_loop: "count_loop vs (a, b) = (a + weight_of True vs, b + weight_of False vs)"
  by (induction vs arbitrary: a b) (auto simp: weight_of_def)

section \<open>Slash decisions\<close>

lemma count_choice_simps [simp]:
  "count_choice ch [] = 0"
  "count_choice ch (vs @ [v]) = count_choice ch vs + (if sv_choice v = ch then 1 else 0)"
  by (simp_all add: count_choice_def)

lemma count_choice_total: "count_choice Approve vs + count_choice Reject vs = length vs"
proof (induction vs)
  case (Cons v vs)
  then show ?case by (cases "sv_choice v") (simp_all add: count_choice_def)
qed simp

lemma computeStatus_iff:
  assumes "1 \<le> sl_threshold r" "sl_threshold r \<le> sl_totalSigners r"
  shows "computeStatus r = SlApproved \<longleftrightarrow> sl_threshold r \<le> int (count_choice Approve (sl_votes r))"
    and "computeStatus r = SlPending \<longleftrightarrow> int (count_choice Approve (sl_votes r)) < sl_threshold r \<and>
      int (count_choice Reject (sl_votes r)) \<le> sl_totalSigners r - sl_threshold r"
  using count_choice_total [of "sl_votes r"] by (auto simp: computeStatus_def Let_def)

lemma computeStatus_status [simp]: "computeStatus (r\<lparr>sl_status := st\<rparr>) = computeStatus r"
  by (simp add: computeStatus_def Let_def)

definition slash_ok :: "string \<Rightarrow> SlashRequest \<Rightarrow> bool" where
  "slash_ok k r \<longleftrightarrow> sl_id r = k \<and> 1 \<le> sl_threshold r \<and> sl_threshold r \<le> sl_totalSigners r \<and>
     distinct (map sv_voterId (sl_votes r)) \<and> sl_status r = computeStatus r \<and>
     int (length (sl_votes r)) \<le> sl_totalSigners r"

definition slashes_ok :: "slash_store \<Rightarrow> bool" where
  "slashes_ok store \<longleftrightarrow> (\<forall>k r. map_get store k = Some r \<longrightarrow> slash_ok k r)"

datatype slash_call =
    CreateSlash string int CreateSlashRequestInput
  | SubmitVote int string string VoteChoice

fun slash_step :: "slash_store \<Rightarrow> slash_call \<Rightarrow> slash_store" where
  "slash_step store (CreateSlash i now input) = snd (createSlashRequest i now input store)"
| "slash_step store (SubmitVote now i voter choice) = snd (submitVote now i voter choice store)"

lemma slash_ok_vote:
  fixes ch now
  assumes ok: "slash_ok k r" and pend: "sl_status r = SlPending" and new: "\<not> list_ex (\<lambda>v. sv_voterId v = voter) (sl_votes r)"
  defines "r1 \<equiv> r\<lparr>sl_votes := sl_votes r @ [\<lparr>sv_voterId = voter, sv_choice = ch, sv_timestamp = now\<rparr>]\<rparr>"
  shows "slash_ok k (r1\<lparr>sl_status := computeStatus r1\<rparr>)"
proof -
  have "int (count_choice Approve (sl_votes r)) < sl_threshold r"
    "int (count_choice Reject (sl_votes r)) \<le> sl_totalSigners r - sl_threshold r"
    using ok pend computeStatus_iff(2) [of r] by (auto simp: slash_ok_def)
  then have "int (length (sl_votes r)) < sl_totalSigners r"
    using count_choice_total [of "sl_votes r"] by linarith
  then show ?thesis
    using ok new by (auto simp: slash_ok_def r1_def list_ex_iff)
qed

lemma slash_step_ok: "slashes_ok store \<Longrightarrow> slashes_ok (slash_step store c)"
proof (cases c)
  case (CreateSlash i now input)
  assume "slashes_ok store"
  with CreateSlash show ?thesis
    by (auto simp: slashes_ok_def createSlashRequest_def Let_def store_simps slash_ok_def computeStatus_def
        split: option.splits)
next
  case (SubmitVote now i voter choice)
  assume ok: "slashes_ok store"
  show ?thesis
  proof (cases "map_get store i")
    case None
    with ok SubmitVote show ?thesis by (simp add: submitVote_def)
  next
    case (Some r)
    then have "slash_ok i r" using ok by (simp add: slashes_ok_def)
    with slash_ok_vote [OF this, of voter choice now] ok Some SubmitVote show ?thesis
      by (auto simp: submitVote_def Let_def slashes_ok_def store_simps)
  qed
qed

interpretation slash_sys: step_system slash_step slashes_ok
  by unfold_locales (rule slash_step_ok)

fun creates :: "string \<Rightarrow> slash_call \<Rightarrow> bool" where
  "creates k (CreateSlash i _ _) = (i = k)"
| "creates k _ = False"

lemma slash_decided_step:
  assumes "map_get store k = Some r" "sl_status r \<noteq> SlPending" "\<not> creates k c"
  shows "map_get (slash_step store c) k = Some r"
proof (cases c)
  case (CreateSlash i now input)
  with assms show ?thesis by (auto simp: createSlashRequest_def Let_def store_simps)
next
  case (SubmitVote now i voter choice)
  with assms show ?thesis by (cases "i = k") (auto simp: submitVote_def Let_def store_simps split: option.splits)
qed

lemma slash_decided_run:
  assumes "map_get store k = Some r" "sl_status r \<noteq> SlPending" "list_all (\<lambda>c. \<not> creates k c) cs"
  shows "map_get (foldl slash_step store cs) k = Some r"
  using assms by (induction cs arbitrary: store) (simp_all add: slash_decided_step)

section \<open>Properties\<close>

text \<open>Claim C15. After any sequence of calls, for every slash request: no voter is counted twice, at most
  totalSigners votes are recorded, the request is approved exactly when threshold approvals are in, rejected
  exactly when so many rejections are in that the threshold is out of reach, and it is decided as soon as
  every signer has voted.\<close>

theorem slash_decision_sound:
  assumes "getSlashRequest k (foldl slash_step [] calls) = Some r"
  shows "distinct (map sv_voterId (sl_votes r)) \<and> int (length (sl_votes r)) \<le> sl_totalSigners r \<and>
    (sl_status r = SlApproved \<longleftrightarrow> sl_threshold r \<le> int (count_choice Approve (sl_votes r))) \<and>
    (sl_status r = SlRejected \<longleftrightarrow> sl_totalSigners r - sl_threshold r < int (count_choice Reject (sl_votes r))) \<and>
    (int (length (sl_votes r)) = sl_totalSigners r \<longrightarrow> sl_status r \<noteq> SlPending)"
proof -
  have "slashes_ok []" by (simp add: slashes_ok_def)
  then have ok: "slash_ok k r"
    using slash_sys.run_inv [of "[]" calls] assms by (simp add: getSlashRequest_def slashes_ok_def)
  then show ?thesis
    using computeStatus_iff [of r] count_choice_total [of "sl_votes r"]
    by (cases "sl_status r") (auto simp: slash_ok_def)
qed

definition sample_slash_calls :: "slash_call list" where
  "sample_slash_calls =
    [CreateSlash ''r1'' 0 \<lparr>cs_targetAddress = ''G'', cs_reason = ''x'', cs_requestedBy = ''a'',
       cs_threshold = Some 2, cs_totalSigners = Some 3\<rparr>,
     SubmitVote 1 ''r1'' ''a'' Approve, SubmitVote 2 ''r1'' ''a'' Approve, SubmitVote 3 ''r1'' ''b'' Approve]"

definition sample_slash_request :: SlashRequest where
  "sample_slash_request = \<lparr>sl_id = ''r1'', sl_targetAddress = ''G'', sl_reason = ''x'', sl_requestedBy = ''a'',
     sl_createdAt = 0, sl_votes = [\<lparr>sv_voterId = ''a'', sv_choice = Approve, sv_timestamp = 1\<rparr>,
       \<lparr>sv_voterId = ''b'', sv_choice = Approve, sv_timestamp = 3\<rparr>],
     sl_status = SlApproved, sl_threshold = 2, sl_totalSigners = 3\<rparr>"

lemma sample_slash_run: "foldl slash_step [] sample_slash_calls = [(''r1'', sample_slash_request)]"
  by code_simp

theorem slash_decision_sound_witness:
  "getSlashRequest ''r1'' (foldl slash_step [] sample_slash_calls) = Some sample_slash_request \<and>
   int (count_choice Approve (sl_votes sample_slash_request)) \<ge> 2"
  using slash_decision_sound [of "''r1''" sample_slash_calls sample_slash_request]
  by (simp add: sample_slash_run getSlashRequest_def sample_slash_request_def)

text \<open>A decision is final: a decided slash request is never changed by later calls, and every further
  vote on it is refused.\<close>

theorem slash_decision_final:
  assumes "getSlashRequest k store = Some r" and "sl_status r \<noteq> SlPending"
    and "list_all (\<lambda>c. \<not> creates k c) calls"
  shows "getSlashRequest k (foldl slash_step store calls) = Some r \<and>
    submitVote now k voter choice (foldl slash_step store calls) =
      (Inl (AlreadyDecided (sl_status r)), foldl slash_step store calls)"
  using slash_decided_run [of store k r calls] assms by (simp add: getSlashRequest_def submitVote_def)

theorem slash_decision_final_witness:
  "fst (submitVote 9 ''r1'' ''c'' Reject (foldl slash_step [(''r1'', sample_slash_request)]
     [SubmitVote 4 ''r1'' ''d'' Reject])) = Inl (AlreadyDecided SlApproved)"
  using slash_decision_final [of "''r1''" "[(''r1'', sample_slash_request)]" sample_slash_request
      "[SubmitVote 4 ''r1'' ''d'' Reject]" 9 "''c''" Reject]
  by (simp add: getSlashRequest_def sample_slash_request_def)

text \<open>However often a voter tries, each voter counts once per proposal: after any sequence of casts the
  tally of a proposal is the sum of the positive weights of distinct voters, split by side.\<close>

theorem vote_tally:
  "(let vs = getVotes p (foldl vote_step [] casts)
    in distinct (map vt_voter vs) \<and> list_all (\<lambda>v. 0 < vt_weight v) vs \<and>
       countVotes p (foldl vote_step [] casts) = (weight_of True vs, weight_of False vs))"
proof -
  have "votes_ok (foldl vote_step [] casts)" by (rule vote_sys.run_inv) (simp add: votes_ok_def)
  then show ?thesis
    by (auto simp: Let_def getVotes_def votes_ok_def countVotes_def count_loop list_all_iff split: option.splits)
qed

end
