(* ===== verification/Multisig.thy ===== *)
theory Multisig
  imports Prelude
begin

text \<open>
  Multi-signature proposals: \<open>MultiSigCoordinationService\<close> of \<open>src/src/services/governance/multisig.ts\<close> over the
  in-memory storage of \<open>inMemoryStorage.ts\<close>.  The storage hands out the stored object itself, so a
  change of a proposal is visible in the storage at once; between its last \<open>await\<close> and its writes no
  operation can be interrupted, which makes every call one step.  Emitted events are appended to a
  log.  The serialised form of \<open>redisStorage.ts\<close> is modelled with dates as times.
\<close>

section \<open>Data\<close>

datatype MultisigStatus = MPending | MApproved | MRejected | MExecuted | MCancelled | MExpired

record 'p MultisigProposal =
  ms_id :: string
  signers :: "string list"
  requiredSignatures :: int
  ms_action :: string
  signatures :: "(string, string) jsmap"
  slashingVotes :: "string list"
  payload :: 'p
  ms_status :: MultisigStatus
  ms_createdAt :: int
  expiresAt :: int

record 'p MultisigInput =
  mi_signers :: "string list"
  mi_requiredSignatures :: int
  mi_action :: string
  mi_payload :: 'p
  mi_ttlMs :: int

datatype multisig_event =
    ProposalCreated string
  | SignatureSubmitted string string string
  | ProposalApproved string
  | SlashingVoteAdded string string
  | ProposalExecuted string
  | ProposalRejected string string
  | ProposalExpired string

record 'p multisig_state =
  proposals :: "(string, 'p MultisigProposal) jsmap"
  emitted :: "multisig_event list"

datatype multisig_error =
    TooFewSigners
  | BadRequiredSignatures
  | ProposalNotFound string
  | CannotSign MultisigStatus
  | NotAuthorized string
  | AlreadySigned string
  | AlreadySlashVoted string
  | CannotExecute MultisigStatus
  | CannotReject MultisigStatus

section \<open>Storage\<close>

definition saveProposal :: "'p MultisigProposal \<Rightarrow> 'p multisig_state \<Rightarrow> 'p multisig_state" where
  "saveProposal p s = s\<lparr>proposals := map_set (ms_id p) p (proposals s)\<rparr>"

definition storage_getProposal :: "string \<Rightarrow> 'p multisig_state \<Rightarrow> 'p MultisigProposal option" where
  "storage_getProposal i s = map_get (proposals s) i"

definition updateProposal :: "'p MultisigProposal \<Rightarrow> 'p multisig_state \<Rightarrow> 'p multisig_state" where
  "updateProposal p s = s\<lparr>proposals := map_set (ms_id p) p (proposals s)\<rparr>"

definition emit :: "multisig_event \<Rightarrow> 'p multisig_state \<Rightarrow> 'p multisig_state" where
  "emit e s = s\<lparr>emitted := emitted s @ [e]\<rparr>"

section \<open>Operations\<close>

definition createProposal ::
  "string \<Rightarrow> int \<Rightarrow> 'p MultisigInput \<Rightarrow> ('p multisig_state, multisig_error, 'p MultisigProposal) exec" where
  "createProposal uuid now input s =
     (if length (mi_signers input) < 2 then (Inl TooFewSigners, s)
      else if mi_requiredSignatures input < 1 \<or> mi_requiredSignatures input > int (length (mi_signers input))
      then (Inl BadRequiredSignatures, s)
      else
        let proposal = \<lparr>ms_id = uuid, signers = mi_signers input,
              requiredSignatures = mi_requiredSignatures input, ms_action = mi_action input,
              signatures = [], slashingVotes = [], payload = mi_payload input, ms_status = MPending,
              ms_createdAt = now, expiresAt = now + mi_ttlMs input\<rparr>
        in (Inr proposal, emit (ProposalCreated uuid) (saveProposal proposal s)))"

definition checkExpiration ::
  "int \<Rightarrow> 'p MultisigProposal \<Rightarrow> 'p multisig_state \<Rightarrow> 'p MultisigProposal \<times> 'p multisig_state" where
  "checkExpiration now proposal s =
     (if ms_status proposal = MPending \<and> now > expiresAt proposal then
        let proposal' = proposal\<lparr>ms_status := MExpired\<rparr>
        in (proposal', emit (ProposalExpired (ms_id proposal')) (updateProposal proposal' s))
      else (proposal, s))"

definition getProposalOrThrow ::
  "string \<Rightarrow> ('p multisig_state, multisig_error, 'p MultisigProposal) exec" where
  "getProposalOrThrow i s =
     (case storage_getProposal i s of None \<Rightarrow> (Inl (ProposalNotFound i), s) | Some p \<Rightarrow> (Inr p, s))"

definition getProposal ::
  "int \<Rightarrow> string \<Rightarrow> 'p multisig_state \<Rightarrow> 'p MultisigProposal option \<times> 'p multisig_state" where
  "getProposal now i s =
     (case storage_getProposal i s of
        None \<Rightarrow> (None, s)
      | Some p \<Rightarrow> case checkExpiration now p s of (p', s') \<Rightarrow> (Some p', s'))"

definition submitSignature ::
  "int \<Rightarrow> string \<Rightarrow> string \<Rightarrow> string \<Rightarrow> ('p multisig_state, multisig_error, 'p MultisigProposal) exec" where
  "submitSignature now i signer signature =
     xbind (getProposalOrThrow i) (\<lambda>p0 s0.
       case checkExpiration now p0 s0 of (proposal, s) \<Rightarrow>
         if ms_status proposal \<noteq> MPending then (Inl (CannotSign (ms_status proposal)), s)
         else if signer \<notin> set (signers proposal) then (Inl (NotAuthorized signer), s)
         else if map_has (signatures proposal) signer then (Inl (AlreadySigned signer), s)
         else
           let p1 = proposal\<lparr>signatures := map_set signer signature (signatures proposal)\<rparr>;
               s1 = emit (SignatureSubmitted i signer signature) s;
               (p2, s2) =
                 (if int (length (signatures p1)) \<ge> requiredSignatures p1
                  then (p1\<lparr>ms_status := MApproved\<rparr>, emit (ProposalApproved (ms_id p1)) s1)
                  else (p1, s1))
           in (Inr p2, updateProposal p2 s2))"

definition rejectProposal :: "string \<Rightarrow> string \<Rightarrow> ('p multisig_state, multisig_error, unit) exec" where
  "rejectProposal i reason =
     xbind (getProposalOrThrow i) (\<lambda>proposal s.
       if ms_status proposal \<noteq> MPending \<and> ms_status proposal \<noteq> MApproved
       then (Inl (CannotReject (ms_status proposal)), s)
       else
         (Inr (), emit (ProposalRejected i reason) (updateProposal (proposal\<lparr>ms_status := MRejected\<rparr>) s)))"

definition addSlashingVote :: "int \<Rightarrow> string \<Rightarrow> string \<Rightarrow> ('p multisig_state, multisig_error, unit) exec" where
  "addSlashingVote now i voter =
     xbind (getProposalOrThrow i) (\<lambda>p0 s0.
       case checkExpiration now p0 s0 of (proposal, s) \<Rightarrow>
         if voter \<in> set (slashingVotes proposal) then (Inl (AlreadySlashVoted voter), s)
         else
           let p1 = proposal\<lparr>slashingVotes := set_add voter (slashingVotes proposal)\<rparr>;
               s1 = emit (SlashingVoteAdded i voter) (updateProposal p1 s)
           in if length (slashingVotes p1) \<ge> (length (signers p1) + 1) div 2
              then rejectProposal i ''Slashing threshold reached'' s1
              else (Inr (), s1))"

definition executeProposal :: "string \<Rightarrow> ('p multisig_state, multisig_error, 'p) exec" where
  "executeProposal i =
     xbind (getProposalOrThrow i) (\<lambda>proposal s.
       if ms_status proposal \<noteq> MApproved then (Inl (CannotExecute (ms_status proposal)), s)
       else
         let p1 = proposal\<lparr>ms_status := MExecuted\<rparr>
         in (Inr (payload p1), emit (ProposalExecuted i) (updateProposal p1 s)))"

section \<open>The serialised form\<close>

record 'p SerializedProposal =
  ser_id :: string
  ser_signers :: "string list"
  ser_requiredSignatures :: int
  ser_action :: string
  ser_signatures :: "(string \<times> string) list"
  ser_slashingVotes :: "string list"
  ser_payload :: 'p
  ser_status :: MultisigStatus
  ser_createdAt :: string
  ser_expiresAt :: string

definition serialize ::
  "(int \<Rightarrow> string) \<Rightarrow> 'p MultisigProposal \<Rightarrow> 'p SerializedProposal" where
  "serialize toISOString p =
     \<lparr>ser_id = ms_id p, ser_signers = signers p, ser_requiredSignatures = requiredSignatures p,
      ser_action = ms_action p, ser_signatures = signatures p, ser_slashingVotes = slashingVotes p,
      ser_payload = payload p, ser_status = ms_status p,
      ser_createdAt = toISOString (ms_createdAt p), ser_expiresAt = toISOString (expiresAt p)\<rparr>"

definition deserialize ::
  "(string \<Rightarrow> int) \<Rightarrow> 'p SerializedProposal \<Rightarrow> 'p MultisigProposal" where
  "deserialize parseDate r =
     \<lparr>ms_id = ser_id r, signers = ser_signers r, requiredSignatures = ser_requiredSignatures r,
      ms_action = ser_action r,
      signatures = foldl (\<lambda>m kv. map_set (fst kv) (snd kv) m) [] (ser_signatures r),
      slashingVotes = foldl (\<lambda>m v. set_add v m) [] (ser_slashingVotes r),
      payload = ser_payload r, ms_status = ser_status r,
      ms_createdAt = parseDate (ser_createdAt r), expiresAt = parseDate (ser_expiresAt r)\<rparr>"

definition storage_ttl :: "int \<Rightarrow> 'p MultisigProposal \<Rightarrow> int" where
  "storage_ttl now p = (expiresAt p - now) div 1000 + 86400"

section \<open>What one call may do to one proposal\<close>

definition prop_ok :: "string \<Rightarrow> 'p MultisigProposal \<Rightarrow> bool" where
  "prop_ok k p \<longleftrightarrow> ms_id p = k \<and> 1 \<le> requiredSignatures p \<and>
     map_wf (signatures p) \<and> fst ` set (signatures p) \<subseteq> set (signers p) \<and> distinct (slashingVotes p) \<and>
     (ms_status p \<in> {MApproved, MExecuted} \<longrightarrow> requiredSignatures p \<le> int (length (signatures p))) \<and>
     (ms_status p = MPending \<longrightarrow> int (length (signatures p)) < requiredSignatures p)"

fun status_moves :: "MultisigStatus \<Rightarrow> MultisigStatus \<Rightarrow> bool" where
  "status_moves MPending st = (st \<noteq> MCancelled)"
| "status_moves MApproved st = (st \<in> {MApproved, MExecuted, MRejected})"
| "status_moves st st' = (st' = st)"

lemma status_moves_trans: "status_moves a b \<Longrightarrow> status_moves b c \<Longrightarrow> status_moves a c"
  by (cases a; cases b) auto

definition evolves :: "'p MultisigProposal \<Rightarrow> 'p MultisigProposal \<Rightarrow> bool" where
  "evolves p p' \<longleftrightarrow> signers p' = signers p \<and> requiredSignatures p' = requiredSignatures p \<and>
     payload p' = payload p \<and> expiresAt p' = expiresAt p \<and> status_moves (ms_status p) (ms_status p') \<and>
     (ms_status p \<noteq> MPending \<longrightarrow> signatures p' = signatures p)"

lemma evolves_refl: "evolves p p"
  by (cases "ms_status p") (auto simp: evolves_def)

lemma evolves_trans:
  assumes "evolves p q" "evolves q r"
  shows "evolves p r"
proof -
  have "ms_status q \<noteq> MPending" if "ms_status p \<noteq> MPending"
    using assms(1) that by (cases "ms_status p") (auto simp: evolves_def)
  then show ?thesis using assms by (auto simp: evolves_def intro: status_moves_trans)
qed

definition executions :: "string \<Rightarrow> 'p multisig_state \<Rightarrow> nat" where
  "executions k s = length (filter (\<lambda>e. e = ProposalExecuted k) (emitted s))"

definition effect :: "string \<Rightarrow> 'p multisig_state \<Rightarrow> 'p multisig_state \<Rightarrow> bool" where
  "effect k s s' \<longleftrightarrow>
     (\<forall>j. j \<noteq> k \<longrightarrow> map_get (proposals s') j = map_get (proposals s) j \<and> executions j s' = executions j s) \<and>
     (case map_get (proposals s) k of
        None \<Rightarrow> map_get (proposals s') k = None \<and> executions k s' = executions k s
      | Some p \<Rightarrow> prop_ok k p \<longrightarrow>
          (\<exists>p'. map_get (proposals s') k = Some p' \<and> prop_ok k p' \<and> evolves p p' \<and>
             executions k s' = executions k s +
               (if ms_status p \<noteq> MExecuted \<and> ms_status p' = MExecuted then 1 else 0)))"

lemma effect_refl: "effect k s s"
  by (auto simp: effect_def evolves_refl split: option.splits)

lemma effect_trans:
  assumes "effect k s t" "effect k t u"
  shows "effect k s u"
proof (cases "map_get (proposals s) k")
  case None
  with assms show ?thesis by (auto simp: effect_def)
next
  case (Some p)
  show ?thesis
  proof (cases "prop_ok k p")
    case True
    obtain q where q: "map_get (proposals t) k = Some q" "prop_ok k q" "evolves p q"
        "executions k t = executions k s + (if ms_status p \<noteq> MExecuted \<and> ms_status q = MExecuted then 1 else 0)"
      using assms(1) Some True unfolding effect_def by auto
    obtain r where r: "map_get (proposals u) k = Some r" "prop_ok k r" "evolves q r"
        "executions k u = executions k t + (if ms_status q \<noteq> MExecuted \<and> ms_status r = MExecuted then 1 else 0)"
      using assms(2) q(1,2) unfolding effect_def by auto
    have "ms_status q = MExecuted \<Longrightarrow> ms_status r = MExecuted" "ms_status p = MExecuted \<Longrightarrow> ms_status q = MExecuted"
      using q(3) r(3) by (auto simp: evolves_def)
    with q r evolves_trans [OF q(3) r(3)] assms Some show ?thesis unfolding effect_def by auto
  next
    case False
    with assms Some show ?thesis unfolding effect_def by auto
  qed
qed

lemmas multisig_defs = saveProposal_def updateProposal_def emit_def storage_getProposal_def
  getProposalOrThrow_def Let_def

lemma effect_update:
  assumes "map_get (proposals s) k = Some p"
    and "prop_ok k p \<Longrightarrow> prop_ok k p' \<and> evolves p p'"
    and "proposals s' = map_set k p' (proposals s)"
    and "\<And>j. executions j s' = executions j s +
      (if j = k \<and> ms_status p \<noteq> MExecuted \<and> ms_status p' = MExecuted then 1 else 0)"
  shows "effect k s s'"
  using assms by (auto simp: effect_def store_simps)

lemma executions_simps [simp]:
  "executions j (emit e s) = executions j s + (if e = ProposalExecuted j then 1 else 0)"
  "executions j (updateProposal p s) = executions j s"
  "executions j (saveProposal p s) = executions j s"
  "proposals (emit e s) = proposals s"
  "proposals (updateProposal p s) = map_set (ms_id p) p (proposals s)"
  "proposals (saveProposal p s) = map_set (ms_id p) p (proposals s)"
  by (auto simp: executions_def emit_def updateProposal_def saveProposal_def)

text \<open>All stored proposals are in order.\<close>

definition multisig_ok :: "'p multisig_state \<Rightarrow> bool" where
  "multisig_ok s \<longleftrightarrow> (\<forall>k p. map_get (proposals s) k = Some p \<longrightarrow> prop_ok k p)"

lemma multisig_okD: "multisig_ok s \<Longrightarrow> map_get (proposals s) k = Some p \<Longrightarrow> prop_ok k p"
  by (simp add: multisig_ok_def)

lemma effect_ok:
  assumes "multisig_ok s" "effect k s s'"
  shows "multisig_ok s'"
  unfolding multisig_ok_def
proof (intro allI impI)
  fix j p
  assume p: "map_get (proposals s') j = Some p"
  show "prop_ok j p"
  proof (cases "j = k")
    case False
    with assms p show ?thesis by (simp add: effect_def multisig_ok_def)
  next
    case True
    with assms p show ?thesis
      by (cases "map_get (proposals s) k") (auto simp: effect_def multisig_ok_def)
  qed
qed

lemma expiry_effect:
  assumes "multisig_ok s" "map_get (proposals s) k = Some p" "checkExpiration now p s = (p', s')"
  shows "effect k s s' \<and> multisig_ok s' \<and> map_get (proposals s') k = Some p'"
proof -
  have ok: "prop_ok k p" using assms by (simp add: multisig_ok_def)
  have "effect k s s' \<and> map_get (proposals s') k = Some p'"
  proof (cases "ms_status p = MPending \<and> now > expiresAt p")
    case True
    then have p': "p' = p\<lparr>ms_status := MExpired\<rparr>" "s' = emit (ProposalExpired k) (updateProposal p' s)"
      using assms(3) ok by (auto simp: checkExpiration_def prop_ok_def Let_def)
    have "prop_ok k p'" "evolves p p'" using ok True by (auto simp: p'(1) prop_ok_def evolves_def)
    moreover have "ms_id p' = k" using ok by (simp add: p'(1) prop_ok_def)
    moreover have "ms_status p' = MExpired" by (simp add: p'(1))
    ultimately show ?thesis
      by (intro conjI effect_update [OF assms(2), of p']) (simp_all add: p'(2) store_simps)
  next
    case False
    then show ?thesis using assms by (auto simp: checkExpiration_def effect_refl)
  qed
  with effect_ok [OF assms(1)] show ?thesis by blast
qed

text \<open>A call on one proposal: fetch it, let it expire, then run the body on what was fetched.\<close>

lemma guarded_effect:
  assumes "multisig_ok s"
    and "\<And>p s1. multisig_ok s1 \<Longrightarrow> map_get (proposals s1) k = Some p \<Longrightarrow> effect k s1 (snd (body p s1))"
  shows "effect k s (snd (xbind (getProposalOrThrow k) (\<lambda>p0 s0. case checkExpiration now p0 s0 of (p, s1) \<Rightarrow> body p s1) s))"
proof (cases "map_get (proposals s) k")
  case None
  then show ?thesis by (simp add: getProposalOrThrow_def storage_getProposal_def effect_refl)
next
  case (Some p0)
  obtain p s1 where e: "checkExpiration now p0 s = (p, s1)" by (metis prod.collapse)
  then show ?thesis
    using expiry_effect [OF assms(1) Some e] assms(2) [of s1 p] Some effect_trans
    by (auto simp: getProposalOrThrow_def storage_getProposal_def)
qed

lemma plain_effect:
  assumes "\<And>p. map_get (proposals s) k = Some p \<Longrightarrow> effect k s (snd (body p s))"
  shows "effect k s (snd (xbind (getProposalOrThrow k) body s))"
  using assms by (cases "map_get (proposals s) k")
    (auto simp: getProposalOrThrow_def storage_getProposal_def effect_refl)

lemma sign_ok:
  fixes sg
  assumes "prop_ok k p" "ms_status p = MPending" "signer \<in> set (signers p)" "\<not> map_has (signatures p) signer"
  defines "p1 \<equiv> p\<lparr>signatures := map_set signer sg (signatures p)\<rparr>"
  shows "requiredSignatures p1 \<le> int (length (signatures p1)) \<Longrightarrow>
      prop_ok k (p1\<lparr>ms_status := MApproved\<rparr>) \<and> evolves p (p1\<lparr>ms_status := MApproved\<rparr>)"
    and "\<not> requiredSignatures p1 \<le> int (length (signatures p1)) \<Longrightarrow> prop_ok k p1 \<and> evolves p p1"
  using assms by (auto simp: prop_ok_def evolves_def map_wf_set)

lemma submitSignature_effect: "multisig_ok s \<Longrightarrow> effect k s (snd (submitSignature now k signer sg s))"
  unfolding submitSignature_def
proof (erule guarded_effect, goal_cases)
  case (1 p s1)
  have ok: "prop_ok k p" using 1 by (simp add: multisig_ok_def)
  then have id: "ms_id p = k" by (simp add: prop_ok_def)
  let ?p1 = "p\<lparr>signatures := map_set signer sg (signatures p)\<rparr>"
  consider "ms_status p = MPending" "signer \<in> set (signers p)" "\<not> map_has (signatures p) signer"
    | "\<not> (ms_status p = MPending \<and> signer \<in> set (signers p) \<and> \<not> map_has (signatures p) signer)" by blast
  then show ?case
  proof cases
    case 1: 1
    note sign = sign_ok [OF ok 1, of sg]
    show ?thesis
    proof (cases "requiredSignatures ?p1 \<le> int (length (signatures ?p1))")
      case True
      then show ?thesis
        using 1 sign(1) id by (simp add: Let_def)
          (rule effect_update [OF \<open>map_get (proposals s1) k = Some p\<close>, of "?p1\<lparr>ms_status := MApproved\<rparr>"]; simp)
    next
      case False
      then show ?thesis
        using 1 sign(2) id by (simp add: Let_def)
          (rule effect_update [OF \<open>map_get (proposals s1) k = Some p\<close>, of ?p1]; simp)
    qed
  next
    case 2
    then show ?thesis by (auto simp: effect_refl)
  qed
qed

lemma rejectProposal_effect: "multisig_ok s \<Longrightarrow> effect k s (snd (rejectProposal k reason s))"
  unfolding rejectProposal_def
proof (rule plain_effect, goal_cases)
  case (1 p)
  have ok: "prop_ok k p" using 1 by (simp add: multisig_ok_def)
  show ?case
  proof (cases "ms_status p = MPending \<or> ms_status p = MApproved")
    case True
    then have "prop_ok k (p\<lparr>ms_status := MRejected\<rparr>)" "evolves p (p\<lparr>ms_status := MRejected\<rparr>)" "ms_id p = k"
      using ok by (auto simp: prop_ok_def evolves_def)
    then have "effect k s (emit (ProposalRejected k reason) (updateProposal (p\<lparr>ms_status := MRejected\<rparr>) s))"
      by (intro effect_update [OF 1(2), of "p\<lparr>ms_status := MRejected\<rparr>"]) simp_all
    with True show ?thesis by auto
  next
    case False
    then show ?thesis by (auto simp: effect_refl)
  qed
qed

lemma executeProposal_effect: "multisig_ok s \<Longrightarrow> effect k s (snd (executeProposal k s))"
  unfolding executeProposal_def
proof (rule plain_effect, goal_cases)
  case (1 p)
  have ok: "prop_ok k p" using 1 by (simp add: multisig_ok_def)
  show ?case
  proof (cases "ms_status p = MApproved")
    case True
    then have "prop_ok k (p\<lparr>ms_status := MExecuted\<rparr>)" "evolves p (p\<lparr>ms_status := MExecuted\<rparr>)" "ms_id p = k"
      using ok by (auto simp: prop_ok_def evolves_def)
    with True show ?thesis
      by (simp add: Let_def) (rule effect_update [OF 1(2), of "p\<lparr>ms_status := MExecuted\<rparr>"]; simp)
  next
    case False
    then show ?thesis by (auto simp: effect_refl)
  qed
qed

lemma addSlashingVote_effect: "multisig_ok s \<Longrightarrow> effect k s (snd (addSlashingVote now k voter s))"
  unfolding addSlashingVote_def
proof (erule guarded_effect, goal_cases)
  case (1 p s1)
  have ok: "prop_ok k p" using 1 by (simp add: multisig_ok_def)
  let ?p1 = "p\<lparr>slashingVotes := set_add voter (slashingVotes p)\<rparr>"
  let ?s2 = "emit (SlashingVoteAdded k voter) (updateProposal ?p1 s1)"
  show ?case
  proof (cases "voter \<in> set (slashingVotes p)")
    case False
    have "prop_ok k ?p1" "evolves p ?p1" "ms_id p = k"
      using ok evolves_refl [of p] by (auto simp: prop_ok_def evolves_def)
    then have e: "effect k s1 ?s2" by (intro effect_update [OF 1(2), of ?p1]) simp_all
    then show ?thesis
      using False effect_trans [OF e rejectProposal_effect [OF effect_ok [OF 1(1) e]]]
      by (simp add: Let_def)
  qed (simp add: effect_refl)
qed

lemma getProposal_effect:
  assumes "multisig_ok s"
  shows "effect k s (snd (getProposal now k s))"
proof (cases "map_get (proposals s) k")
  case (Some p)
  obtain p' s' where e: "checkExpiration now p s = (p', s')" by (metis prod.collapse)
  then show ?thesis using expiry_effect [OF assms Some e] Some by (simp add: getProposal_def storage_getProposal_def)
qed (simp add: getProposal_def storage_getProposal_def effect_refl)

section \<open>Sequences of calls\<close>

datatype 'p multisig_call =
    CallCreate string int "'p MultisigInput"
  | CallGet int string
  | CallSign int string string string
  | CallSlash int string string
  | CallExecute string
  | CallReject string string

fun multisig_step :: "'p multisig_state \<Rightarrow> 'p multisig_call \<Rightarrow> 'p multisig_state" where
  "multisig_step s (CallCreate uuid now input) = snd (createProposal uuid now input s)"
| "multisig_step s (CallGet now i) = snd (getProposal now i s)"
| "multisig_step s (CallSign now i signer sg) = snd (submitSignature now i signer sg s)"
| "multisig_step s (CallSlash now i voter) = snd (addSlashingVote now i voter s)"
| "multisig_step s (CallExecute i) = snd (executeProposal i s)"
| "multisig_step s (CallReject i reason) = snd (rejectProposal i reason s)"

fun creates_proposal :: "string \<Rightarrow> 'p multisig_call \<Rightarrow> bool" where
  "creates_proposal k (CallCreate uuid _ _) = (uuid = k)"
| "creates_proposal k _ = False"

lemma create_ok: "multisig_ok s \<Longrightarrow> multisig_ok (snd (createProposal uuid now input s))"
  by (auto simp: createProposal_def multisig_ok_def Let_def store_simps prop_ok_def)

lemma step_effect:
  "multisig_ok s \<Longrightarrow> (\<exists>uuid now input. c = CallCreate uuid now input) \<or> (\<exists>k. effect k s (multisig_step s c))"
  by (cases c) (auto intro: submitSignature_effect rejectProposal_effect executeProposal_effect
      addSlashingVote_effect getProposal_effect)

lemma multisig_step_ok: "multisig_ok s \<Longrightarrow> multisig_ok (multisig_step s c)"
  using step_effect [of s c] effect_ok [of s] create_ok by (cases c) auto

interpretation multisig_sys: step_system multisig_step multisig_ok
  by unfold_locales (rule multisig_step_ok)

text \<open>The view of one proposal that no later call creates again.\<close>

lemma multisig_step_row:
  assumes "multisig_ok s" "map_get (proposals s) k = Some p" "\<not> creates_proposal k c"
  shows "\<exists>p'. map_get (proposals (multisig_step s c)) k = Some p' \<and> evolves p p' \<and>
    executions k (multisig_step s c) = executions k s +
      (if ms_status p \<noteq> MExecuted \<and> ms_status p' = MExecuted then 1 else 0)"
proof -
  consider uuid now input where "c = CallCreate uuid now input" | j where "effect j s (multisig_step s c)"
    using step_effect [OF assms(1), of c] by blast
  then show ?thesis
  proof cases
    case 1
    with assms show ?thesis
      by (auto simp: createProposal_def Let_def store_simps evolves_refl)
  next
    case 2
    with assms multisig_okD [OF assms(1,2)] show ?thesis
      by (cases "j = k") (auto simp: effect_def evolves_refl)
  qed
qed

lemma multisig_run_row:
  assumes "multisig_ok s" "map_get (proposals s) k = Some p" "list_all (\<lambda>c. \<not> creates_proposal k c) cs"
  shows "\<exists>p'. map_get (proposals (foldl multisig_step s cs)) k = Some p' \<and> evolves p p' \<and>
    executions k (foldl multisig_step s cs) = executions k s +
      (if ms_status p \<noteq> MExecuted \<and> ms_status p' = MExecuted then 1 else 0)"
  using assms
proof (induction cs arbitrary: s p)
  case Nil
  then show ?case by (simp add: evolves_refl)
next
  case (Cons c cs)
  obtain q where q: "map_get (proposals (multisig_step s c)) k = Some q" "evolves p q"
      "executions k (multisig_step s c) = executions k s + (if ms_status p \<noteq> MExecuted \<and> ms_status q = MExecuted then 1 else 0)"
    using multisig_step_row [OF Cons.prems(1,2)] Cons.prems(3) by auto
  obtain r where r: "map_get (proposals (foldl multisig_step s (c # cs))) k = Some r" "evolves q r"
      "executions k (foldl multisig_step s (c # cs)) = executions k (multisig_step s c) +
        (if ms_status q \<noteq> MExecuted \<and> ms_status r = MExecuted then 1 else 0)"
    using Cons.IH [OF multisig_step_ok [OF Cons.prems(1)] q(1)] Cons.prems(3) by auto
  have "ms_status q = MExecuted \<Longrightarrow> ms_status r = MExecuted" "ms_status p = MExecuted \<Longrightarrow> ms_status q = MExecuted"
    using q(2) r(2) by (auto simp: evolves_def)
  with q r evolves_trans [OF q(2) r(2)] show ?case by auto
qed

section \<open>Collecting signatures\<close>

lemma sign_step:
  assumes "multisig_ok s" "map_get (proposals s) k = Some p" "ms_status p = MPending" "now \<le> expiresAt p"
    and "a \<in> set (signers p)" "a \<notin> fst ` set (signatures p)"
  shows "\<exists>p'. map_get (proposals (multisig_step s (CallSign now k a sg))) k = Some p' \<and>
    signers p' = signers p \<and> requiredSignatures p' = requiredSignatures p \<and> expiresAt p' = expiresAt p \<and>
    fst ` set (signatures p') = insert a (fst ` set (signatures p)) \<and>
    length (signatures p') = Suc (length (signatures p)) \<and>
    ms_status p' = (if requiredSignatures p \<le> int (Suc (length (signatures p))) then MApproved else MPending)"
proof -
  have "ms_id p = k" using multisig_okD [OF assms(1,2)] by (simp add: prop_ok_def)
  then show ?thesis
    using assms(2-) by (simp add: submitSignature_def getProposalOrThrow_def storage_getProposal_def
        checkExpiration_def map_has_iff length_map_set Let_def store_simps)
qed

lemma sign_run:
  assumes "multisig_ok s" "map_get (proposals s) k = Some p" "ms_status p = MPending"
    and "distinct (map fst sgs)" "fst ` set sgs \<subseteq> set (signers p) - fst ` set (signatures p)"
    and "list_all (\<lambda>x. fst (snd x) \<le> expiresAt p) sgs"
    and "int (length (signatures p) + length sgs) = requiredSignatures p"
  shows "\<exists>p'. map_get (proposals (foldl multisig_step s (map (\<lambda>(a, now, sg). CallSign now k a sg) sgs))) k = Some p' \<and>
    ms_status p' = MApproved"
  using assms
proof (induction sgs arbitrary: s p)
  case Nil
  then show ?case using multisig_okD [OF Nil.prems(1,2)] by (simp add: prop_ok_def)
next
  case (Cons x sgs)
  obtain a now sg where x: "x = (a, now, sg)" by (metis prod_cases3)
  let ?s1 = "multisig_step s (CallSign now k a sg)"
  obtain p1 where p1: "map_get (proposals ?s1) k = Some p1" "signers p1 = signers p"
      "requiredSignatures p1 = requiredSignatures p" "expiresAt p1 = expiresAt p"
      "fst ` set (signatures p1) = insert a (fst ` set (signatures p))"
      "length (signatures p1) = Suc (length (signatures p))"
      "ms_status p1 = (if requiredSignatures p \<le> int (Suc (length (signatures p))) then MApproved else MPending)"
    using sign_step [OF Cons.prems(1-3), of now a sg] Cons.prems(5,6) by (auto simp: x)
  show ?case
  proof (cases sgs)
    case Nil
    then show ?thesis using p1 Cons.prems(7) by (simp add: x)
  next
    case (Cons y ys)
    then have "ms_status p1 = MPending" using p1(7) Cons.prems(7) by simp
    moreover have "fst ` set sgs \<subseteq> set (signers p1) - fst ` set (signatures p1)"
    proof -
      have "a \<notin> fst ` set sgs" "fst ` set sgs \<subseteq> set (signers p) - fst ` set (signatures p)"
        using Cons.prems(4,5) by (simp_all add: x)
      then show ?thesis unfolding p1(2,5) by blast
    qed
    ultimately show ?thesis
      using Cons.IH [OF multisig_step_ok [OF Cons.prems(1)] p1(1)] Cons.prems(4,6,7) p1(3,4,6) by (simp add: x)
  qed
qed

section \<open>Properties\<close>

definition no_proposals :: "'p multisig_state" where
  "no_proposals = \<lparr>proposals = [], emitted = []\<rparr>"

lemma no_proposals_ok: "multisig_ok no_proposals"
  by (simp add: multisig_ok_def no_proposals_def)

text \<open>Claim C10. After any sequence of calls a proposal is approved or executed only if at least the required
  number of distinct signers signed it, all of them on the list the proposal was created with.\<close>

theorem multisig_threshold:
  assumes "storage_getProposal k (foldl multisig_step no_proposals calls) = Some p"
    and "ms_status p \<in> {MApproved, MExecuted}"
  shows "requiredSignatures p \<le> int (card (fst ` set (signatures p))) \<and>
    fst ` set (signatures p) \<subseteq> set (signers p)"
proof -
  have ok: "prop_ok k p"
    using multisig_sys.run_inv [OF no_proposals_ok, of calls] assms(1)
    by (auto simp: storage_getProposal_def intro: multisig_okD)
  then have "card (fst ` set (signatures p)) = length (signatures p)"
    using distinct_card [of "map fst (signatures p)"] by (simp add: prop_ok_def map_wf_def)
  then show ?thesis using ok assms(2) unfolding prop_ok_def by auto
qed

definition sample_multisig :: "unit MultisigInput" where
  "sample_multisig = \<lparr>mi_signers = [''a'', ''b'', ''c''], mi_requiredSignatures = 2, mi_action = ''slash'',
     mi_payload = (), mi_ttlMs = 100\<rparr>"

definition sample_multisig_calls :: "unit multisig_call list" where
  "sample_multisig_calls = [CallCreate ''p'' 0 sample_multisig, CallSign 1 ''p'' ''a'' ''x'',
     CallSign 2 ''p'' ''a'' ''y'', CallSign 3 ''p'' ''c'' ''z'', CallExecute ''p'']"

definition sample_executed :: "unit MultisigProposal" where
  "sample_executed = \<lparr>ms_id = ''p'', signers = [''a'', ''b'', ''c''], requiredSignatures = 2, ms_action = ''slash'',
     signatures = [(''a'', ''x''), (''c'', ''z'')], slashingVotes = [], payload = (), ms_status = MExecuted,
     ms_createdAt = 0, expiresAt = 100\<rparr>"

lemma sample_multisig_run:
  "map_get (proposals (foldl multisig_step no_proposals sample_multisig_calls)) ''p'' = Some sample_executed"
  by code_simp

theorem multisig_threshold_witness:
  "2 \<le> int (card (fst ` set (signatures sample_executed))) \<and> ms_status sample_executed = MExecuted"
  using multisig_threshold [of "''p''" sample_multisig_calls sample_executed] sample_multisig_run
  by (simp add: storage_getProposal_def sample_executed_def)

text \<open>Claim C11. Executed, rejected and expired are final and a proposal is executed at most once: over any later
  calls the status of a proposal moves only forward, its payload, signers and required count never change, and
  the number of executions grows by at most one, and only if it was still pending or approved.\<close>

theorem multisig_final:
  assumes "multisig_ok s" and "storage_getProposal k s = Some p"
    and "list_all (\<lambda>c. \<not> creates_proposal k c) calls"
  shows "\<exists>p'. storage_getProposal k (foldl multisig_step s calls) = Some p' \<and>
    status_moves (ms_status p) (ms_status p') \<and> payload p' = payload p \<and> signers p' = signers p \<and>
    requiredSignatures p' = requiredSignatures p \<and>
    executions k (foldl multisig_step s calls) \<le> executions k s + (if ms_status p \<in> {MPending, MApproved} then 1 else 0)"
proof -
  obtain p' where p': "map_get (proposals (foldl multisig_step s calls)) k = Some p'" "evolves p p'"
      "executions k (foldl multisig_step s calls) = executions k s +
        (if ms_status p \<noteq> MExecuted \<and> ms_status p' = MExecuted then 1 else 0)"
    using multisig_run_row [OF assms(1) _ assms(3)] assms(2) by (auto simp: storage_getProposal_def)
  then show ?thesis
    by (cases "ms_status p") (auto simp: storage_getProposal_def evolves_def)
qed

theorem multisig_final_witness:
  "\<exists>p'. storage_getProposal ''p'' (foldl multisig_step (foldl multisig_step no_proposals sample_multisig_calls)
      [CallExecute ''p'', CallReject ''p'' ''r'']) = Some p' \<and> ms_status p' = MExecuted"
  using multisig_final [OF multisig_sys.run_inv [OF no_proposals_ok], of "''p''" sample_multisig_calls
      sample_executed "[CallExecute ''p'', CallReject ''p'' ''r'']"] sample_multisig_run
  by (auto simp: storage_getProposal_def sample_executed_def)

text \<open>Claim C29. A pending proposal gets approved: when exactly the missing number of further distinct authorised
  signers sign it before it expires, it is approved.\<close>

theorem multisig_completes:
  assumes "multisig_ok s" and "storage_getProposal k s = Some p" and "ms_status p = MPending"
    and "distinct (map fst sgs)" and "fst ` set sgs \<subseteq> set (signers p) - fst ` set (signatures p)"
    and "list_all (\<lambda>x. fst (snd x) \<le> expiresAt p) sgs"
    and "int (length (signatures p) + length sgs) = requiredSignatures p"
  shows "\<exists>p'. storage_getProposal k (foldl multisig_step s (map (\<lambda>(a, now, sg). CallSign now k a sg) sgs)) = Some p' \<and>
    ms_status p' = MApproved"
  using sign_run [OF assms(1) _ assms(3-7)] assms(2) by (simp add: storage_getProposal_def)

theorem multisig_completes_witness:
  "\<exists>p'. storage_getProposal ''p'' (foldl multisig_step (multisig_step no_proposals (CallCreate ''p'' 0 sample_multisig))
      (map (\<lambda>(a, now, sg). CallSign now ''p'' a sg) [(''b'', 5, ''x''), (''a'', 6, ''y'')])) = Some p' \<and>
    ms_status p' = MApproved"
proof -
  let ?p = "sample_executed\<lparr>signatures := [], ms_status := MPending\<rparr>"
  have "storage_getProposal ''p'' (multisig_step no_proposals (CallCreate ''p'' 0 sample_multisig)) = Some ?p"
    by code_simp
  from multisig_completes [OF multisig_step_ok [OF no_proposals_ok] this, of "[(''b'', 5, ''x''), (''a'', 6, ''y'')]"]
  show ?thesis by (simp add: sample_executed_def)
qed

text \<open>Claim C40. Repeated signers can make a proposal impossible to approve: it is accepted as long as the
  required count does not exceed the length of the list, but when it exceeds the number of distinct signers no
  sequence of calls ever gets the proposal approved or executed.\<close>

theorem multisig_duplicate_signers_stuck:
  assumes "multisig_ok s" and "2 \<le> length (mi_signers input)"
    and "int (card (set (mi_signers input))) < mi_requiredSignatures input"
    and "mi_requiredSignatures input \<le> int (length (mi_signers input))"
    and "list_all (\<lambda>c. \<not> creates_proposal uuid c) calls"
  shows "\<exists>p p'. fst (createProposal uuid now input s) = Inr p \<and>
    storage_getProposal uuid (foldl multisig_step s (CallCreate uuid now input # calls)) = Some p' \<and>
    ms_status p' \<notin> {MApproved, MExecuted}"
proof -
  let ?s1 = "multisig_step s (CallCreate uuid now input)"
  have "1 \<le> mi_requiredSignatures input" using assms(3) by linarith
  then obtain p where p: "fst (createProposal uuid now input s) = Inr p" "map_get (proposals ?s1) uuid = Some p"
      "signers p = mi_signers input" "requiredSignatures p = mi_requiredSignatures input"
    using assms(2,4) by (auto simp: createProposal_def Let_def store_simps)
  have ok1: "multisig_ok ?s1" by (rule multisig_step_ok [OF assms(1)])
  obtain p' where p': "map_get (proposals (foldl multisig_step ?s1 calls)) uuid = Some p'" "evolves p p'"
    using multisig_run_row [OF ok1 p(2) assms(5)] by blast
  have ok: "prop_ok uuid p'" by (rule multisig_okD [OF multisig_sys.run_inv [OF ok1] p'(1)])
  have "length (signatures p') = card (fst ` set (signatures p'))"
    using ok distinct_card [of "map fst (signatures p')"] by (simp add: prop_ok_def map_wf_def)
  also have "\<dots> \<le> card (set (signers p'))" using ok by (auto simp: prop_ok_def intro: card_mono)
  finally have "int (length (signatures p')) < requiredSignatures p'"
    using p' p assms(3) by (simp add: evolves_def)
  then have "ms_status p' \<notin> {MApproved, MExecuted}" using ok unfolding prop_ok_def by auto
  with p p' show ?thesis by (auto simp: storage_getProposal_def)
qed

theorem multisig_duplicate_signers_stuck_witness:
  "\<exists>p'. storage_getProposal ''q'' (foldl multisig_step no_proposals
      [CallCreate ''q'' 0 (sample_multisig\<lparr>mi_signers := [''a'', ''a'']\<rparr>), CallSign 1 ''q'' ''a'' ''x'']) = Some p' \<and>
    ms_status p' \<notin> {MApproved, MExecuted}"
proof -
  have "\<exists>p p'. fst (createProposal ''q'' 0 (sample_multisig\<lparr>mi_signers := [''a'', ''a'']\<rparr>) no_proposals) = Inr p \<and>
      storage_getProposal ''q'' (foldl multisig_step no_proposals
        (CallCreate ''q'' 0 (sample_multisig\<lparr>mi_signers := [''a'', ''a'']\<rparr>) # [CallSign 1 ''q'' ''a'' ''x''])) = Some p' \<and>
      ms_status p' \<notin> {MApproved, MExecuted}"
    by (rule multisig_duplicate_signers_stuck [OF no_proposals_ok]) (simp_all add: sample_multisig_def)
  then show ?thesis by blast
qed

lemma map_rebuild: "distinct (map fst (m @ xs)) \<Longrightarrow> foldl (\<lambda>m kv. map_set (fst kv) (snd kv) m) m xs = m @ xs"
proof (induction xs arbitrary: m)
  case (Cons x xs)
  then have "map_set (fst x) (snd x) m = m @ [x]" by (simp add: map_set_fresh map_has_iff)
  with Cons show ?case by simp
qed simp

lemma set_rebuild: "distinct (m @ xs) \<Longrightarrow> foldl (\<lambda>m v. set_add v m) m xs = m @ xs"
  by (induction xs arbitrary: m) (auto simp: set_add_def)

text \<open>Claim C33. A stored proposal survives the Redis representation: reading back what was written gives the
  same proposal, for every proposal the service can have in its storage, provided dates survive their ISO form.\<close>

theorem proposal_roundtrip:
  assumes "multisig_ok s" and "storage_getProposal k s = Some p"
    and "parseDate (toISOString (ms_createdAt p)) = ms_createdAt p"
    and "parseDate (toISOString (expiresAt p)) = expiresAt p"
  shows "deserialize parseDate (serialize toISOString p) = p"
proof -
  have "prop_ok k p" using assms by (auto simp: storage_getProposal_def intro: multisig_okD)
  then have "distinct (map fst (signatures p))" "distinct (slashingVotes p)" by (auto simp: prop_ok_def map_wf_def)
  then show ?thesis
    using map_rebuild [of "[]" "signatures p"] set_rebuild [of "[]" "slashingVotes p"] assms(3,4)
    by (simp add: serialize_def deserialize_def)
qed

theorem proposal_roundtrip_witness:
  "deserialize bigint_of_string (serialize bigint_to_string sample_executed) = sample_executed"
proof -
  have dates: "bigint_of_string (bigint_to_string (ms_createdAt sample_executed)) = ms_createdAt sample_executed"
    "bigint_of_string (bigint_to_string (expiresAt sample_executed)) = expiresAt sample_executed"
    by code_simp+
  show ?thesis
    using proposal_roundtrip [OF multisig_sys.run_inv [OF no_proposals_ok], of "''p''" sample_multisig_calls
        sample_executed, OF _ dates] sample_multisig_run
    by (simp add: storage_getProposal_def)
qed

end
