(* ===== verification/RingBuffer.thy ===== *)
theory RingBuffer
  imports Prelude
begin

text \<open>
  The ring buffer of the job scheduler (\<open>src/src/jobs/ringBuffer.ts\<close>) and its refinement of a bounded FIFO
  queue.  A slot of the backing array is an option, \<open>None\<close> for \<open>undefined\<close>.
\<close>

section \<open>The buffer\<close>

record 'a RingBuffer =
  buffer :: "'a option list"
  rb_head :: nat
  rb_tail :: nat
  rb_size :: nat
  capacity :: nat

datatype range_error = BadCapacity

definition newRingBuffer :: "num_arg \<Rightarrow> (range_error, 'a RingBuffer) result" where
  "newRingBuffer c =
     (case c of
        NonIntNum \<Rightarrow> Inl BadCapacity
      | IntNum n \<Rightarrow>
          if n < 1 then Inl BadCapacity
          else Inr \<lparr>buffer = replicate (nat n) None, rb_head = 0, rb_tail = 0, rb_size = 0,
                    capacity = nat n\<rparr>)"

definition push :: "'a \<Rightarrow> 'a RingBuffer \<Rightarrow> bool \<times> 'a RingBuffer" where
  "push item rb =
     (if rb_size rb = capacity rb then (False, rb)
      else (True, rb\<lparr>buffer := (buffer rb)[rb_tail rb := Some item],
                     rb_tail := (rb_tail rb + 1) mod capacity rb,
                     rb_size := rb_size rb + 1\<rparr>))"

definition pop :: "'a RingBuffer \<Rightarrow> 'a option \<times> 'a RingBuffer" where
  "pop rb =
     (if rb_size rb = 0 then (None, rb)
      else (buffer rb ! rb_head rb,
            rb\<lparr>buffer := (buffer rb)[rb_head rb := None],
               rb_head := (rb_head rb + 1) mod capacity rb,
               rb_size := rb_size rb - 1\<rparr>))"

definition rb_peek :: "'a RingBuffer \<Rightarrow> 'a option" where
  "rb_peek rb = (if rb_size rb > 0 then buffer rb ! rb_head rb else None)"

definition isEmpty :: "'a RingBuffer \<Rightarrow> bool" where
  "isEmpty rb = (rb_size rb = 0)"

definition isFull :: "'a RingBuffer \<Rightarrow> bool" where
  "isFull rb = (rb_size rb = capacity rb)"

definition clear :: "'a RingBuffer \<Rightarrow> 'a RingBuffer" where
  "clear rb = rb\<lparr>buffer := map (\<lambda>_. None) (buffer rb), rb_head := 0, rb_tail := 0, rb_size := 0\<rparr>"

definition toArray :: "'a RingBuffer \<Rightarrow> 'a option list" where
  "toArray rb = map (\<lambda>i. buffer rb ! ((rb_head rb + i) mod capacity rb)) [0..<rb_size rb]"

section \<open>The bounded queue it implements\<close>

datatype 'a queue_op = Push 'a | Pop

datatype 'a queue_answer = Pushed bool | Popped "'a option"

text \<open>The answers to a sequence of operations and the state at the end.\<close>

fun queue_run :: "('a \<Rightarrow> 'q \<Rightarrow> bool \<times> 'q) \<Rightarrow> ('q \<Rightarrow> 'a option \<times> 'q) \<Rightarrow> 'a queue_op list \<Rightarrow> 'q \<Rightarrow>
  'a queue_answer list \<times> 'q" where
  "queue_run enq deq [] q = ([], q)"
| "queue_run enq deq (Push x # ops) q =
     (let (ok, q1) = enq x q; (answers, q2) = queue_run enq deq ops q1 in (Pushed ok # answers, q2))"
| "queue_run enq deq (Pop # ops) q =
     (let (r, q1) = deq q; (answers, q2) = queue_run enq deq ops q1 in (Popped r # answers, q2))"

text \<open>The reference: a list of at most \<open>n\<close> items, filled at its end and emptied at its front.\<close>

definition list_push :: "nat \<Rightarrow> 'a \<Rightarrow> 'a list \<Rightarrow> bool \<times> 'a list" where
  "list_push n x xs = (if length xs < n then (True, xs @ [x]) else (False, xs))"

definition list_pop :: "'a list \<Rightarrow> 'a option \<times> 'a list" where
  "list_pop xs = (case xs of [] \<Rightarrow> (None, []) | x # ys \<Rightarrow> (Some x, ys))"

text \<open>The contract of a bounded FIFO queue, in terms of the list of its items.\<close>

locale bounded_queue =
  fixes enq :: "'a \<Rightarrow> 'q \<Rightarrow> bool \<times> 'q" and deq :: "'q \<Rightarrow> 'a option \<times> 'q"
    and bound :: "'q \<Rightarrow> nat" and items :: "'q \<Rightarrow> 'a list" and inv :: "'q \<Rightarrow> bool"
  assumes inv_bound: "inv q \<Longrightarrow> length (items q) \<le> bound q"
    and enq: "inv q \<Longrightarrow> inv (snd (enq x q)) \<and> bound (snd (enq x q)) = bound q \<and>
      fst (enq x q) = (length (items q) < bound q) \<and>
      items (snd (enq x q)) = (if length (items q) < bound q then items q @ [x] else items q)"
    and deq: "inv q \<Longrightarrow> inv (snd (deq q)) \<and> bound (snd (deq q)) = bound q \<and>
      fst (deq q) = (case items q of [] \<Rightarrow> None | x # _ \<Rightarrow> Some x) \<and> items (snd (deq q)) = tl (items q)"
begin

text \<open>Every operation answers as on the list of items, and the list of items stays the abstraction.\<close>

lemma run_simulates:
  "inv q \<Longrightarrow> queue_run enq deq ops q = (answers, q') \<Longrightarrow>
     inv q' \<and> bound q' = bound q \<and> queue_run (list_push (bound q)) list_pop ops (items q) = (answers, items q')"
proof (induction ops arbitrary: q answers q')
  case (Cons oper ops)
  show ?case
  proof (cases oper)
    case Pop
    obtain res q1 where d: "deq q = (res, q1)" by (metis prod.collapse)
    obtain rest q2 where r: "queue_run enq deq ops q1 = (rest, q2)" by (metis prod.collapse)
    have "inv q1" "bound q1 = bound q" "list_pop (items q) = (res, items q1)"
      using deq [OF Cons.prems(1)] d by (auto simp: list_pop_def split: list.splits)
    with Cons.IH [OF _ r] Cons.prems(2) Pop d r show ?thesis by auto
  next
    case (Push x)
    obtain ok q1 where e: "enq x q = (ok, q1)" by (metis prod.collapse)
    obtain rest q2 where r: "queue_run enq deq ops q1 = (rest, q2)" by (metis prod.collapse)
    have "inv q1" "bound q1 = bound q" "list_push (bound q) x (items q) = (ok, items q1)"
      using enq [OF Cons.prems(1), of x] e by (auto simp: list_push_def)
    with Cons.IH [OF _ r] Cons.prems(2) Push e r show ?thesis by auto
  qed
qed simp

end

section \<open>The abstraction\<close>

definition rb_wf :: "'a RingBuffer \<Rightarrow> bool" where
  "rb_wf rb \<longleftrightarrow> 0 < capacity rb \<and> length (buffer rb) = capacity rb \<and> rb_head rb < capacity rb \<and>
     rb_size rb \<le> capacity rb \<and> rb_tail rb = (rb_head rb + rb_size rb) mod capacity rb \<and>
     (\<forall>i < rb_size rb. buffer rb ! ((rb_head rb + i) mod capacity rb) \<noteq> None)"

definition queue_of :: "'a RingBuffer \<Rightarrow> 'a list" where
  "queue_of rb = map (\<lambda>i. the (buffer rb ! ((rb_head rb + i) mod capacity rb))) [0..<rb_size rb]"

lemma ring_index_le:
  assumes "i \<le> j" "(h + j) mod c = (h + i) mod c" "j < (c :: nat)"
  shows "i = j"
proof -
  have "c dvd (h + j) - (h + i)" using mod_eq_dvd_iff_nat [of "h + i" "h + j" c] assms(1,2) by simp
  then have "c dvd j - i" by simp
  moreover have "j - i < c" using assms(3) by simp
  ultimately have "j - i = 0" using nat_dvd_not_less by blast
  with assms(1) show ?thesis by simp
qed

lemma ring_index_inj: "(h + i) mod c = (h + j) mod c \<Longrightarrow> i < c \<Longrightarrow> j < c \<Longrightarrow> i = (j :: nat)"
  using ring_index_le [of i j h c] ring_index_le [of j i h c] by (metis nat_le_linear)

lemma push_refines:
  assumes "rb_wf rb"
  shows "rb_wf (snd (push x rb)) \<and> capacity (snd (push x rb)) = capacity rb \<and>
    fst (push x rb) = (length (queue_of rb) < capacity rb) \<and>
    queue_of (snd (push x rb)) = (if length (queue_of rb) < capacity rb then queue_of rb @ [x] else queue_of rb)"
proof (cases "rb_size rb = capacity rb")
  case True
  then show ?thesis using assms by (simp add: push_def queue_of_def)
next
  case False
  let ?c = "capacity rb" and ?h = "rb_head rb" and ?n = "rb_size rb"
  let ?t = "(?h + ?n) mod ?c"
  have n: "?n < ?c" and c: "0 < ?c" using assms False by (auto simp: rb_wf_def)
  have t: "rb_tail rb = ?t" "?t < length (buffer rb)" using assms c by (auto simp: rb_wf_def)
  have other: "(buffer rb)[?t := Some x] ! ((?h + i) mod ?c) = buffer rb ! ((?h + i) mod ?c)" if "i < ?n" for i
  proof -
    have "(?h + ?n) mod ?c \<noteq> (?h + i) mod ?c" using ring_index_inj [of ?h i ?c ?n] that n by fastforce
    then show ?thesis by simp
  qed
  have "(?t + 1) mod ?c = (?h + (?n + 1)) mod ?c" by (simp add: mod_Suc_eq)
  then show ?thesis
    using assms n t other False
    by (auto simp: push_def rb_wf_def queue_of_def less_Suc_eq)
qed

lemma pop_refines:
  assumes "rb_wf rb"
  shows "rb_wf (snd (pop rb)) \<and> capacity (snd (pop rb)) = capacity rb \<and>
    fst (pop rb) = (case queue_of rb of [] \<Rightarrow> None | x # _ \<Rightarrow> Some x) \<and> queue_of (snd (pop rb)) = tl (queue_of rb)"
proof (cases "rb_size rb")
  case 0
  then show ?thesis using assms by (simp add: pop_def queue_of_def)
next
  case (Suc m)
  let ?c = "capacity rb" and ?h = "rb_head rb"
  have c: "0 < ?c" "?h < ?c" "m < ?c" using assms Suc by (auto simp: rb_wf_def)
  have idx: "((?h + 1) mod ?c + i) mod ?c = (?h + Suc i) mod ?c" for i
    by (simp add: mod_add_left_eq)
  have other: "(buffer rb)[?h := None] ! (Suc (?h + i) mod ?c) = buffer rb ! (Suc (?h + i) mod ?c)" if "i < m" for i
  proof -
    have "Suc i < ?c" using that assms Suc by (simp add: rb_wf_def)
    then have "(?h + Suc i) mod ?c \<noteq> (?h + 0) mod ?c" using ring_index_inj [of ?h "Suc i" ?c 0] c(1) by blast
    then show ?thesis using c(2) by simp
  qed
  have q: "queue_of rb = the (buffer rb ! ?h) # map (\<lambda>i. the (buffer rb ! ((?h + Suc i) mod ?c))) [0..<m]"
    using c by (simp add: queue_of_def Suc upt_conv_Cons map_Suc_upt [symmetric] del: upt_Suc)
  have "buffer rb ! ?h \<noteq> None" using assms Suc c by (auto simp: rb_wf_def dest!: spec [of _ 0])
  moreover have "\<forall>i < m. buffer rb ! ((?h + Suc i) mod ?c) \<noteq> None" using assms Suc by (auto simp: rb_wf_def)
  moreover have "queue_of (snd (pop rb)) = tl (queue_of rb)"
    unfolding q using Suc by (simp add: pop_def queue_of_def idx [simplified] other)
  ultimately show ?thesis
    using assms Suc other unfolding q by (simp add: pop_def rb_wf_def idx [simplified])
qed

interpretation ring: bounded_queue push pop capacity queue_of rb_wf
  by unfold_locales (simp_all add: push_refines pop_refines, simp add: rb_wf_def queue_of_def)

section \<open>Properties\<close>

lemma toArray_queue: "rb_wf rb \<Longrightarrow> toArray rb = map Some (queue_of rb)"
  by (auto simp: toArray_def queue_of_def rb_wf_def)

text \<open>Claim C16. The ring buffer implements a bounded FIFO queue: on a new buffer of capacity n, any sequence of
  pushes and pops is answered exactly as by a list of at most n items that is filled at its end and emptied at
  its front (a push is accepted exactly when fewer than n items are inside, a pop returns the oldest item, and
  nothing exactly when the list is empty).  At the end the snapshot, the peeked item, the emptiness and the
  fullness tests show exactly the items of that list, and clearing the buffer gives the empty queue.\<close>

theorem ring_buffer_fifo:
  assumes "newRingBuffer (IntNum n) = Inr rb" and "queue_run push pop ops rb = (answers, rb')"
    and "queue_run (list_push (nat n)) list_pop ops [] = (expected, items)"
  shows "answers = expected \<and> toArray rb' = map Some items \<and>
    rb_peek rb' = (case items of [] \<Rightarrow> None | x # _ \<Rightarrow> Some x) \<and>
    isEmpty rb' = (items = []) \<and> isFull rb' = (int (length items) = n) \<and>
    toArray (clear rb') = [] \<and> fst (queue_run push pop later (clear rb')) = fst (queue_run push pop later rb)"
proof -
  have rb: "rb_wf rb" "queue_of rb = []" "capacity rb = nat n" "1 \<le> n"
    using assms(1) by (auto simp: newRingBuffer_def rb_wf_def queue_of_def split: if_splits)
  from ring.run_simulates [OF rb(1) assms(2)] rb assms(3)
  have r: "rb_wf rb'" "capacity rb' = nat n" "answers = expected" "queue_of rb' = items" by auto
  have len: "length items = rb_size rb'" using r(4) by (auto simp: queue_of_def)
  have "rb_peek rb' = fst (pop rb')" by (simp add: rb_peek_def pop_def)
  then have peek: "rb_peek rb' = (case items of [] \<Rightarrow> None | x # _ \<Rightarrow> Some x)"
    using pop_refines [OF r(1)] r(4) by simp
  have cl: "rb_wf (clear rb')" "queue_of (clear rb') = []" "capacity (clear rb') = nat n"
    using r(1,2) by (auto simp: clear_def rb_wf_def queue_of_def)
  have same: "fst (queue_run push pop later (clear rb')) = fst (queue_run push pop later rb)"
    using ring.run_simulates [OF cl(1), of later] ring.run_simulates [OF rb(1), of later] cl rb
    by (metis prod.collapse fst_conv)
  show ?thesis
    using r len peek same toArray_queue [OF r(1)] toArray_queue [OF cl(1)] cl(2) rb(4)
    by (auto simp: isEmpty_def isFull_def)
qed

theorem ring_buffer_fifo_witness:
  "\<exists>rb rb'. newRingBuffer (IntNum 2) = Inr rb \<and>
     queue_run push pop [Push 1, Push 2, Push (3 :: nat), Pop, Push 4, Pop, Pop, Pop] rb =
       ([Pushed True, Pushed True, Pushed False, Popped (Some 1), Pushed True, Popped (Some 2), Popped (Some 4), Popped None], rb') \<and>
     toArray rb' = [] \<and> isEmpty rb'"
proof -
  let ?ops = "[Push 1, Push 2, Push (3 :: nat), Pop, Push 4, Pop, Pop, Pop]"
  let ?rb = "\<lparr>buffer = [None, None], rb_head = 0, rb_tail = 0, rb_size = 0, capacity = 2\<rparr> :: nat RingBuffer"
  have n: "newRingBuffer (IntNum 2) = Inr ?rb" by code_simp
  obtain answers rb' where r: "queue_run push pop ?ops ?rb = (answers, rb')" by (metis prod.collapse)
  have l: "queue_run (list_push (nat 2)) list_pop ?ops [] =
      ([Pushed True, Pushed True, Pushed False, Popped (Some 1), Pushed True, Popped (Some 2), Popped (Some 4), Popped None], [])"
    by code_simp
  from ring_buffer_fifo [OF n r l, of "[]"] n r show ?thesis by auto
qed

end
