(* ===== verification/CircuitBreaker.thy ===== *)
theory CircuitBreaker
  imports Prelude
begin

text \<open>
  The circuit breaker in front of the Soroban RPC hosts (\<open>src/src/clients/circuitBreaker.ts\<close>).  \<open>execute\<close> awaits
  the guarded operation, so a call has two atomic parts: what runs before the operation starts and
  what runs when it has settled.  Calls overlap freely; the world below holds the calls in flight.
  Times are milliseconds; metrics are not modelled.
\<close>

section \<open>The breaker\<close>

datatype BreakerState = CLOSED | OPEN | HALF_OPEN

record CircuitBreakerConfig =
  cfg_failureThreshold :: int
  cfg_openWindowMs :: "int option"
  cfg_halfOpenAfterMs :: "int option"
  cfg_cooldownPeriodMs :: "int option"

record CircuitBreaker =
  cb_state :: BreakerState
  failureCount :: int
  openedAt :: int
  activeProbes :: int
  failureThreshold :: int
  openWindowMs :: int
  halfOpenAfterMs :: int

definition default_openWindowMs :: int where "default_openWindowMs = 10000"
definition default_halfOpenAfterMs :: int where "default_halfOpenAfterMs = 30000"

definition newCircuitBreaker :: "CircuitBreakerConfig \<Rightarrow> CircuitBreaker" where
  "newCircuitBreaker config =
     (let resolvedHalfOpen =
            (case cfg_halfOpenAfterMs config of
               Some h \<Rightarrow> h
             | None \<Rightarrow> (case cfg_cooldownPeriodMs config of Some c \<Rightarrow> c | None \<Rightarrow> default_halfOpenAfterMs));
          openWindow = (case cfg_openWindowMs config of Some w \<Rightarrow> w | None \<Rightarrow> default_openWindowMs)
      in \<lparr>cb_state = CLOSED, failureCount = 0, openedAt = 0, activeProbes = 0,
          failureThreshold = cfg_failureThreshold config, openWindowMs = openWindow,
          halfOpenAfterMs = max resolvedHalfOpen openWindow\<rparr>)"

definition transitionTo :: "int \<Rightarrow> BreakerState \<Rightarrow> CircuitBreaker \<Rightarrow> CircuitBreaker" where
  "transitionTo now newState b =
     (let b1 = b\<lparr>cb_state := newState\<rparr>
      in case newState of
           OPEN \<Rightarrow> b1\<lparr>openedAt := now, activeProbes := 0\<rparr>
         | CLOSED \<Rightarrow> b1\<lparr>failureCount := 0, activeProbes := 0\<rparr>
         | HALF_OPEN \<Rightarrow> b1\<lparr>activeProbes := 0\<rparr>)"

definition checkTimers :: "int \<Rightarrow> CircuitBreaker \<Rightarrow> CircuitBreaker" where
  "checkTimers now b =
     (if cb_state b = OPEN \<and> now - openedAt b \<ge> halfOpenAfterMs b then transitionTo now HALF_OPEN b else b)"

definition getState :: "int \<Rightarrow> CircuitBreaker \<Rightarrow> BreakerState \<times> CircuitBreaker" where
  "getState now b = (let b1 = checkTimers now b in (cb_state b1, b1))"

definition getFailureCount :: "CircuitBreaker \<Rightarrow> int" where
  "getFailureCount b = failureCount b"

definition isOpenWindowExpired :: "int \<Rightarrow> CircuitBreaker \<Rightarrow> bool" where
  "isOpenWindowExpired now b =
     (if cb_state b \<noteq> OPEN then False else now - openedAt b \<ge> openWindowMs b)"

datatype breaker_error = BreakerOpen | ProbeInProgress

text \<open>\<open>execute\<close> up to the call of the operation: rejected, or started.\<close>

definition execute_start :: "int \<Rightarrow> CircuitBreaker \<Rightarrow> (breaker_error, unit) result \<times> CircuitBreaker" where
  "execute_start now b =
     (let b1 = checkTimers now b
      in if cb_state b1 = OPEN then (Inl BreakerOpen, b1)
         else if cb_state b1 = HALF_OPEN then
           if activeProbes b1 \<ge> 1 then (Inl ProbeInProgress, b1)
           else (Inr (), b1\<lparr>activeProbes := activeProbes b1 + 1\<rparr>)
         else (Inr (), b1))"

definition execute_fulfilled :: "int \<Rightarrow> CircuitBreaker \<Rightarrow> CircuitBreaker" where
  "execute_fulfilled now b =
     (if cb_state b = HALF_OPEN then transitionTo now CLOSED b
      else if cb_state b = CLOSED then b\<lparr>failureCount := 0\<rparr>
      else b)"

definition recordFailure :: "int \<Rightarrow> CircuitBreaker \<Rightarrow> CircuitBreaker" where
  "recordFailure now b =
     (if cb_state b = CLOSED then
        let b1 = b\<lparr>failureCount := failureCount b + 1\<rparr>
        in if failureCount b1 \<ge> failureThreshold b1 then transitionTo now OPEN b1 else b1
      else if cb_state b = HALF_OPEN then transitionTo now OPEN b
      else b)"

text \<open>A whole call that nothing overlaps: started at one time, settled at another.\<close>

definition execute ::
  "int \<Rightarrow> int \<Rightarrow> ('e, 'a) result \<Rightarrow> CircuitBreaker \<Rightarrow> (breaker_error + 'e, 'a) result \<times> CircuitBreaker" where
  "execute t0 t1 outcome b =
     (case execute_start t0 b of
        (Inl e, b1) \<Rightarrow> (Inl (Inl e), b1)
      | (Inr _, b1) \<Rightarrow>
          (case outcome of
             Inr v \<Rightarrow> (Inr v, execute_fulfilled t1 b1)
           | Inl e \<Rightarrow> (Inl (Inr e), recordFailure t1 b1)))"

definition getCircuitBreaker ::
  "string \<Rightarrow> CircuitBreakerConfig \<Rightarrow> (string, CircuitBreaker) jsmap \<Rightarrow> CircuitBreaker \<times> (string, CircuitBreaker) jsmap" where
  "getCircuitBreaker host config breakers =
     (case map_get breakers host of
        Some b \<Rightarrow> (b, breakers)
      | None \<Rightarrow> let b = newCircuitBreaker config in (b, map_set host b breakers))"

definition resetCircuitBreakers :: "(string, CircuitBreaker) jsmap \<Rightarrow> (string, CircuitBreaker) jsmap" where
  "resetCircuitBreakers breakers = []"

section \<open>Overlapping calls\<close>

text \<open>Calls in flight carry the state they were started in, so probes can be told from ordinary calls.\<close>

record breaker_world =
  bw_breaker :: CircuitBreaker
  bw_inflight :: "BreakerState list"

datatype breaker_event =
    Start int
  | Settle nat bool int
  | Look int

definition drop_nth :: "nat \<Rightarrow> 'a list \<Rightarrow> 'a list" where
  "drop_nth i xs = take i xs @ drop (Suc i) xs"

fun breaker_step :: "breaker_world \<Rightarrow> breaker_event \<Rightarrow> breaker_world" where
  "breaker_step w (Start now) =
     (case execute_start now (bw_breaker w) of
        (Inl _, b) \<Rightarrow> w\<lparr>bw_breaker := b\<rparr>
      | (Inr _, b) \<Rightarrow> \<lparr>bw_breaker = b, bw_inflight = bw_inflight w @ [cb_state b]\<rparr>)"
| "breaker_step w (Settle i ok now) =
     (if i < length (bw_inflight w) then
        \<lparr>bw_breaker = (if ok then execute_fulfilled now (bw_breaker w) else recordFailure now (bw_breaker w)),
         bw_inflight = drop_nth i (bw_inflight w)\<rparr>
      else w)"
| "breaker_step w (Look now) = w\<lparr>bw_breaker := snd (getState now (bw_breaker w))\<rparr>"

fun event_time :: "breaker_event \<Rightarrow> int" where
  "event_time (Start now) = now"
| "event_time (Settle _ _ now) = now"
| "event_time (Look now) = now"

definition breaker_ok :: "breaker_world \<Rightarrow> bool" where
  "breaker_ok w \<longleftrightarrow> (let b = bw_breaker w in
     0 \<le> failureCount b \<and> 0 \<le> activeProbes b \<and> activeProbes b \<le> 1 \<and> openWindowMs b \<le> halfOpenAfterMs b \<and>
     (cb_state b \<noteq> HALF_OPEN \<longrightarrow> activeProbes b = 0) \<and>
     (cb_state b = CLOSED \<longrightarrow> failureCount b = 0 \<or> failureCount b < failureThreshold b) \<and>
     activeProbes b \<le> int (length (filter (\<lambda>st. st = HALF_OPEN) (bw_inflight w))))"

lemmas breaker_defs = execute_start_def execute_fulfilled_def recordFailure_def transitionTo_def checkTimers_def
  getState_def Let_def

lemma probes_drop_nth:
  "i < length xs \<Longrightarrow> length (filter P xs) = length (filter P (drop_nth i xs)) + (if P (xs ! i) then 1 else 0)"
  by (subst (1) id_take_nth_drop [of i xs]) (auto simp: drop_nth_def)

lemma breaker_step_ok: "breaker_ok w \<Longrightarrow> breaker_ok (breaker_step w e)"
proof (cases e)
  case (Start now)
  assume "breaker_ok w"
  with Start show ?thesis
    by (cases "cb_state (bw_breaker w)") (auto simp: breaker_ok_def breaker_defs)
next
  case (Settle i ok now)
  assume w: "breaker_ok w"
  show ?thesis
  proof (cases "i < length (bw_inflight w)")
    case True
    from w Settle True show ?thesis
      by (cases "cb_state (bw_breaker w)"; cases ok) (auto simp: breaker_ok_def breaker_defs)
  qed (use w Settle in simp)
next
  case (Look now)
  assume "breaker_ok w"
  with Look show ?thesis
    by (cases "cb_state (bw_breaker w)") (auto simp: breaker_ok_def breaker_defs)
qed

interpretation breaker_sys: step_system breaker_step breaker_ok
  by unfold_locales (rule breaker_step_ok)

lemma open_step:
  assumes "cb_state (bw_breaker w) = OPEN"
    and "event_time e - openedAt (bw_breaker w) < halfOpenAfterMs (bw_breaker w)"
  shows "bw_breaker (breaker_step w e) = bw_breaker w \<and> length (bw_inflight (breaker_step w e)) \<le> length (bw_inflight w)"
  using assms by (cases e) (auto simp: breaker_defs drop_nth_def)

lemma open_run:
  assumes "cb_state (bw_breaker w) = OPEN"
    and "\<forall>e \<in> set es. event_time e - openedAt (bw_breaker w) < halfOpenAfterMs (bw_breaker w)"
  shows "bw_breaker (foldl breaker_step w es) = bw_breaker w \<and>
    length (bw_inflight (foldl breaker_step w es)) \<le> length (bw_inflight w)"
  using assms
proof (induction es arbitrary: w)
  case (Cons e es)
  have e: "bw_breaker (breaker_step w e) = bw_breaker w" "length (bw_inflight (breaker_step w e)) \<le> length (bw_inflight w)"
    using open_step [of w e] Cons.prems by simp_all
  then show ?case using Cons.IH [of "breaker_step w e"] Cons.prems by simp
qed simp

fun settles :: "breaker_event \<Rightarrow> bool" where
  "settles (Settle _ _ _) = True"
| "settles _ = False"

lemma half_open_run:
  assumes "cb_state (bw_breaker w) = HALF_OPEN" "0 \<le> activeProbes (bw_breaker w)" "activeProbes (bw_breaker w) \<le> 1"
    and "list_all (\<lambda>e. \<not> settles e) es"
  shows "cb_state (bw_breaker (foldl breaker_step w es)) = HALF_OPEN \<and>
    int (length (bw_inflight (foldl breaker_step w es))) - int (length (bw_inflight w)) =
      activeProbes (bw_breaker (foldl breaker_step w es)) - activeProbes (bw_breaker w) \<and>
    activeProbes (bw_breaker w) \<le> activeProbes (bw_breaker (foldl breaker_step w es)) \<and>
    activeProbes (bw_breaker (foldl breaker_step w es)) \<le> 1"
  using assms
proof (induction es arbitrary: w)
  case (Cons e es)
  have e: "cb_state (bw_breaker (breaker_step w e)) = HALF_OPEN" "0 \<le> activeProbes (bw_breaker (breaker_step w e))"
    "activeProbes (bw_breaker w) \<le> activeProbes (bw_breaker (breaker_step w e))"
    "activeProbes (bw_breaker (breaker_step w e)) \<le> 1"
    "int (length (bw_inflight (breaker_step w e))) - int (length (bw_inflight w)) =
      activeProbes (bw_breaker (breaker_step w e)) - activeProbes (bw_breaker w)"
    using Cons.prems by (cases e; simp add: breaker_defs)+
  then show ?case using Cons.IH [OF e(1,2,4)] Cons.prems(4) by simp
qed simp

lemma fail_run:
  fixes ts :: "(int \<times> int \<times> 'e) list"
  assumes "cb_state b = CLOSED" "0 \<le> failureCount b" "failureCount b + int (length ts) < failureThreshold b"
  shows "foldl (\<lambda>b (t0, t1, e). snd (execute t0 t1 (Inl e :: ('e, unit) result) b)) b ts = b\<lparr>failureCount := failureCount b + int (length ts)\<rparr>"
  using assms
proof (induction ts arbitrary: b)
  case (Cons t ts)
  obtain t0 t1 e where t: "t = (t0, t1, e)" by (metis prod_cases3)
  have "snd (execute t0 t1 (Inl e :: ('e, unit) result) b) = b\<lparr>failureCount := failureCount b + 1\<rparr>"
    using Cons.prems by (simp add: execute_def breaker_defs)
  then show ?case
    using Cons.IH [of "b\<lparr>failureCount := failureCount b + 1\<rparr>"] Cons.prems by (simp add: t add.assoc)
qed simp

section \<open>Properties\<close>

text \<open>Claim C27. Fail fast: once the breaker has opened, whatever calls start or settle before halfOpenAfterMs has
  passed leave it exactly as it is, no call is let through in that time, and an attempt in that time is rejected
  at once.\<close>

theorem breaker_fail_fast:
  assumes "cb_state (bw_breaker w) = OPEN"
    and "\<forall>e \<in> set es. event_time e - openedAt (bw_breaker w) < halfOpenAfterMs (bw_breaker w)"
    and "now - openedAt (bw_breaker w) < halfOpenAfterMs (bw_breaker w)"
  shows "bw_breaker (foldl breaker_step w es) = bw_breaker w \<and>
    length (bw_inflight (foldl breaker_step w es)) \<le> length (bw_inflight w) \<and>
    execute_start now (bw_breaker (foldl breaker_step w es)) = (Inl BreakerOpen, bw_breaker w)"
  using open_run [OF assms(1,2)] assms(1,3) by (simp add: breaker_defs)

definition sample_config :: CircuitBreakerConfig where
  "sample_config = \<lparr>cfg_failureThreshold = 1, cfg_openWindowMs = None, cfg_halfOpenAfterMs = None,
     cfg_cooldownPeriodMs = None\<rparr>"

definition sample_world :: breaker_world where
  "sample_world = \<lparr>bw_breaker = newCircuitBreaker sample_config, bw_inflight = []\<rparr>"

definition opened_world :: breaker_world where
  "opened_world = foldl breaker_step sample_world [Start 0, Start 0, Settle 0 False 1]"

lemma opened_world_eq:
  "opened_world = \<lparr>bw_breaker = \<lparr>cb_state = OPEN, failureCount = 1, openedAt = 1, activeProbes = 0,
     failureThreshold = 1, openWindowMs = 10000, halfOpenAfterMs = 30000\<rparr>, bw_inflight = [CLOSED]\<rparr>"
  by code_simp

theorem breaker_fail_fast_witness:
  "fst (execute_start 30000 (bw_breaker (foldl breaker_step opened_world [Settle 0 True 2, Start 29000]))) =
     Inl BreakerOpen"
proof -
  have "cb_state (bw_breaker opened_world) = OPEN"
    "\<forall>e \<in> set [Settle 0 True 2, Start 29000]. event_time e - openedAt (bw_breaker opened_world) <
      halfOpenAfterMs (bw_breaker opened_world)"
    "30000 - openedAt (bw_breaker opened_world) < halfOpenAfterMs (bw_breaker opened_world)"
    by (simp_all add: opened_world_eq)
  from breaker_fail_fast [OF this] show ?thesis by (metis fst_conv)
qed

text \<open>The breaker trips exactly at its threshold: from a closed breaker without recorded failures, fewer
  than failureThreshold failing calls in a row leave it closed with the failures counted, one success forgets
  them, and the call that reaches the threshold opens it at the time it failed.\<close>

theorem breaker_trips_at_threshold:
  fixes ts :: "(int \<times> int \<times> 'e) list" and v :: 'a
  assumes "cb_state b = CLOSED" and "failureCount b = 0"
    and "int (length ts) + 1 = failureThreshold b"
  shows "foldl (\<lambda>b (t0, t1, e). snd (execute t0 t1 (Inl e :: ('e, unit) result) b)) b ts = b\<lparr>failureCount := int (length ts)\<rparr> \<and>
    snd (execute t0 t1 (Inr v :: ('e, 'a) result) (b\<lparr>failureCount := int (length ts)\<rparr>)) = b \<and>
    execute t0 t1 (Inl e :: ('e, 'a) result) (b\<lparr>failureCount := int (length ts)\<rparr>) =
      (Inl (Inr e), b\<lparr>cb_state := OPEN, failureCount := failureThreshold b, openedAt := t1, activeProbes := 0\<rparr>)"
  using fail_run [of b ts] assms by (simp add: execute_def breaker_defs)

theorem breaker_trips_at_threshold_witness:
  "fst (execute 5 6 (Inl ''boom'') ((newCircuitBreaker sample_config)\<lparr>failureCount := 0\<rparr>) :: (breaker_error + string, nat) result \<times> CircuitBreaker) =
     Inl (Inr ''boom'')"
  using breaker_trips_at_threshold [of "newCircuitBreaker sample_config" "[] :: (int \<times> int \<times> string) list" 5 6 "0 :: nat" "''boom''"]
  by (simp add: newCircuitBreaker_def sample_config_def)

text \<open>Claim C28. One probe per half-open phase: as long as no call settles, however many calls are attempted in the
  half-open state, at most one is let through; when a call then settles, success closes the breaker with a clean
  failure count and failure opens it again from that moment.\<close>

theorem breaker_single_probe:
  assumes "breaker_ok w" and "cb_state (bw_breaker w) = HALF_OPEN" and "list_all (\<lambda>e. \<not> settles e) es"
    and "w' = foldl breaker_step w es"
  shows "length (bw_inflight w') \<le> Suc (length (bw_inflight w)) \<and>
    (activeProbes (bw_breaker w) = 1 \<longrightarrow> length (bw_inflight w') = length (bw_inflight w)) \<and>
    cb_state (execute_fulfilled now (bw_breaker w')) = CLOSED \<and>
    failureCount (execute_fulfilled now (bw_breaker w')) = 0 \<and>
    cb_state (recordFailure now (bw_breaker w')) = OPEN \<and> openedAt (recordFailure now (bw_breaker w')) = now"
proof -
  have "0 \<le> activeProbes (bw_breaker w)" "activeProbes (bw_breaker w) \<le> 1"
    using assms(1) by (auto simp: breaker_ok_def Let_def)
  from half_open_run [OF assms(2) this assms(3)] this show ?thesis
    unfolding assms(4) by (auto simp: breaker_defs)
qed

definition half_open_world :: breaker_world where
  "half_open_world = breaker_step opened_world (Look 30001)"

lemma half_open_world_eq:
  "half_open_world = \<lparr>bw_breaker = \<lparr>cb_state = HALF_OPEN, failureCount = 1, openedAt = 1, activeProbes = 0,
     failureThreshold = 1, openWindowMs = 10000, halfOpenAfterMs = 30000\<rparr>, bw_inflight = [CLOSED]\<rparr>"
  by code_simp

theorem breaker_single_probe_witness:
  "length (bw_inflight (foldl breaker_step half_open_world [Start 30002, Start 30003, Start 30004])) \<le> 2"
proof -
  have "breaker_ok half_open_world" "cb_state (bw_breaker half_open_world) = HALF_OPEN"
    "list_all (\<lambda>e. \<not> settles e) [Start 30002, Start 30003, Start 30004]"
    "Suc (length (bw_inflight half_open_world)) = 2"
    by (simp_all add: half_open_world_eq breaker_ok_def)
  from breaker_single_probe [OF this(1-3) refl] this(4) show ?thesis by metis
qed

text \<open>Probes can overlap all the same: a call that was started before the breaker opened and fails in the
  half-open phase opens the breaker again, and the next half-open phase lets a second probe through while the
  first one is still in flight.\<close>

theorem breaker_overlapping_probes:
  "\<exists>es. sorted (map event_time es) \<and> breaker_ok (foldl breaker_step sample_world es) \<and>
     cb_state (bw_breaker (foldl breaker_step sample_world es)) = HALF_OPEN \<and>
     bw_inflight (foldl breaker_step sample_world es) = [HALF_OPEN, HALF_OPEN]"
proof (intro exI conjI)
  let ?es = "[Start 0, Start 0, Settle 0 False 1, Start 30001, Settle 0 False 30002, Start 60002]"
  show "sorted (map event_time ?es)" by simp
  have "breaker_ok sample_world" by (simp add: breaker_ok_def sample_world_def newCircuitBreaker_def
        default_openWindowMs_def default_halfOpenAfterMs_def sample_config_def)
  then show "breaker_ok (foldl breaker_step sample_world ?es)" by (rule breaker_sys.run_inv)
  show "cb_state (bw_breaker (foldl breaker_step sample_world ?es)) = HALF_OPEN" by code_simp
  show "bw_inflight (foldl breaker_step sample_world ?es) = [HALF_OPEN, HALF_OPEN]" by code_simp
qed

end
