(* ===== verification/Rbac.thy ===== *)
theory Rbac
  imports Prelude
begin

text \<open>
  Roles (\<open>src/src/types/rbac.ts\<close>) and the rule engine \<open>PolicyEngine\<close> of
  \<open>src/src/services/rbac/policyEngine.ts\<close>.  The message of a reason is determined by its code and context,
  which is what the datatype \<open>PolicyReason\<close> keeps.  A regular expression built from a wildcard pattern
  escapes every special character but \<open>*\<close>, which becomes \<open>.*\<close>; the dot does not match a line terminator.
\<close>

section \<open>Roles\<close>

datatype Role = Admin | Verifier | User | Public

fun ROLE_HIERARCHY :: "Role \<Rightarrow> nat" where
  "ROLE_HIERARCHY Public = 0"
| "ROLE_HIERARCHY User = 1"
| "ROLE_HIERARCHY Verifier = 2"
| "ROLE_HIERARCHY Admin = 3"

definition ALL_ROLES :: "Role list" where
  "ALL_ROLES = [Admin, Verifier, User, Public]"

fun role_name :: "Role \<Rightarrow> string" where
  "role_name Admin = ''admin''"
| "role_name Verifier = ''verifier''"
| "role_name User = ''user''"
| "role_name Public = ''public''"

record AuthenticatedUser =
  us_id :: string
  us_address :: string
  us_role :: Role

section \<open>Rules and decisions\<close>

datatype PolicyDecision = ALLOW | DENY

datatype PolicyReason =
    RoleMatch string Role
  | RoleHierarchy string Role Role
  | PublicResource string
  | Unauthenticated
  | InsufficientRole Role
  | NoMatchingRule string string

record PolicyRule =
  ru_id :: string
  ru_actions :: "string list"
  ru_resources :: "string list"
  ru_allowedRoles :: "Role list"
  ru_condition :: "(AuthenticatedUser option \<Rightarrow> string \<Rightarrow> bool) option"

record PolicyAuditLog =
  al_id :: string
  al_timestamp :: int
  al_user :: "AuthenticatedUser option"
  al_action :: string
  al_resource :: string
  al_decision :: PolicyDecision
  al_reason :: PolicyReason

record PolicyEngine =
  rules :: "PolicyRule list"
  auditLogs :: "PolicyAuditLog list"
  auditCallback :: "(PolicyAuditLog \<Rightarrow> (string, unit) result) option"

definition newPolicyEngine :: PolicyEngine where
  "newPolicyEngine = \<lparr>rules = [], auditLogs = [], auditCallback = None\<rparr>"

definition onAudit :: "(PolicyAuditLog \<Rightarrow> (string, unit) result) \<Rightarrow> PolicyEngine \<Rightarrow> PolicyEngine" where
  "onAudit callback pe = pe\<lparr>auditCallback := Some callback\<rparr>"

definition addRule :: "PolicyRule \<Rightarrow> PolicyEngine \<Rightarrow> PolicyEngine" where
  "addRule rule pe = pe\<lparr>rules := rules pe @ [rule]\<rparr>"

definition removeRule :: "string \<Rightarrow> PolicyEngine \<Rightarrow> bool \<times> PolicyEngine" where
  "removeRule ruleId pe =
     (let initialLength = length (rules pe);
          pe1 = pe\<lparr>rules := filter (\<lambda>r. ru_id r \<noteq> ruleId) (rules pe)\<rparr>
      in (length (rules pe1) < initialLength, pe1))"

definition getRules :: "PolicyEngine \<Rightarrow> PolicyRule list" where
  "getRules pe = rules pe"

definition clearRules :: "PolicyEngine \<Rightarrow> PolicyEngine" where
  "clearRules pe = pe\<lparr>rules := []\<rparr>"

section \<open>Matching\<close>

definition line_terminator :: "char \<Rightarrow> bool" where
  "line_terminator c = (c = CHR 0x0A \<or> c = CHR 0x0D)"

fun glob :: "string \<Rightarrow> string \<Rightarrow> bool" where
  "glob [] s = (s = [])"
| "glob (p # ps) s =
     (if p = CHR ''*'' then
        glob ps s \<or> (case s of [] \<Rightarrow> False | c # cs \<Rightarrow> \<not> line_terminator c \<and> glob (p # ps) cs)
      else case s of [] \<Rightarrow> False | c # cs \<Rightarrow> c = p \<and> glob ps cs)"

definition wildcardMatch :: "string \<Rightarrow> string \<Rightarrow> bool" where
  "wildcardMatch pattern v = (if pattern = ''*'' then True else glob pattern v)"

definition ruleMatches :: "PolicyRule \<Rightarrow> string \<Rightarrow> string \<Rightarrow> bool" where
  "ruleMatches rule action resource =
     (let actionMatches = list_ex (\<lambda>pattern. wildcardMatch pattern action) (ru_actions rule);
          resourceMatches = list_ex (\<lambda>pattern. wildcardMatch pattern resource) (ru_resources rule)
      in actionMatches \<and> resourceMatches)"

section \<open>Evaluation\<close>

definition getMinRole :: "Role list \<Rightarrow> Role option" where
  "getMinRole roles =
     (case roles of
        [] \<Rightarrow> None
      | r # rs \<Rightarrow> Some (foldl (\<lambda>m role. if ROLE_HIERARCHY role < ROLE_HIERARCHY m then role else m) r rs))"

definition condition_holds :: "PolicyRule \<Rightarrow> AuthenticatedUser \<Rightarrow> string \<Rightarrow> bool" where
  "condition_holds rule user resource =
     (case ru_condition rule of None \<Rightarrow> True | Some cond \<Rightarrow> cond (Some user) resource)"

fun evaluate_loop :: "PolicyRule list \<Rightarrow> AuthenticatedUser \<Rightarrow> string \<Rightarrow> PolicyDecision \<times> PolicyReason" where
  "evaluate_loop [] user resource = (DENY, InsufficientRole (us_role user))"
| "evaluate_loop (rule # rs) user resource =
     (if us_role user \<in> set (ru_allowedRoles rule) then
        if \<not> condition_holds rule user resource then evaluate_loop rs user resource
        else (ALLOW, RoleMatch (ru_id rule) (us_role user))
      else case getMinRole (ru_allowedRoles rule) of
        None \<Rightarrow> evaluate_loop rs user resource
      | Some minRequiredRole \<Rightarrow>
          if ROLE_HIERARCHY (us_role user) \<ge> ROLE_HIERARCHY minRequiredRole then
            if \<not> condition_holds rule user resource then evaluate_loop rs user resource
            else (ALLOW, RoleHierarchy (ru_id rule) (us_role user) minRequiredRole)
          else evaluate_loop rs user resource)"

definition evaluateRules ::
  "PolicyRule list \<Rightarrow> AuthenticatedUser option \<Rightarrow> string \<Rightarrow> PolicyDecision \<times> PolicyReason" where
  "evaluateRules rs user resource =
     (case user of
        None \<Rightarrow>
          (case find (\<lambda>rule. Public \<in> set (ru_allowedRoles rule)) rs of
             Some publicRule \<Rightarrow> (ALLOW, PublicResource (ru_id publicRule))
           | None \<Rightarrow> (DENY, Unauthenticated))
      | Some u \<Rightarrow> evaluate_loop rs u resource)"

text \<open>\<open>check\<close> as the last \<open>await\<close> leaves it: the audit record, or the error of a failing callback; the record is stored either way.\<close>

definition check ::
  "string \<Rightarrow> int \<Rightarrow> AuthenticatedUser option \<Rightarrow> string \<Rightarrow> string \<Rightarrow> (PolicyEngine, string, PolicyAuditLog) exec" where
  "check uid now user action resource pe =
     (let matchingRules = filter (\<lambda>rule. ruleMatches rule action resource) (rules pe);
          (decision, reason) =
            (if length matchingRules = 0 then (DENY, NoMatchingRule action resource)
             else evaluateRules matchingRules user resource);
          auditLog = \<lparr>al_id = uid, al_timestamp = now, al_user = user, al_action = action,
            al_resource = resource, al_decision = decision, al_reason = reason\<rparr>;
          pe1 = pe\<lparr>auditLogs := auditLogs pe @ [auditLog]\<rparr>
      in case auditCallback pe1 of
           None \<Rightarrow> (Inr auditLog, pe1)
         | Some cb \<Rightarrow> (case cb auditLog of Inl e \<Rightarrow> (Inl e, pe1) | Inr _ \<Rightarrow> (Inr auditLog, pe1)))"

record audit_filter =
  af_userId :: "string option"
  af_action :: "string option"
  af_resource :: "string option"
  af_decision :: "PolicyDecision option"
  af_since :: "int option"

definition keep_if :: "'b option \<Rightarrow> ('b \<Rightarrow> 'a \<Rightarrow> bool) \<Rightarrow> 'a list \<Rightarrow> 'a list" where
  "keep_if v P xs = (case v of None \<Rightarrow> xs | Some x \<Rightarrow> filter (P x) xs)"

definition nonempty :: "string option \<Rightarrow> string option" where
  "nonempty v = (if truthy v then v else None)"

definition getAuditLogs :: "audit_filter option \<Rightarrow> PolicyEngine \<Rightarrow> PolicyAuditLog list" where
  "getAuditLogs flt pe =
     (case flt of
        None \<Rightarrow> auditLogs pe
      | Some f \<Rightarrow>
          keep_if (af_since f) (\<lambda>t log. al_timestamp log \<ge> t)
            (keep_if (af_decision f) (\<lambda>d log. al_decision log = d)
              (keep_if (nonempty (af_resource f)) (\<lambda>r log. al_resource log = r)
                (keep_if (nonempty (af_action f)) (\<lambda>a log. al_action log = a)
                  (keep_if (nonempty (af_userId f)) (\<lambda>u log. map_option us_id (al_user log) = Some u)
                    (auditLogs pe))))))"

definition clearAuditLogs :: "PolicyEngine \<Rightarrow> PolicyEngine" where
  "clearAuditLogs pe = pe\<lparr>auditLogs := []\<rparr>"

section \<open>Common rules\<close>

definition publicRead :: "string \<Rightarrow> PolicyRule" where
  "publicRead resourcePattern =
     \<lparr>ru_id = ''public-read-'' @ resourcePattern, ru_actions = [''read:*''], ru_resources = [resourcePattern],
      ru_allowedRoles = [Public, User, Verifier, Admin], ru_condition = None\<rparr>"

definition requireMinRole :: "string \<Rightarrow> string \<Rightarrow> Role \<Rightarrow> PolicyRule" where
  "requireMinRole actionPattern resourcePattern minRole =
     \<lparr>ru_id = ''min-role-'' @ role_name minRole @ ''-'' @ actionPattern @ ''-'' @ resourcePattern,
      ru_actions = [actionPattern], ru_resources = [resourcePattern],
      ru_allowedRoles = filter (\<lambda>role. ROLE_HIERARCHY role \<ge> ROLE_HIERARCHY minRole) [Public, User, Verifier, Admin],
      ru_condition = None\<rparr>"

definition adminOnly :: "string \<Rightarrow> string \<Rightarrow> PolicyRule" where
  "adminOnly actionPattern resourcePattern =
     \<lparr>ru_id = ''admin-only-'' @ actionPattern @ ''-'' @ resourcePattern, ru_actions = [actionPattern],
      ru_resources = [resourcePattern], ru_allowedRoles = [Admin], ru_condition = None\<rparr>"

definition ownerOnly :: "string \<Rightarrow> string \<Rightarrow> (string \<Rightarrow> string) \<Rightarrow> PolicyRule" where
  "ownerOnly actionPattern resourcePattern extractOwnerId =
     \<lparr>ru_id = ''owner-only-'' @ actionPattern @ ''-'' @ resourcePattern, ru_actions = [actionPattern],
      ru_resources = [resourcePattern], ru_allowedRoles = [User, Verifier, Admin],
      ru_condition = Some (\<lambda>user resource.
        case user of None \<Rightarrow> False
        | Some u \<Rightarrow> let ownerId = extractOwnerId resource in us_id u = ownerId \<or> us_address u = ownerId)\<rparr>"

section \<open>The reference decision\<close>

definition grants :: "PolicyRule \<Rightarrow> AuthenticatedUser option \<Rightarrow> string \<Rightarrow> bool" where
  "grants rule user resource =
     (case user of
        None \<Rightarrow> Public \<in> set (ru_allowedRoles rule)
      | Some u \<Rightarrow> (\<exists>r \<in> set (ru_allowedRoles rule). ROLE_HIERARCHY r \<le> ROLE_HIERARCHY (us_role u)) \<and>
          condition_holds rule u resource)"

lemma min_fold:
  "ROLE_HIERARCHY (foldl (\<lambda>m role. if ROLE_HIERARCHY role < ROLE_HIERARCHY m then role else m) r rs) \<le> n \<longleftrightarrow>
     ROLE_HIERARCHY r \<le> n \<or> (\<exists>x \<in> set rs. ROLE_HIERARCHY x \<le> n)"
  by (induction rs arbitrary: r) auto

lemma min_role:
  "(case getMinRole roles of None \<Rightarrow> False | Some m \<Rightarrow> ROLE_HIERARCHY m \<le> n) \<longleftrightarrow>
     (\<exists>r \<in> set roles. ROLE_HIERARCHY r \<le> n)"
  by (cases roles) (simp_all add: getMinRole_def min_fold)

lemma evaluate_loop_allow:
  "fst (evaluate_loop rs u res) = ALLOW \<longleftrightarrow> (\<exists>rule \<in> set rs. grants rule (Some u) res)"
proof (induction rs)
  case (Cons rule rs)
  show ?case
    using Cons min_role [where roles = "ru_allowedRoles rule" and n = "ROLE_HIERARCHY (us_role u)"]
    by (auto simp: grants_def split: option.splits)
qed simp

lemma evaluateRules_allow:
  "fst (evaluateRules rs user res) = ALLOW \<longleftrightarrow> (\<exists>rule \<in> set rs. grants rule user res)"
proof (cases user)
  case None
  then show ?thesis
    by (auto simp: evaluateRules_def grants_def find_None_iff find_Some_iff split: option.splits)
qed (simp add: evaluateRules_def evaluate_loop_allow)

definition decide :: "PolicyRule list \<Rightarrow> AuthenticatedUser option \<Rightarrow> string \<Rightarrow> string \<Rightarrow> bool" where
  "decide rs user action resource = (\<exists>rule \<in> set rs. ruleMatches rule action resource \<and> grants rule user resource)"

lemma check_decides:
  "\<exists>log. snd (check uid now user action resource pe) = pe\<lparr>auditLogs := auditLogs pe @ [log]\<rparr> \<and>
     al_id log = uid \<and> al_timestamp log = now \<and> al_user log = user \<and> al_action log = action \<and>
     al_resource log = resource \<and> (al_decision log = ALLOW \<longleftrightarrow> decide (rules pe) user action resource) \<and>
     (\<forall>l. fst (check uid now user action resource pe) = Inr l \<longrightarrow> l = log)"
proof -
  let ?m = "filter (\<lambda>rule. ruleMatches rule action resource) (rules pe)"
  have "fst (if length ?m = 0 then (DENY, NoMatchingRule action resource) else evaluateRules ?m user resource) = ALLOW
      \<longleftrightarrow> decide (rules pe) user action resource"
    using evaluateRules_allow [of ?m user resource] by (auto simp: decide_def filter_empty_conv)
  then show ?thesis
    by (auto simp: check_def Let_def split: prod.splits option.splits sum.splits)
qed

section \<open>Patterns\<close>

lemma glob_literal: "CHR ''*'' \<notin> set p \<Longrightarrow> glob p s \<longleftrightarrow> s = p"
proof (induction p arbitrary: s)
  case (Cons c p)
  then show ?case by (cases s) auto
qed simp

lemma glob_star: "glob ''*'' s \<longleftrightarrow> list_all (\<lambda>c. \<not> line_terminator c) s"
  by (induction s) auto

lemma glob_prefix:
  "CHR ''*'' \<notin> set p \<Longrightarrow> glob (p @ ''*'') s \<longleftrightarrow> (\<exists>rest. s = p @ rest \<and> list_all (\<lambda>c. \<not> line_terminator c) rest)"
proof (induction p arbitrary: s)
  case Nil
  then show ?case using glob_star by simp
next
  case (Cons c p)
  then show ?case by (cases s) auto
qed

section \<open>Properties\<close>

text \<open>Claim C22. The engine decides exactly by its rules: a check is allowed if and only if some rule matches the
  action and the resource and grants the caller access (anonymous callers by a rule that lists public; others
  by a role at least as privileged as the least privileged role of the rule, when the condition of the rule
  holds), so without such a rule access is denied; every check appends exactly one audit record with the decision
  and changes nothing else, whatever the audit callback does.\<close>

theorem rbac_check_spec:
  "\<exists>log. snd (check uid now user action resource pe) = pe\<lparr>auditLogs := auditLogs pe @ [log]\<rparr> \<and>
     al_user log = user \<and> al_action log = action \<and> al_resource log = resource \<and>
     (al_decision log = ALLOW \<longleftrightarrow> decide (rules pe) user action resource) \<and>
     fst (check uid now user action resource pe) \<in> insert (Inr log) (range Inl)"
proof -
  obtain log where log: "snd (check uid now user action resource pe) = pe\<lparr>auditLogs := auditLogs pe @ [log]\<rparr>"
    "al_user log = user" "al_action log = action" "al_resource log = resource"
    "al_decision log = ALLOW \<longleftrightarrow> decide (rules pe) user action resource"
    "\<forall>l. fst (check uid now user action resource pe) = Inr l \<longrightarrow> l = log"
    using check_decides by metis
  then show ?thesis by (cases "fst (check uid now user action resource pe)") auto
qed

text \<open>Privilege is monotone: when the conditions of the rules do not look at the role, a user who is
  allowed stays allowed after being given a more privileged role.\<close>

theorem rbac_role_monotone:
  assumes "al_decision (last (auditLogs (snd (check uid now (Some u) action resource pe)))) = ALLOW"
    and "ROLE_HIERARCHY (us_role u) \<le> ROLE_HIERARCHY r"
    and "\<forall>rule \<in> set (rules pe). condition_holds rule (u\<lparr>us_role := r\<rparr>) resource = condition_holds rule u resource"
  shows "al_decision (last (auditLogs (snd (check uid' now' (Some (u\<lparr>us_role := r\<rparr>)) action resource pe)))) = ALLOW"
proof -
  obtain log where log: "snd (check uid now (Some u) action resource pe) = pe\<lparr>auditLogs := auditLogs pe @ [log]\<rparr>"
    "al_decision log = ALLOW \<longleftrightarrow> decide (rules pe) (Some u) action resource"
    using check_decides by metis
  obtain log' where log': "snd (check uid' now' (Some (u\<lparr>us_role := r\<rparr>)) action resource pe) =
      pe\<lparr>auditLogs := auditLogs pe @ [log']\<rparr>"
    "al_decision log' = ALLOW \<longleftrightarrow> decide (rules pe) (Some (u\<lparr>us_role := r\<rparr>)) action resource"
    using check_decides by metis
  have "decide (rules pe) (Some u) action resource" using assms(1) log by simp
  then have "decide (rules pe) (Some (u\<lparr>us_role := r\<rparr>)) action resource"
    using assms(2,3) unfolding decide_def grants_def by simp (meson order_trans)
  then show ?thesis using log' by simp
qed

definition sample_user :: AuthenticatedUser where
  "sample_user = \<lparr>us_id = ''u1'', us_address = ''G1'', us_role = User\<rparr>"

definition sample_engine :: PolicyEngine where
  "sample_engine = addRule (requireMinRole ''write:*'' ''bond:*'' User) newPolicyEngine"

theorem rbac_role_monotone_witness:
  "al_decision (last (auditLogs (snd (check ''y'' 2 (Some (sample_user\<lparr>us_role := Admin\<rparr>)) ''write:bond'' ''bond:7''
     sample_engine)))) = ALLOW"
proof -
  have "al_decision (last (auditLogs (snd (check ''x'' 1 (Some sample_user) ''write:bond'' ''bond:7'' sample_engine)))) = ALLOW"
    by code_simp
  then show ?thesis
    by (rule rbac_role_monotone)
      (simp_all add: sample_user_def sample_engine_def addRule_def newPolicyEngine_def requireMinRole_def condition_holds_def)
qed

text \<open>The prepared rules mean what they say: as the only rule of an engine, on an action and a resource
  their patterns match, requireMinRole admits exactly the roles at or above the minimum, adminOnly exactly
  administrators, and ownerOnly exactly signed-in callers (of any role but public) who own the resource by id or
  address, administrators included; a pattern with a single trailing star matches exactly the extensions of its
  prefix that contain no line terminator.\<close>

theorem rbac_prepared_rules:
  assumes "wildcardMatch ap action" and "wildcardMatch rp resource" and "CHR ''*'' \<notin> set pre"
  shows "(decide [requireMinRole ap rp m] (Some u) action resource \<longleftrightarrow> ROLE_HIERARCHY m \<le> ROLE_HIERARCHY (us_role u)) \<and>
    (decide [requireMinRole ap rp m] None action resource \<longleftrightarrow> m = Public) \<and>
    (decide [adminOnly ap rp] user action resource \<longleftrightarrow> (\<exists>u. user = Some u \<and> us_role u = Admin)) \<and>
    (decide [ownerOnly ap rp owner] user action resource \<longleftrightarrow>
       (\<exists>u. user = Some u \<and> us_role u \<noteq> Public \<and> owner resource \<in> {us_id u, us_address u})) \<and>
    (pre \<noteq> [] \<longrightarrow> wildcardMatch (pre @ ''*'') v \<longleftrightarrow>
       (\<exists>rest. v = pre @ rest \<and> list_all (\<lambda>c. \<not> line_terminator c) rest))"
proof (intro conjI impI)
  have m: "ruleMatches r action resource" if "ru_actions r = [ap]" "ru_resources r = [rp]" for r
    using assms(1,2) that by (simp add: ruleMatches_def)
  show "decide [requireMinRole ap rp m] (Some u) action resource \<longleftrightarrow> ROLE_HIERARCHY m \<le> ROLE_HIERARCHY (us_role u)"
    by (cases m; cases "us_role u") (simp_all add: decide_def m requireMinRole_def grants_def condition_holds_def)
  show "decide [requireMinRole ap rp m] None action resource \<longleftrightarrow> m = Public"
    by (cases m) (simp_all add: decide_def m requireMinRole_def grants_def)
  show "decide [adminOnly ap rp] user action resource \<longleftrightarrow> (\<exists>u. user = Some u \<and> us_role u = Admin)"
  proof (cases user)
    case (Some u)
    then show ?thesis
      by (cases "us_role u") (simp_all add: decide_def m adminOnly_def grants_def condition_holds_def)
  qed (simp add: decide_def m adminOnly_def grants_def)
  show "decide [ownerOnly ap rp owner] user action resource \<longleftrightarrow>
      (\<exists>u. user = Some u \<and> us_role u \<noteq> Public \<and> owner resource \<in> {us_id u, us_address u})"
  proof (cases user)
    case (Some u)
    then show ?thesis
      by (cases "us_role u") (auto simp: decide_def m ownerOnly_def grants_def condition_holds_def Let_def)
  qed (simp add: decide_def m ownerOnly_def grants_def)
  assume "pre \<noteq> []"
  then have "pre @ ''*'' \<noteq> ''*''" by (cases pre) auto
  then show "wildcardMatch (pre @ ''*'') v \<longleftrightarrow> (\<exists>rest. v = pre @ rest \<and> list_all (\<lambda>c. \<not> line_terminator c) rest)"
    using glob_prefix [OF assms(3)] by (simp add: wildcardMatch_def)
qed

theorem rbac_prepared_rules_witness:
  "decide [ownerOnly ''*'' ''*'' (\<lambda>r. ''u1'')] (Some sample_user) ''read:bond'' ''bond:1'' \<and>
   \<not> decide [adminOnly ''*'' ''*''] (Some sample_user) ''read:bond'' ''bond:1'' \<and>
   \<not> wildcardMatch ''read:*'' ''write:x''"
  using rbac_prepared_rules [of "''*''" "''read:bond''" "''*''" "''bond:1''" "''read:''" Admin sample_user
      "Some sample_user" "\<lambda>r. ''u1''" "''write:x''"]
  by (simp add: wildcardMatch_def sample_user_def)

end
