(* ===== verification/Policy.thy ===== *)
theory Policy
  imports Rbac
begin

text \<open>
  The organisation policy engine: types, evaluator, store with its read cache, and service
  (\<open>src/src/services/policy/types.ts\<close>, \<open>evaluator.ts\<close>, \<open>store.ts\<close>, \<open>service.ts\<close>).  Times are milliseconds,
  generated ids are arguments.  The audit service the policy service writes to is a log of entries.
\<close>

section \<open>Types\<close>

datatype PolicyEffect = EAllow | EDeny

datatype cond_value = CString string | CBool bool | CNumber int

type_synonym PolicyConditions = "(string, cond_value) jsmap"

record OrgRule =
  or_id :: string
  or_orgId :: string
  or_subject :: string
  or_action :: string
  or_resource :: string
  or_effect :: PolicyEffect
  or_conditions :: "PolicyConditions option"
  or_createdAt :: int
  or_updatedAt :: int

record CreatePolicyRuleInput =
  ci_orgId :: string
  ci_subject :: string
  ci_action :: string
  ci_resource :: string
  ci_effect :: PolicyEffect
  ci_conditions :: "PolicyConditions option"

record rule_patch =
  pa_orgId :: "string option"
  pa_subject :: "string option"
  pa_action :: "string option"
  pa_resource :: "string option"
  pa_effect :: "PolicyEffect option"
  pa_conditions :: "PolicyConditions option"

record PolicyContext =
  cx_userId :: string
  cx_role :: Role
  cx_orgId :: string
  cx_action :: string
  cx_resource :: string
  cx_extra :: "PolicyConditions option"

datatype decision_reason =
    ExplicitDeny string
  | ExplicitAllow string
  | FallbackAdmin
  | DenyByDefault

record OrgDecision =
  de_allowed :: bool
  de_reason :: decision_reason
  de_matchedRule :: "OrgRule option"

section \<open>The store\<close>

definition CACHE_TTL_MS :: int where "CACHE_TTL_MS = 30000"

record CacheEntry =
  ce_rules :: "OrgRule list"
  ce_expiresAt :: int

record PolicyStore =
  ps_rules :: "(string, OrgRule) jsmap"
  ps_cache :: "(string, CacheEntry) jsmap"

definition invalidate :: "string \<Rightarrow> PolicyStore \<Rightarrow> PolicyStore" where
  "invalidate orgId s = s\<lparr>ps_cache := map_delete ''*'' (map_delete orgId (ps_cache s))\<rparr>"

definition store_create :: "string \<Rightarrow> int \<Rightarrow> CreatePolicyRuleInput \<Rightarrow> PolicyStore \<Rightarrow> OrgRule \<times> PolicyStore" where
  "store_create hexId now input s =
     (let rule = \<lparr>or_id = hexId, or_orgId = ci_orgId input, or_subject = ci_subject input,
            or_action = ci_action input, or_resource = ci_resource input, or_effect = ci_effect input,
            or_conditions = ci_conditions input, or_createdAt = now, or_updatedAt = now\<rparr>
      in (rule, invalidate (or_orgId rule) (s\<lparr>ps_rules := map_set (or_id rule) rule (ps_rules s)\<rparr>)))"

definition patched :: "'a option \<Rightarrow> 'a \<Rightarrow> 'a" where
  "patched p old = (case p of None \<Rightarrow> old | Some v \<Rightarrow> v)"

definition store_update :: "int \<Rightarrow> string \<Rightarrow> rule_patch \<Rightarrow> PolicyStore \<Rightarrow> OrgRule option \<times> PolicyStore" where
  "store_update now i patch s =
     (case map_get (ps_rules s) i of
        None \<Rightarrow> (None, s)
      | Some existing \<Rightarrow>
          let updated = existing\<lparr>or_orgId := patched (pa_orgId patch) (or_orgId existing),
                or_subject := patched (pa_subject patch) (or_subject existing),
                or_action := patched (pa_action patch) (or_action existing),
                or_resource := patched (pa_resource patch) (or_resource existing),
                or_effect := patched (pa_effect patch) (or_effect existing),
                or_conditions := (case pa_conditions patch of None \<Rightarrow> or_conditions existing | Some c \<Rightarrow> Some c),
                or_updatedAt := now\<rparr>;
              s1 = invalidate (or_orgId existing) (s\<lparr>ps_rules := map_set i updated (ps_rules s)\<rparr>);
              s2 = (case pa_orgId patch of
                      None \<Rightarrow> s1
                    | Some org \<Rightarrow> if org \<noteq> '''' \<and> org \<noteq> or_orgId existing then invalidate org s1 else s1)
          in (Some updated, s2))"

definition store_delete :: "string \<Rightarrow> PolicyStore \<Rightarrow> bool \<times> PolicyStore" where
  "store_delete i s =
     (case map_get (ps_rules s) i of
        None \<Rightarrow> (False, s)
      | Some rule \<Rightarrow> (True, invalidate (or_orgId rule) (s\<lparr>ps_rules := map_delete i (ps_rules s)\<rparr>)))"

definition store_findById :: "string \<Rightarrow> PolicyStore \<Rightarrow> OrgRule option" where
  "store_findById i s = map_get (ps_rules s) i"

definition for_org :: "string \<Rightarrow> OrgRule \<Rightarrow> bool" where
  "for_org orgId r = (or_orgId r = orgId \<or> or_orgId r = ''*'')"

definition findAllByOrg :: "int \<Rightarrow> string \<Rightarrow> PolicyStore \<Rightarrow> OrgRule list \<times> PolicyStore" where
  "findAllByOrg now orgId s =
     (let fresh = (let all = filter (for_org orgId) (map_values (ps_rules s))
                   in (all, s\<lparr>ps_cache := map_set orgId \<lparr>ce_rules = all, ce_expiresAt = now + CACHE_TTL_MS\<rparr> (ps_cache s)\<rparr>))
      in case map_get (ps_cache s) orgId of
           None \<Rightarrow> fresh
         | Some cached \<Rightarrow> if now < ce_expiresAt cached then (ce_rules cached, s) else fresh)"

definition findByOrg :: "int \<Rightarrow> string \<Rightarrow> nat \<Rightarrow> nat \<Rightarrow> PolicyStore \<Rightarrow> (OrgRule list \<times> nat) \<times> PolicyStore" where
  "findByOrg now orgId limit offset s =
     (let (all, s1) = findAllByOrg now orgId s in ((take limit (drop offset all), length all), s1))"

definition store_reset :: "PolicyStore \<Rightarrow> PolicyStore" where
  "store_reset s = \<lparr>ps_rules = [], ps_cache = []\<rparr>"

section \<open>The evaluator\<close>

definition role_of_name :: "string \<Rightarrow> Role option" where
  "role_of_name s = find (\<lambda>r. role_name r = s) ALL_ROLES"

definition subjectMatches :: "string \<Rightarrow> PolicyContext \<Rightarrow> bool" where
  "subjectMatches subject ctx =
     (if subject = ''*'' then True
      else if subject = ''user:'' @ cx_userId ctx then True
      else if subject = role_name (cx_role ctx) then True
      else case role_of_name subject of
        Some r \<Rightarrow> ROLE_HIERARCHY (cx_role ctx) \<ge> ROLE_HIERARCHY r
      | None \<Rightarrow> False)"

definition actionMatches :: "string \<Rightarrow> string \<Rightarrow> bool" where
  "actionMatches ruleAction ctxAction = (ruleAction = ''*'' \<or> ruleAction = ctxAction)"

definition resourceMatches :: "string \<Rightarrow> string \<Rightarrow> bool" where
  "resourceMatches ruleResource ctxResource =
     (if ruleResource = ''*'' then True
      else if ruleResource = ctxResource then True
      else if endsWith ruleResource '':*'' then startsWith ctxResource (butlast ruleResource)
      else False)"

definition conditionsMatch :: "PolicyConditions option \<Rightarrow> PolicyConditions option \<Rightarrow> bool" where
  "conditionsMatch conditions extra =
     (case conditions of
        None \<Rightarrow> True
      | Some cs \<Rightarrow>
          if length cs = 0 then True
          else case extra of
            None \<Rightarrow> False
          | Some ex \<Rightarrow> list_all (\<lambda>(k, v). map_get ex k = Some v) cs)"

definition rule_matches :: "OrgRule \<Rightarrow> PolicyContext \<Rightarrow> bool" where
  "rule_matches rule ctx =
     (subjectMatches (or_subject rule) ctx \<and> actionMatches (or_action rule) (cx_action ctx) \<and>
      resourceMatches (or_resource rule) (cx_resource ctx) \<and> conditionsMatch (or_conditions rule) (cx_extra ctx))"

definition evaluate :: "int \<Rightarrow> PolicyContext \<Rightarrow> PolicyStore \<Rightarrow> OrgDecision \<times> PolicyStore" where
  "evaluate now ctx s =
     (let (rs, s1) = findAllByOrg now (cx_orgId ctx) s;
          matching = filter (\<lambda>r. rule_matches r ctx) rs
      in case find (\<lambda>r. or_effect r = EDeny) matching of
           Some denyRule \<Rightarrow>
             (\<lparr>de_allowed = False, de_reason = ExplicitDeny (or_id denyRule), de_matchedRule = Some denyRule\<rparr>, s1)
         | None \<Rightarrow>
             (case find (\<lambda>r. or_effect r = EAllow) matching of
                Some allowRule \<Rightarrow>
                  (\<lparr>de_allowed = True, de_reason = ExplicitAllow (or_id allowRule), de_matchedRule = Some allowRule\<rparr>, s1)
              | None \<Rightarrow>
                  if ROLE_HIERARCHY (cx_role ctx) \<ge> ROLE_HIERARCHY Admin
                  then (\<lparr>de_allowed = True, de_reason = FallbackAdmin, de_matchedRule = None\<rparr>, s1)
                  else (\<lparr>de_allowed = False, de_reason = DenyByDefault, de_matchedRule = None\<rparr>, s1)))"

section \<open>The service\<close>

datatype policy_audit =
    RuleCreated string string string string string string string PolicyEffect
  | RuleUpdated string string string string rule_patch
  | RuleDeleted string string string string string

record PolicyService =
  sv_store :: PolicyStore
  sv_audit :: "policy_audit list"

datatype policy_error = RuleNotFound string

definition authorize :: "int \<Rightarrow> PolicyContext \<Rightarrow> PolicyService \<Rightarrow> OrgDecision \<times> PolicyService" where
  "authorize now ctx svc =
     (let (d, s1) = evaluate now ctx (sv_store svc) in (d, svc\<lparr>sv_store := s1\<rparr>))"

definition createRule ::
  "string \<Rightarrow> int \<Rightarrow> string \<Rightarrow> string \<Rightarrow> string \<Rightarrow> CreatePolicyRuleInput \<Rightarrow> PolicyService \<Rightarrow> OrgRule \<times> PolicyService" where
  "createRule hexId now tenantId actorId actorEmail input svc =
     (let (rule, s1) = store_create hexId now input (sv_store svc)
      in (rule, svc\<lparr>sv_store := s1, sv_audit := sv_audit svc @ 
             [RuleCreated tenantId actorId actorEmail (or_id rule) (or_orgId rule) (or_subject rule) (or_action rule) (or_effect rule)]\<rparr>))"

definition updateRule ::
  "int \<Rightarrow> string \<Rightarrow> string \<Rightarrow> string \<Rightarrow> string \<Rightarrow> rule_patch \<Rightarrow> (PolicyService, policy_error, OrgRule) exec" where
  "updateRule now tenantId actorId actorEmail ruleId patch svc =
     (case store_update now ruleId patch (sv_store svc) of
        (None, s1) \<Rightarrow> (Inl (RuleNotFound ruleId), svc\<lparr>sv_store := s1\<rparr>)
      | (Some updated, s1) \<Rightarrow>
          (Inr updated, svc\<lparr>sv_store := s1, sv_audit := sv_audit svc @ [RuleUpdated tenantId actorId actorEmail ruleId patch]\<rparr>))"

definition deleteRule :: "string \<Rightarrow> string \<Rightarrow> string \<Rightarrow> string \<Rightarrow> (PolicyService, policy_error, unit) exec" where
  "deleteRule tenantId actorId actorEmail ruleId svc =
     (case store_findById ruleId (sv_store svc) of
        None \<Rightarrow> (Inl (RuleNotFound ruleId), svc)
      | Some rule \<Rightarrow>
          (Inr (), svc\<lparr>sv_store := snd (store_delete ruleId (sv_store svc)),
                       sv_audit := sv_audit svc @ [RuleDeleted tenantId actorId actorEmail ruleId (or_orgId rule)]\<rparr>))"

definition listRules :: "int \<Rightarrow> string \<Rightarrow> nat \<Rightarrow> nat \<Rightarrow> PolicyService \<Rightarrow> (OrgRule list \<times> nat) \<times> PolicyService" where
  "listRules now orgId limit offset svc =
     (let (r, s1) = findByOrg now orgId limit offset (sv_store svc) in (r, svc\<lparr>sv_store := s1\<rparr>))"

definition getRule :: "string \<Rightarrow> PolicyService \<Rightarrow> OrgRule option" where
  "getRule ruleId svc = store_findById ruleId (sv_store svc)"

section \<open>The reference decision\<close>

definition deny_overrides :: "OrgRule set \<Rightarrow> PolicyContext \<Rightarrow> bool" where
  "deny_overrides rs ctx \<longleftrightarrow>
     (\<forall>r \<in> rs. rule_matches r ctx \<longrightarrow> or_effect r \<noteq> EDeny) \<and>
     ((\<exists>r \<in> rs. rule_matches r ctx \<and> or_effect r = EAllow) \<or> cx_role ctx = Admin)"

text \<open>
  What \<open>types.ts\<close> documents (some matching rule allows and none denies), and what the evaluator adds to it:
  an administrator for whose request no rule matches at all.
\<close>

definition documented_decision :: "OrgRule set \<Rightarrow> PolicyContext \<Rightarrow> bool" where
  "documented_decision rs ctx \<longleftrightarrow>
     (\<exists>r \<in> rs. rule_matches r ctx \<and> or_effect r = EAllow) \<and> \<not> (\<exists>r \<in> rs. rule_matches r ctx \<and> or_effect r = EDeny)"

definition admin_fallback :: "OrgRule set \<Rightarrow> PolicyContext \<Rightarrow> bool" where
  "admin_fallback rs ctx \<longleftrightarrow> cx_role ctx = Admin \<and> \<not> (\<exists>r \<in> rs. rule_matches r ctx)"

lemma deny_overrides_split: "deny_overrides rs ctx \<longleftrightarrow> documented_decision rs ctx \<or> admin_fallback rs ctx"
proof -
  have "or_effect r = EAllow \<or> or_effect r = EDeny" for r by (cases "or_effect r") simp_all
  then show ?thesis unfolding deny_overrides_def documented_decision_def admin_fallback_def by blast
qed

lemma admin_level [simp]: "3 \<le> ROLE_HIERARCHY r \<longleftrightarrow> r = Admin"
  by (cases r) simp_all

lemma evaluate_decides:
  "de_allowed (fst (evaluate now ctx s)) = deny_overrides (set (fst (findAllByOrg now (cx_orgId ctx) s))) ctx"
  "snd (evaluate now ctx s) = snd (findAllByOrg now (cx_orgId ctx) s)"
proof -
  let ?rs = "fst (findAllByOrg now (cx_orgId ctx) s)"
  let ?f = "\<lambda>ef. find (\<lambda>r. or_effect r = ef) (filter (\<lambda>r. rule_matches r ctx) ?rs)"
  have none: "?f ef = None \<longleftrightarrow> \<not> (\<exists>r \<in> set ?rs. rule_matches r ctx \<and> or_effect r = ef)" for ef
    by (auto simp: find_None_iff)
  have e: "de_allowed (fst (evaluate now ctx s)) = (?f EDeny = None \<and> (?f EAllow \<noteq> None \<or> cx_role ctx = Admin))"
    by (simp add: evaluate_def Let_def split: prod.splits option.splits)
  show "de_allowed (fst (evaluate now ctx s)) = deny_overrides (set ?rs) ctx"
    unfolding e none deny_overrides_def by blast
  show "snd (evaluate now ctx s) = snd (findAllByOrg now (cx_orgId ctx) s)"
    by (simp add: evaluate_def Let_def split: prod.splits option.splits)
qed

lemma evaluate_fallback:
  "de_reason (fst (evaluate now ctx s)) = FallbackAdmin \<longleftrightarrow> admin_fallback (set (fst (findAllByOrg now (cx_orgId ctx) s))) ctx"
proof -
  let ?rs = "fst (findAllByOrg now (cx_orgId ctx) s)"
  let ?f = "\<lambda>ef. find (\<lambda>r. or_effect r = ef) (filter (\<lambda>r. rule_matches r ctx) ?rs)"
  have none: "?f ef = None \<longleftrightarrow> \<not> (\<exists>r \<in> set ?rs. rule_matches r ctx \<and> or_effect r = ef)" for ef
    by (auto simp: find_None_iff)
  have eff: "or_effect r = EAllow \<or> or_effect r = EDeny" for r by (cases "or_effect r") simp_all
  have e: "de_reason (fst (evaluate now ctx s)) = FallbackAdmin \<longleftrightarrow> (?f EDeny = None \<and> ?f EAllow = None \<and> cx_role ctx = Admin)"
    by (simp add: evaluate_def Let_def split: prod.splits option.splits)
  show ?thesis unfolding e none admin_fallback_def using eff by blast
qed

section \<open>Coherence of the cache\<close>

lemma filter_values_set:
  assumes "\<not> P new" "\<And>old. map_get m i = Some old \<Longrightarrow> \<not> P old"
  shows "filter P (map_values (map_set i new m)) = filter P (map_values m)"
  using assms by (induction m) auto

lemma filter_values_delete:
  assumes "map_wf m" "\<And>old. map_get m i = Some old \<Longrightarrow> \<not> P old"
  shows "filter P (map_values (map_delete i m)) = filter P (map_values m)"
  using assms
proof (induction m)
  case (Cons kv m)
  obtain k v where kv: "kv = (k, v)" by (cases kv)
  have wf: "map_wf m" "k \<notin> fst ` set m" using Cons.prems(1) by (auto simp: kv map_wf_def)
  show ?case
  proof (cases "k = i")
    case True
    then have "map_delete i m = m" using wf(2) by (simp add: delete_id)
    with True Cons.prems(2) show ?thesis by (simp add: kv)
  next
    case False
    with Cons.IH [OF wf(1)] Cons.prems(2) show ?thesis by (simp add: kv)
  qed
qed simp

definition coherent :: "PolicyStore \<Rightarrow> bool" where
  "coherent s \<longleftrightarrow> map_wf (ps_rules s) \<and> (\<forall>r \<in> set (map_values (ps_rules s)). or_orgId r \<noteq> ''*'') \<and>
     (\<forall>org e. map_get (ps_cache s) org = Some e \<longrightarrow> ce_rules e = filter (for_org org) (map_values (ps_rules s)))"

lemma coherent_write:
  assumes "coherent s" "map_wf rules'" "\<forall>r \<in> set (map_values rules'). or_orgId r \<noteq> ''*''"
    and "\<And>org e. map_get cache' org = Some e \<Longrightarrow> map_get (ps_cache s) org = Some e \<and>
      filter (for_org org) (map_values rules') = filter (for_org org) (map_values (ps_rules s))"
  shows "coherent \<lparr>ps_rules = rules', ps_cache = cache'\<rparr>"
  using assms by (simp add: coherent_def)

lemma values_set_subset: "set (map_values (map_set i r m)) \<subseteq> insert r (set (map_values m))"
  by (induction m) auto

lemma values_delete_subset: "set (map_values (map_delete i m)) \<subseteq> set (map_values m)"
  by (induction m) auto

lemma coherent_create:
  assumes "coherent s" "\<not> map_has (ps_rules s) i" "ci_orgId input \<noteq> ''*''"
  shows "coherent (snd (store_create i now input s))"
proof -
  obtain r where r: "or_orgId r = ci_orgId input" and s': "snd (store_create i now input s) =
      \<lparr>ps_rules = map_set i r (ps_rules s), ps_cache = map_delete ''*'' (map_delete (ci_orgId input) (ps_cache s))\<rparr>"
    by (rule that [of "fst (store_create i now input s)"]) (cases s; simp add: store_create_def invalidate_def Let_def)+
  have i: "map_get (ps_rules s) i = None" using assms(2) by (simp add: map_has_def)
  show ?thesis
    unfolding s'
  proof (rule coherent_write [OF assms(1)])
    show "map_wf (map_set i r (ps_rules s))" using assms(1) by (simp add: coherent_def map_wf_set)
    show "\<forall>x \<in> set (map_values (map_set i r (ps_rules s))). or_orgId x \<noteq> ''*''"
      using assms(1,3) r values_set_subset [of i r "ps_rules s"] unfolding coherent_def by (metis insertE subsetD)
    fix org e
    assume c: "map_get (map_delete ''*'' (map_delete (ci_orgId input) (ps_cache s))) org = Some e"
    then have "\<not> for_org org r" using assms(3) r by (auto simp: for_org_def store_simps split: if_splits)
    then show "map_get (ps_cache s) org = Some e \<and>
        filter (for_org org) (map_values (map_set i r (ps_rules s))) = filter (for_org org) (map_values (ps_rules s))"
      using c i by (auto simp: store_simps intro!: filter_values_set split: if_splits)
  qed
qed

lemma store_update_Some:
  assumes "map_get (ps_rules s) i = Some old"
  obtains new cache' where "snd (store_update now i patch s) = \<lparr>ps_rules = map_set i new (ps_rules s), ps_cache = cache'\<rparr>"
    and "or_orgId new = patched (pa_orgId patch) (or_orgId old)"
    and "\<And>org. map_get cache' org =
      (if org = ''*'' \<or> org = or_orgId old \<or> (org = or_orgId new \<and> org \<noteq> '''') then None else map_get (ps_cache s) org)"
proof -
  let ?new = "old\<lparr>or_orgId := patched (pa_orgId patch) (or_orgId old),
                or_subject := patched (pa_subject patch) (or_subject old),
                or_action := patched (pa_action patch) (or_action old),
                or_resource := patched (pa_resource patch) (or_resource old),
                or_effect := patched (pa_effect patch) (or_effect old),
                or_conditions := (case pa_conditions patch of None \<Rightarrow> or_conditions old | Some c \<Rightarrow> Some c),
                or_updatedAt := now\<rparr>"
  show thesis
    by (rule that [of ?new "ps_cache (snd (store_update now i patch s))"])
      (auto simp: store_update_def assms Let_def invalidate_def patched_def store_simps split: option.splits)
qed

lemma coherent_update:
  assumes "coherent s" "pa_orgId patch \<noteq> Some ''*''" "pa_orgId patch \<noteq> Some ''''"
  shows "coherent (snd (store_update now i patch s))"
proof (cases "map_get (ps_rules s) i")
  case None
  then show ?thesis using assms(1) by (simp add: store_update_def)
next
  case (Some old)
  then obtain new cache' where u: "snd (store_update now i patch s) = \<lparr>ps_rules = map_set i new (ps_rules s), ps_cache = cache'\<rparr>"
    and org: "or_orgId new = patched (pa_orgId patch) (or_orgId old)"
    and cache: "\<And>org. map_get cache' org =
      (if org = ''*'' \<or> org = or_orgId old \<or> (org = or_orgId new \<and> org \<noteq> '''') then None else map_get (ps_cache s) org)"
    by (rule store_update_Some [of s i old now patch]) (rule that)
  have old: "or_orgId old \<noteq> ''*''" using assms(1) Some map_values_get [of "ps_rules s" old] by (auto simp: coherent_def)
  then have new: "or_orgId new \<noteq> ''*''" "or_orgId new = '''' \<Longrightarrow> or_orgId old = ''''"
    using assms(2,3) org by (auto simp: patched_def split: option.splits)
  show ?thesis
    unfolding u
  proof (rule coherent_write [OF assms(1)])
    show "map_wf (map_set i new (ps_rules s))" using assms(1) by (simp add: coherent_def map_wf_set)
    show "\<forall>x \<in> set (map_values (map_set i new (ps_rules s))). or_orgId x \<noteq> ''*''"
      using assms(1) new(1) values_set_subset [of i new "ps_rules s"] unfolding coherent_def by (metis insertE subsetD)
    fix o' e
    assume c: "map_get cache' o' = Some e"
    then have "\<not> for_org o' new" "\<not> for_org o' old" using cache [of o'] new old by (auto simp: for_org_def split: if_splits)
    then show "map_get (ps_cache s) o' = Some e \<and>
        filter (for_org o') (map_values (map_set i new (ps_rules s))) = filter (for_org o') (map_values (ps_rules s))"
      using c cache [of o'] Some by (auto intro!: filter_values_set split: if_splits)
  qed
qed

lemma coherent_delete:
  assumes "coherent s"
  shows "coherent (snd (store_delete i s))"
proof (cases "map_get (ps_rules s) i")
  case None
  then show ?thesis using assms by (simp add: store_delete_def)
next
  case (Some old)
  have old: "or_orgId old \<noteq> ''*''" using assms Some map_values_get [of "ps_rules s" old] by (auto simp: coherent_def)
  have d: "snd (store_delete i s) = \<lparr>ps_rules = map_delete i (ps_rules s), ps_cache = map_delete ''*'' (map_delete (or_orgId old) (ps_cache s))\<rparr>"
    by (simp add: store_delete_def Some invalidate_def)
  show ?thesis
    unfolding d
  proof (rule coherent_write [OF assms])
    show "map_wf (map_delete i (ps_rules s))" using assms by (simp add: coherent_def map_wf_delete)
    show "\<forall>x \<in> set (map_values (map_delete i (ps_rules s))). or_orgId x \<noteq> ''*''"
      using assms values_delete_subset [of i "ps_rules s"] unfolding coherent_def by (metis subsetD)
    fix org e
    assume c: "map_get (map_delete ''*'' (map_delete (or_orgId old) (ps_cache s))) org = Some e"
    then have "\<not> for_org org old" using old by (auto simp: for_org_def store_simps split: if_splits)
    then show "map_get (ps_cache s) org = Some e \<and>
        filter (for_org org) (map_values (map_delete i (ps_rules s))) = filter (for_org org) (map_values (ps_rules s))"
      using c Some assms by (auto simp: store_simps coherent_def intro!: filter_values_delete split: if_splits)
  qed
qed

lemma coherent_findAll:
  assumes "coherent s"
  shows "fst (findAllByOrg now org s) = filter (for_org org) (map_values (ps_rules s))"
    and "coherent (snd (findAllByOrg now org s))"
    and "ps_rules (snd (findAllByOrg now org s)) = ps_rules s"
  using assms by (auto simp: findAllByOrg_def coherent_def store_simps Let_def split: option.splits)

section \<open>Sequences of service calls\<close>

datatype policy_call =
    PCreate string int string string string CreatePolicyRuleInput
  | PUpdate int string string string string rule_patch
  | PDelete string string string string
  | PAuthorize int PolicyContext
  | PList int string nat nat

fun policy_step :: "PolicyService \<Rightarrow> policy_call \<Rightarrow> PolicyService" where
  "policy_step svc (PCreate hexId now tenant actor email input) = snd (createRule hexId now tenant actor email input svc)"
| "policy_step svc (PUpdate now tenant actor email i patch) = snd (updateRule now tenant actor email i patch svc)"
| "policy_step svc (PDelete tenant actor email i) = snd (deleteRule tenant actor email i svc)"
| "policy_step svc (PAuthorize now ctx) = snd (authorize now ctx svc)"
| "policy_step svc (PList now org limit offset) = snd (listRules now org limit offset svc)"

text \<open>Calls with fresh random ids, none of which makes a rule platform-wide (\<open>*\<close>) or moves one to the empty organisation id.\<close>

fun org_call :: "PolicyService \<Rightarrow> policy_call \<Rightarrow> bool" where
  "org_call svc (PCreate hexId now tenant actor email input) \<longleftrightarrow> \<not> map_has (ps_rules (sv_store svc)) hexId \<and> ci_orgId input \<noteq> ''*''"
| "org_call svc (PUpdate now tenant actor email i patch) \<longleftrightarrow> pa_orgId patch \<noteq> Some ''*'' \<and> pa_orgId patch \<noteq> Some ''''"
| "org_call svc _ \<longleftrightarrow> True"

fun org_calls :: "PolicyService \<Rightarrow> policy_call list \<Rightarrow> bool" where
  "org_calls svc [] \<longleftrightarrow> True"
| "org_calls svc (c # cs) \<longleftrightarrow> org_call svc c \<and> org_calls (policy_step svc c) cs"

definition newPolicyService :: PolicyService where
  "newPolicyService = \<lparr>sv_store = store_reset \<lparr>ps_rules = [], ps_cache = []\<rparr>, sv_audit = []\<rparr>"

lemma sv_store_simps [simp]:
  "sv_store (snd (createRule h now tenant actor email input svc)) = snd (store_create h now input (sv_store svc))"
  "sv_store (snd (updateRule now tenant actor email i patch svc)) = snd (store_update now i patch (sv_store svc))"
  "sv_store (snd (authorize now ctx svc)) = snd (findAllByOrg now (cx_orgId ctx) (sv_store svc))"
  "sv_store (snd (listRules now org l off svc)) = snd (findAllByOrg now org (sv_store svc))"
  "fst (authorize now ctx svc) = fst (evaluate now ctx (sv_store svc))"
  by (simp_all add: evaluate_decides(2) [symmetric] createRule_def updateRule_def authorize_def listRules_def findByOrg_def Let_def split: prod.splits option.splits)

lemma sv_store_delete [simp]: "sv_store (snd (deleteRule tenant actor email i svc)) = snd (store_delete i (sv_store svc))"
  by (simp add: deleteRule_def store_findById_def store_delete_def split: option.splits)

lemma coherent_step: "coherent (sv_store svc) \<Longrightarrow> org_call svc c \<Longrightarrow> coherent (sv_store (policy_step svc c))"
  by (cases c) (simp_all add: coherent_create coherent_update coherent_delete coherent_findAll)

lemma coherent_run: "coherent (sv_store svc) \<Longrightarrow> org_calls svc cs \<Longrightarrow> coherent (sv_store (foldl policy_step svc cs))"
  by (induction cs arbitrary: svc) (simp_all add: coherent_step)

lemma coherent_new: "coherent (sv_store newPolicyService)"
  by (simp add: newPolicyService_def coherent_def store_reset_def)

lemma authorize_coherent:
  assumes "coherent (sv_store svc)"
  shows "de_allowed (fst (authorize now ctx svc)) =
    deny_overrides (set (filter (for_org (cx_orgId ctx)) (map_values (ps_rules (sv_store svc))))) ctx"
  using coherent_findAll(1) [OF assms] by (simp add: evaluate_decides)

lemma authorize_fallback:
  assumes "coherent (sv_store svc)"
  shows "de_reason (fst (authorize now ctx svc)) = FallbackAdmin \<longleftrightarrow>
    admin_fallback (set (filter (for_org (cx_orgId ctx)) (map_values (ps_rules (sv_store svc))))) ctx"
  using coherent_findAll(1) [OF assms] by (simp add: evaluate_fallback)

lemma authorize_cached:
  assumes "map_get (ps_cache (sv_store svc)) (cx_orgId ctx) = Some e"
  shows "de_allowed (fst (authorize now ctx svc)) = deny_overrides
    (if now < ce_expiresAt e then set (ce_rules e)
     else set (filter (for_org (cx_orgId ctx)) (map_values (ps_rules (sv_store svc))))) ctx"
  using assms by (simp add: evaluate_decides findAllByOrg_def Let_def)

section \<open>Properties\<close>

text \<open>
  Claim C14.  The organisation policy service decides on the stored rules whatever calls came before,
  cache included: after any sequence of rule creations, updates, deletions, decisions
  and listings that starts from the empty service, gives every new rule a fresh id and never makes
  a rule platform-wide, \<open>authorize\<close> allows a request exactly when some stored rule of the caller's
  organisation that matches the request allows it and none denies it, which is the decision documented in
  \<open>types.ts\<close>, or when no such rule matches and the caller is an administrator, which that file does not
  mention; the reason given tells this case apart.
\<close>

theorem policy_deny_overrides:
  assumes "org_calls newPolicyService cs"
  defines "svc \<equiv> foldl policy_step newPolicyService cs"
  shows "let rs = set (filter (for_org (cx_orgId ctx)) (map_values (ps_rules (sv_store svc)))) in
    de_allowed (fst (authorize now ctx svc)) = (documented_decision rs ctx \<or> admin_fallback rs ctx) \<and>
    (de_reason (fst (authorize now ctx svc)) = FallbackAdmin \<longleftrightarrow> admin_fallback rs ctx)"
proof -
  have c: "coherent (sv_store svc)" unfolding svc_def by (rule coherent_run [OF coherent_new assms(1)])
  show ?thesis unfolding Let_def authorize_coherent [OF c] authorize_fallback [OF c] deny_overrides_split by blast
qed

text \<open>
  Claim C37.  Writing a platform-wide rule (organisation \<open>*\<close>) does not reach the organisations
  whose rules are cached: while the cache entry of the caller's organisation is alive, a decision
  after the creation of such a rule is taken on the cached rules alone, so a new platform-wide
  deny is ignored; once the entry has expired the decision is taken on all rules of the
  organisation, the new one included.
\<close>

theorem policy_platform_rule_stale:
  fixes hexId tenant actor email :: string and t :: int
  assumes "map_get (ps_cache (sv_store svc)) (cx_orgId ctx) = Some e" "cx_orgId ctx \<noteq> ''*''" "ci_orgId input = ''*''"
  defines "svc' \<equiv> snd (createRule hexId t tenant actor email input svc)"
  shows "de_allowed (fst (authorize now ctx svc')) = deny_overrides
    (if now < ce_expiresAt e then set (ce_rules e)
     else set (filter (for_org (cx_orgId ctx)) (map_values (ps_rules (sv_store svc'))))) ctx"
proof -
  have "map_get (ps_cache (sv_store svc')) (cx_orgId ctx) = Some e"
    using assms(1-3) by (simp add: svc'_def store_create_def invalidate_def store_simps Let_def)
  then show ?thesis by (rule authorize_cached)
qed

section \<open>Witnesses\<close>

definition any_rule :: "string \<Rightarrow> PolicyEffect \<Rightarrow> CreatePolicyRuleInput" where
  "any_rule org eff = \<lparr>ci_orgId = org, ci_subject = ''*'', ci_action = ''*'', ci_resource = ''bond:*'', ci_effect = eff,
     ci_conditions = None\<rparr>"

definition bond_request :: PolicyContext where
  "bond_request = \<lparr>cx_userId = ''u1'', cx_role = User, cx_orgId = ''acme'', cx_action = ''read'',
     cx_resource = ''bond:7'', cx_extra = None\<rparr>"

definition before_deny :: PolicyService where
  "before_deny = foldl policy_step newPolicyService
     [PCreate ''r1'' 0 ''t'' ''root'' ''root@acme'' (any_rule ''acme'' EAllow), PAuthorize 1 bond_request]"

definition stored :: "string \<Rightarrow> string \<Rightarrow> PolicyEffect \<Rightarrow> int \<Rightarrow> OrgRule" where
  "stored i org eff t = \<lparr>or_id = i, or_orgId = org, or_subject = ''*'', or_action = ''*'', or_resource = ''bond:*'',
     or_effect = eff, or_conditions = None, or_createdAt = t, or_updatedAt = t\<rparr>"

lemma stored_simps [simp]:
  "rule_matches (stored i org eff t) bond_request" "or_effect (stored i org eff t) = eff" "or_orgId (stored i org eff t) = org"
  by (simp_all add: stored_def bond_request_def rule_matches_def subjectMatches_def actionMatches_def resourceMatches_def
      conditionsMatch_def endsWith_def startsWith_def)

lemma any_rule_simps [simp]: "ci_orgId (any_rule org eff) = org" "cx_orgId bond_request = ''acme''" "cx_role bond_request = User"
  by (simp_all add: any_rule_def bond_request_def)

lemma store_any_rule [simp]:
  "snd (store_create i t (any_rule org eff) s) = invalidate org (s\<lparr>ps_rules := map_set i (stored i org eff t) (ps_rules s)\<rparr>)"
  by (simp add: store_create_def any_rule_def stored_def Let_def)

lemma before_deny_store: "sv_store before_deny = \<lparr>ps_rules = [(''r1'', stored ''r1'' ''acme'' EAllow 0)],
    ps_cache = [(''acme'', \<lparr>ce_rules = [stored ''r1'' ''acme'' EAllow 0], ce_expiresAt = 30001\<rparr>)]\<rparr>"
  by (simp add: before_deny_def newPolicyService_def store_reset_def invalidate_def findAllByOrg_def for_org_def
      CACHE_TTL_MS_def Let_def)

theorem policy_deny_overrides_witness:
  "\<not> de_allowed (fst (authorize 3 bond_request (foldl policy_step newPolicyService
     [PCreate ''r1'' 0 ''t'' ''root'' ''root@acme'' (any_rule ''acme'' EAllow), PAuthorize 1 bond_request,
      PCreate ''r2'' 2 ''t'' ''root'' ''root@acme'' (any_rule ''acme'' EDeny)])))"
proof -
  let ?cs = "[PCreate ''r1'' 0 ''t'' ''root'' ''root@acme'' (any_rule ''acme'' EAllow), PAuthorize 1 bond_request,
      PCreate ''r2'' 2 ''t'' ''root'' ''root@acme'' (any_rule ''acme'' EDeny)]"
  have "org_calls newPolicyService ?cs"
    by (simp add: newPolicyService_def store_reset_def invalidate_def findAllByOrg_def map_has_def Let_def)
  moreover have "foldl policy_step newPolicyService ?cs = policy_step before_deny (PCreate ''r2'' 2 ''t'' ''root'' ''root@acme'' (any_rule ''acme'' EDeny))"
    by (simp add: before_deny_def)
  ultimately show ?thesis
    using policy_deny_overrides [of ?cs bond_request 3]
    by (simp add: Let_def before_deny_store invalidate_def documented_decision_def admin_fallback_def for_org_def
        del: sv_store_simps(5) foldl_Cons)
qed

theorem policy_platform_rule_stale_witness:
  "de_allowed (fst (authorize 3 bond_request (snd (createRule ''r2'' 2 ''t'' ''root'' ''root@acme'' (any_rule ''*'' EDeny) before_deny)))) \<and>
   \<not> de_allowed (fst (authorize 30001 bond_request (snd (createRule ''r2'' 2 ''t'' ''root'' ''root@acme'' (any_rule ''*'' EDeny) before_deny))))"
proof -
  have e: "map_get (ps_cache (sv_store before_deny)) (cx_orgId bond_request) =
      Some \<lparr>ce_rules = [stored ''r1'' ''acme'' EAllow 0], ce_expiresAt = 30001\<rparr>"
    by (simp add: before_deny_store)
  have star: "cx_orgId bond_request \<noteq> ''*''" "ci_orgId (any_rule ''*'' EDeny) = ''*''" by simp_all
  show ?thesis
    unfolding policy_platform_rule_stale [OF e star]
    by (simp add: before_deny_store invalidate_def deny_overrides_def for_org_def)
qed

end
