(* ===== verification/Transactions.thy ===== *)
theory Transactions
  imports Prelude
begin

text \<open>
  The transaction manager (\<open>src/src/db/transaction.ts\<close>): the transaction loop with its retries on lock
  timeouts, the post-commit and rollback hooks, and the per-transaction budget.  What PostgreSQL and the
  other clients do is an environment: for every attempt it says whether a connection is available, what
  other transactions committed before, what the callback does to the database, and how the commit is
  answered, a commit that took effect while its acknowledgement was lost included.  A rolled back attempt
  leaves the database as it was before the attempt.
\<close>

section \<open>Types\<close>

datatype LockTimeoutPolicy = READONLY | DEFAULT | CRITICAL

record LockTimeoutConfig =
  lt_readonly :: int
  lt_default :: int
  lt_critical :: int

definition FALLBACK_TIMEOUTS :: LockTimeoutConfig where
  "FALLBACK_TIMEOUTS = \<lparr>lt_readonly = 2000, lt_default = 5000, lt_critical = 10000\<rparr>"

definition DEFAULT_MAX_DURATION_MS :: int where "DEFAULT_MAX_DURATION_MS = 2000"

definition DEFAULT_MAX_SAVEPOINTS :: int where "DEFAULT_MAX_SAVEPOINTS = 8"

record TransactionOptions =
  op_policy :: "LockTimeoutPolicy option"
  op_timeoutMs :: "int option"
  op_retryOnLockTimeout :: bool
  op_maxRetries :: int
  op_retryDelayMs :: int

text \<open>An error of a statement: the code 55P03 of an expired lock wait, or anything else.\<close>

datatype 'e tx_fault = PgLockTimeout | Fault 'e

datatype 'e tx_error = LockTimeoutError "LockTimeoutPolicy option" int | Thrown 'e

record 'h TransactionContext =
  postCommitHooks :: "'h list"
  rollbackHooks :: "'h list"

text \<open>What becomes visible of a call: the outcome of each attempt, the hooks that run, the waits in between.\<close>

datatype 'h tx_event = Committed nat | RolledBack nat | Unacknowledged nat | HookRun 'h | Slept int

text \<open>The server's answer to COMMIT.  When the connection breaks the commit may have taken effect all the same; the
  driver then reports a connection error, which is not a lock timeout.\<close>

datatype 'e commit_answer = CommitDone | CommitRefused "'e tx_fault" | CommitLost 'e

section \<open>Registration of hooks\<close>

definition runPostCommit :: "'h \<Rightarrow> 'h TransactionContext option \<Rightarrow> 'h TransactionContext option \<times> 'h tx_event list" where
  "runPostCommit hook ctx =
     (case ctx of
        None \<Rightarrow> (None, [HookRun hook])
      | Some c \<Rightarrow> (Some (c\<lparr>postCommitHooks := postCommitHooks c @ [hook]\<rparr>), []))"

definition runRollback :: "'h \<Rightarrow> 'h TransactionContext option \<Rightarrow> 'h TransactionContext option \<times> 'h tx_event list" where
  "runRollback hook ctx =
     (case ctx of
        None \<Rightarrow> (None, [])
      | Some c \<Rightarrow> (Some (c\<lparr>rollbackHooks := rollbackHooks c @ [hook]\<rparr>), []))"

section \<open>The budget of a transaction\<close>

datatype budget_error = DurationExceeded int int | SavepointsExceeded int int

definition ascii_upper :: "char \<Rightarrow> char" where
  "ascii_upper c = (if 97 \<le> (of_char c :: nat) \<and> (of_char c :: nat) \<le> 122 then char_of (of_char c - 32 :: nat) else c)"

definition wrappedQuery ::
  "int \<Rightarrow> int \<Rightarrow> int \<Rightarrow> string \<Rightarrow> (int \<times> 'db, budget_error + 'e, 'a) exec \<Rightarrow> (int \<times> 'db, budget_error + 'e, 'a) exec" where
  "wrappedQuery maxDurationMs maxSavepoints elapsed sql query s =
     (if elapsed > maxDurationMs then (Inl (Inl (DurationExceeded maxDurationMs elapsed)), s)
      else if startsWith (map ascii_upper (trim sql)) ''SAVEPOINT'' then
        let s1 = (fst s + 1, snd s)
        in if fst s1 > maxSavepoints then (Inl (Inl (SavepointsExceeded maxSavepoints (fst s1))), s1)
           else query s1
      else query s)"

lemma wrappedQuery_in_budget:
  assumes "\<forall>e. fst (wrappedQuery maxD maxS elapsed sql query (c, db)) \<noteq> Inl (Inl e)" and "c \<le> maxS"
  shows "elapsed \<le> maxD \<and> (\<exists>c'. c' \<le> maxS \<and> wrappedQuery maxD maxS elapsed sql query (c, db) = query (c', db))"
proof (cases "startsWith (map ascii_upper (trim sql)) ''SAVEPOINT''")
  case True
  with assms show ?thesis by (intro conjI exI [of _ "c + 1"]) (auto simp: wrappedQuery_def Let_def split: if_splits)
next
  case False
  with assms show ?thesis by (intro conjI exI [of _ c]) (auto simp: wrappedQuery_def Let_def split: if_splits)
qed

section \<open>The transaction loop\<close>

record ('db, 'e, 'a, 'h) tx_env =
  env_connect :: "nat \<Rightarrow> 'e option"
  env_others :: "nat \<Rightarrow> 'db \<Rightarrow> 'db"
  env_body :: "nat \<Rightarrow> 'db \<Rightarrow> ('e tx_fault, 'a) result \<times> 'db \<times> 'h TransactionContext"
  env_commit :: "nat \<Rightarrow> 'e commit_answer"

definition effectiveTimeoutMs :: "LockTimeoutConfig \<Rightarrow> TransactionOptions \<Rightarrow> int" where
  "effectiveTimeoutMs cfg opts =
     (case op_timeoutMs opts of
        Some ms \<Rightarrow> ms
      | None \<Rightarrow> (case op_policy opts of
          None \<Rightarrow> lt_default cfg
        | Some READONLY \<Rightarrow> lt_readonly cfg
        | Some DEFAULT \<Rightarrow> lt_default cfg
        | Some CRITICAL \<Rightarrow> lt_critical cfg))"

text \<open>One attempt: the callback and then the commit; an error of either ends in a rollback.\<close>

definition tx_attempt ::
  "('db, 'e, 'a, 'h) tx_env \<Rightarrow> nat \<Rightarrow> 'db \<Rightarrow> ('e tx_fault, 'a) result \<times> 'db \<times> 'h tx_event list" where
  "tx_attempt env n db =
     (case env_body env n db of
        (Inl e, db1, ctx) \<Rightarrow> (Inl e, db, RolledBack n # map HookRun (rollbackHooks ctx))
      | (Inr a, db1, ctx) \<Rightarrow>
          (case env_commit env n of
             CommitRefused e \<Rightarrow> (Inl e, db, RolledBack n # map HookRun (rollbackHooks ctx))
           | CommitLost e \<Rightarrow> (Inl (Fault e), db1, Unacknowledged n # map HookRun (rollbackHooks ctx))
           | CommitDone \<Rightarrow> (Inr a, db1, Committed n # map HookRun (postCommitHooks ctx))))"

function tx_loop ::
  "LockTimeoutConfig \<Rightarrow> TransactionOptions \<Rightarrow> ('db, 'e, 'a, 'h) tx_env \<Rightarrow> nat \<Rightarrow> 'db \<Rightarrow>
   ('e tx_error, 'a) result \<times> 'db \<times> 'h tx_event list" where
  "tx_loop cfg opts env attempts db =
     (let db0 = env_others env attempts db in
      case env_connect env attempts of
        Some e \<Rightarrow> (Inl (Thrown e), db0, [])
      | None \<Rightarrow>
          (case tx_attempt env attempts db0 of
             (Inr a, db1, tr) \<Rightarrow> (Inr a, db1, tr)
           | (Inl (Fault e), db1, tr) \<Rightarrow> (Inl (Thrown e), db1, tr)
           | (Inl PgLockTimeout, db1, tr) \<Rightarrow>
               if op_retryOnLockTimeout opts \<and> int attempts < op_maxRetries opts then
                 (case tx_loop cfg opts env (attempts + 1) db1 of
                    (r, db2, tr2) \<Rightarrow> (r, db2, tr @ Slept (op_retryDelayMs opts * 2 ^ attempts) # tr2))
               else (Inl (LockTimeoutError (op_policy opts) (effectiveTimeoutMs cfg opts)), db1, tr)))"
  by pat_completeness auto
termination
  by (relation "measure (\<lambda>(cfg, opts, env, attempts, db). nat (op_maxRetries opts) - attempts)") auto

declare tx_loop.simps [simp del]

text \<open>A call made inside a transaction joins it: no attempt, no retry and no rollback of its own.\<close>

definition withTransaction ::
  "LockTimeoutConfig \<Rightarrow> bool \<Rightarrow> TransactionOptions \<Rightarrow> ('db, 'e, 'a, 'h) tx_env \<Rightarrow> 'db \<Rightarrow>
   ('e tx_fault + 'e tx_error, 'a) result \<times> 'db \<times> 'h tx_event list" where
  "withTransaction cfg activeClient opts env db =
     (if activeClient then
        (case env_body env 0 db of
           (Inl e, db1, ctx) \<Rightarrow> (Inl (Inl e), db1, [])
         | (Inr a, db1, ctx) \<Rightarrow> (Inr a, db1, []))
      else
        (case tx_loop cfg opts env 0 db of
           (Inl e, db1, tr) \<Rightarrow> (Inl (Inr e), db1, tr)
         | (Inr a, db1, tr) \<Rightarrow> (Inr a, db1, tr)))"

section \<open>The attempts of a call\<close>

definition db_at :: "('db, 'e, 'a, 'h) tx_env \<Rightarrow> nat \<Rightarrow> nat \<Rightarrow> 'db \<Rightarrow> 'db" where
  "db_at env m n db = fold (env_others env) [m..<Suc n] db"

definition lock_failed :: "('db, 'e, 'a, 'h) tx_env \<Rightarrow> nat \<Rightarrow> 'db \<Rightarrow> bool" where
  "lock_failed env k db \<longleftrightarrow> env_connect env k = None \<and> fst (tx_attempt env k db) = Inl PgLockTimeout"

definition retries :: "TransactionOptions \<Rightarrow> nat \<Rightarrow> bool" where
  "retries opts k \<longleftrightarrow> op_retryOnLockTimeout opts \<and> int k < op_maxRetries opts"

definition failed_attempt :: "TransactionOptions \<Rightarrow> ('db, 'e, 'a, 'h) tx_env \<Rightarrow> 'db \<Rightarrow> nat \<Rightarrow> 'h tx_event list" where
  "failed_attempt opts env db k = snd (snd (tx_attempt env k db)) @ [Slept (op_retryDelayMs opts * 2 ^ k)]"

definition tx_last ::
  "LockTimeoutConfig \<Rightarrow> TransactionOptions \<Rightarrow> ('db, 'e, 'a, 'h) tx_env \<Rightarrow> nat \<Rightarrow> 'db \<Rightarrow>
   ('e tx_error, 'a) result \<times> 'db \<times> 'h tx_event list" where
  "tx_last cfg opts env n db =
     (case env_connect env n of
        Some e \<Rightarrow> (Inl (Thrown e), db, [])
      | None \<Rightarrow>
          (case tx_attempt env n db of
             (Inr a, db1, tr) \<Rightarrow> (Inr a, db1, tr)
           | (Inl (Fault e), db1, tr) \<Rightarrow> (Inl (Thrown e), db1, tr)
           | (Inl PgLockTimeout, db1, tr) \<Rightarrow>
               (Inl (LockTimeoutError (op_policy opts) (effectiveTimeoutMs cfg opts)), db1, tr)))"

lemma tx_attempt_rollback: "tx_attempt env n db = (Inl PgLockTimeout, db1, tr) \<Longrightarrow> db1 = db"
  by (auto simp: tx_attempt_def split: prod.splits sum.splits commit_answer.splits)

lemma db_at_simps [simp]:
  "db_at env m m db = env_others env m db"
  "m < n \<Longrightarrow> db_at env (Suc m) n (env_others env m db) = db_at env m n db"
  by (simp_all add: db_at_def upt_conv_Cons)

lemma tx_loop_stop:
  assumes "\<not> (lock_failed env m (env_others env m db) \<and> retries opts m)"
  shows "tx_loop cfg opts env m db = tx_last cfg opts env m (env_others env m db)"
  using assms unfolding lock_failed_def retries_def tx_last_def
  by (subst tx_loop.simps, cases "tx_attempt env m (env_others env m db)")
    (auto simp: Let_def split: option.splits sum.splits tx_fault.splits)

lemma tx_loop_retry:
  assumes "lock_failed env m (env_others env m db)" "retries opts m"
  shows "tx_loop cfg opts env m db = (case tx_loop cfg opts env (Suc m) (env_others env m db) of
    (r, db2, tr2) \<Rightarrow> (r, db2, failed_attempt opts env (env_others env m db) m @ tr2))"
proof -
  obtain tr where "tx_attempt env m (env_others env m db) = (Inl PgLockTimeout, env_others env m db, tr)"
    using assms(1) tx_attempt_rollback [of env m "env_others env m db"]
    by (cases "tx_attempt env m (env_others env m db)") (auto simp: lock_failed_def)
  then show ?thesis
    using assms unfolding lock_failed_def retries_def failed_attempt_def
    by (subst tx_loop.simps) (simp add: Let_def split: prod.splits)
qed

text \<open>The loop is its last attempt: every earlier one ended in a lock timeout and was rolled back.\<close>

lemma tx_loop_attempts:
  "\<exists>n \<ge> m. (m < n \<longrightarrow> int n \<le> op_maxRetries opts) \<and>
     (\<forall>k. m \<le> k \<and> k < n \<longrightarrow> lock_failed env k (db_at env m k db)) \<and>
     \<not> (lock_failed env n (db_at env m n db) \<and> retries opts n) \<and>
     tx_loop cfg opts env m db = (case tx_last cfg opts env n (db_at env m n db) of (r, db', tr) \<Rightarrow>
       (r, db', concat (map (\<lambda>k. failed_attempt opts env (db_at env m k db) k) [m..<n]) @ tr))"
proof (induction "nat (op_maxRetries opts) - m" arbitrary: m db rule: less_induct)
  case less
  show ?case
  proof (cases "lock_failed env m (env_others env m db) \<and> retries opts m")
    case False
    then show ?thesis by (intro exI [of _ m]) (auto simp: tx_loop_stop split: prod.splits)
  next
    case True
    then have dec: "nat (op_maxRetries opts) - Suc m < nat (op_maxRetries opts) - m" and m: "int (Suc m) \<le> op_maxRetries opts"
      by (auto simp: retries_def)
    from less [OF dec, of "env_others env m db"] obtain n where n: "Suc m \<le> n" "Suc m < n \<longrightarrow> int n \<le> op_maxRetries opts"
        "\<forall>k. Suc m \<le> k \<and> k < n \<longrightarrow> lock_failed env k (db_at env (Suc m) k (env_others env m db))"
        "\<not> (lock_failed env n (db_at env (Suc m) n (env_others env m db)) \<and> retries opts n)"
        "tx_loop cfg opts env (Suc m) (env_others env m db) =
         (case tx_last cfg opts env n (db_at env (Suc m) n (env_others env m db)) of (r, db', tr) \<Rightarrow>
           (r, db', concat (map (\<lambda>k. failed_attempt opts env (db_at env (Suc m) k (env_others env m db)) k) [Suc m..<n]) @ tr))"
      by blast
    have tail: "map (\<lambda>k. failed_attempt opts env (db_at env (Suc m) k (env_others env m db)) k) [Suc m..<n] =
        map (\<lambda>k. failed_attempt opts env (db_at env m k db) k) [Suc m..<n]"
      by (intro map_cong) auto
    have "int n \<le> op_maxRetries opts" using n(1,2) m by (cases "Suc m = n") auto
    moreover have "lock_failed env k (db_at env m k db)" if "m \<le> k" "k < n" for k
      using that n(3) True by (cases "k = m") auto
    ultimately show ?thesis
      using True n(1,4,5) tail
      by (intro exI [of _ n]) (auto simp: tx_loop_retry upt_conv_Cons Suc_le_eq split: prod.splits)
  qed
qed

section \<open>Properties\<close>

text \<open>What an attempt fails with, if it fails, and the hooks its callback registered.\<close>

definition attempt_fault :: "('db, 'e, 'a, 'h) tx_env \<Rightarrow> nat \<Rightarrow> 'db \<Rightarrow> 'e tx_fault option" where
  "attempt_fault env n db =
     (case fst (env_body env n db) of
        Inl e \<Rightarrow> Some e
      | Inr _ \<Rightarrow> (case env_commit env n of CommitDone \<Rightarrow> None | CommitRefused e \<Rightarrow> Some e | CommitLost e \<Rightarrow> Some (Fault e)))"

definition hooks_of :: "('db, 'e, 'a, 'h) tx_env \<Rightarrow> nat \<Rightarrow> 'db \<Rightarrow> 'h TransactionContext" where
  "hooks_of env n db = snd (snd (env_body env n db))"

definition lost_commit :: "('db, 'e, 'a, 'h) tx_env \<Rightarrow> nat \<Rightarrow> 'db \<Rightarrow> bool" where
  "lost_commit env n db \<longleftrightarrow> (\<exists>a. fst (env_body env n db) = Inr a) \<and> (\<exists>e. env_commit env n = CommitLost e)"

lemma attempt_fault_iff: "attempt_fault env n db = Some e \<longleftrightarrow> fst (tx_attempt env n db) = Inl e"
  by (auto simp: attempt_fault_def tx_attempt_def split: prod.splits sum.splits commit_answer.splits)

lemma tx_attempt_failed:
  assumes "attempt_fault env n db = Some e"
  shows "tx_attempt env n db =
    (if lost_commit env n db then (Inl e, fst (snd (env_body env n db)), Unacknowledged n # map HookRun (rollbackHooks (hooks_of env n db)))
     else (Inl e, db, RolledBack n # map HookRun (rollbackHooks (hooks_of env n db))))"
  using assms
  by (auto simp: attempt_fault_def tx_attempt_def lost_commit_def hooks_of_def split: prod.splits sum.splits commit_answer.splits)

lemma lock_failed_iff: "lock_failed env k db \<longleftrightarrow> env_connect env k = None \<and> attempt_fault env k db = Some PgLockTimeout"
  by (simp add: lock_failed_def attempt_fault_iff)

lemma lock_not_lost: "attempt_fault env k db = Some PgLockTimeout \<Longrightarrow> \<not> lost_commit env k db"
  by (auto simp: attempt_fault_def lost_commit_def)

lemma failed_attempt_trace:
  assumes "lock_failed env k db"
  shows "failed_attempt opts env db k =
    RolledBack k # map HookRun (rollbackHooks (hooks_of env k db)) @ [Slept (op_retryDelayMs opts * 2 ^ k)]"
proof -
  have f: "attempt_fault env k db = Some PgLockTimeout" using assms by (simp add: lock_failed_iff)
  show ?thesis using tx_attempt_failed [OF f] lock_not_lost [OF f] by (simp add: failed_attempt_def)
qed

lemma tx_last_cases:
  obtains (refused) e where "env_connect env n = Some e" "tx_last cfg opts env n db = (Inl (Thrown e), db, [])"
  | (committed) a ctx db' where "env_connect env n = None" "env_body env n db = (Inr a, db', ctx)" "env_commit env n = CommitDone"
      "tx_last cfg opts env n db = (Inr a, db', Committed n # map HookRun (postCommitHooks ctx))"
  | (failed) f e where "env_connect env n = None" "attempt_fault env n db = Some f"
      "e = (case f of Fault x \<Rightarrow> Thrown x | PgLockTimeout \<Rightarrow> LockTimeoutError (op_policy opts) (effectiveTimeoutMs cfg opts))"
      "tx_last cfg opts env n db =
        (if lost_commit env n db then (Inl e, fst (snd (env_body env n db)), Unacknowledged n # map HookRun (rollbackHooks (hooks_of env n db)))
         else (Inl e, db, RolledBack n # map HookRun (rollbackHooks (hooks_of env n db))))"
proof (cases "env_connect env n")
  case (Some e)
  then show thesis using refused by (simp add: tx_last_def)
next
  case None
  show thesis
  proof (cases "attempt_fault env n db")
    case (Some f)
    show ?thesis
      using failed [OF None Some refl] None tx_attempt_failed [OF Some]
      by (cases f; cases "lost_commit env n db") (simp_all add: tx_last_def)
  next
    case (None)
    then obtain a db' ctx where "env_body env n db = (Inr a, db', ctx)" "env_commit env n = CommitDone"
      by (cases "env_body env n db") (auto simp: attempt_fault_def split: sum.splits commit_answer.splits)
    with \<open>env_connect env n = None\<close> show ?thesis using committed by (simp add: tx_last_def tx_attempt_def)
  qed
qed

fun slept :: "'h tx_event list \<Rightarrow> int" where
  "slept [] = 0"
| "slept (Slept d # tr) = d + slept tr"
| "slept (_ # tr) = slept tr"

lemma slept_append [simp]: "slept (tr @ tr') = slept tr + slept tr'"
  by (induction tr rule: slept.induct) auto

lemma slept_hooks [simp]: "slept (map HookRun hs) = 0"
  by (induction hs) auto

text \<open>The events of the attempts that were rolled back and tried again.\<close>

definition retried :: "TransactionOptions \<Rightarrow> ('db, 'e, 'a, 'h) tx_env \<Rightarrow> 'db \<Rightarrow> nat \<Rightarrow> 'h tx_event list" where
  "retried opts env db n = concat (map (\<lambda>k. RolledBack k # map HookRun (rollbackHooks (hooks_of env k (db_at env 0 k db))) @
     [Slept (op_retryDelayMs opts * 2 ^ k)]) [0..<n])"

lemma slept_retried: "slept (retried opts env db n) = op_retryDelayMs opts * (2 ^ n - 1)"
  unfolding retried_def by (induction n) (simp_all add: algebra_simps)

text \<open>
  Claim C21.  A transaction is all or nothing, whatever the callback, the other clients and the
  retries do.  Every attempt before the last one ended in a lock timeout and was rolled back, there are at
  most \<open>maxRetries\<close> retries, and the waits double from \<open>retryDelayMs\<close> on.  If the call returns a value, the
  last attempt committed, the database is what its callback made of the state other clients had left,
  and after the commit exactly the post-commit hooks of that attempt ran.  If the call throws, the last attempt
  got no connection or failed (with a lock timeout only when no retry is left), nothing of the call is in the
  database, unless the server committed and the acknowledgement was lost, and exactly the rollback
  hooks of the last attempt ran.  In both cases the hooks of earlier attempts that ran are exactly their
  rollback hooks: no post-commit hook of a rolled back attempt ever runs.
\<close>

theorem transaction_all_or_nothing:
  fixes env :: "('db, 'e, 'a, 'h) tx_env"
  assumes "tx_loop cfg opts env 0 db = (r, db', tr)"
  shows "\<exists>n. n \<le> nat (op_maxRetries opts) \<and>
    (\<forall>k < n. env_connect env k = None \<and> attempt_fault env k (db_at env 0 k db) = Some PgLockTimeout) \<and>
    slept tr = op_retryDelayMs opts * (2 ^ n - 1) \<and>
    (case r of
       Inr a \<Rightarrow> \<exists>ctx. env_connect env n = None \<and> env_body env n (db_at env 0 n db) = (Inr a, db', ctx) \<and>
         env_commit env n = CommitDone \<and> tr = retried opts env db n @ Committed n # map HookRun (postCommitHooks ctx)
     | Inl e \<Rightarrow>
         (\<exists>x. env_connect env n = Some x \<and> e = Thrown x \<and> db' = db_at env 0 n db \<and> tr = retried opts env db n) \<or>
         (env_connect env n = None \<and>
          (case attempt_fault env n (db_at env 0 n db) of
             None \<Rightarrow> False
           | Some (Fault x) \<Rightarrow> e = Thrown x
           | Some PgLockTimeout \<Rightarrow> e = LockTimeoutError (op_policy opts) (effectiveTimeoutMs cfg opts) \<and> \<not> retries opts n) \<and>
          (if lost_commit env n (db_at env 0 n db)
           then db' = fst (snd (env_body env n (db_at env 0 n db))) \<and>
             tr = retried opts env db n @ Unacknowledged n # map HookRun (rollbackHooks (hooks_of env n (db_at env 0 n db)))
           else db' = db_at env 0 n db \<and>
             tr = retried opts env db n @ RolledBack n # map HookRun (rollbackHooks (hooks_of env n (db_at env 0 n db))))))"
proof -
  obtain n where n: "0 < n \<longrightarrow> int n \<le> op_maxRetries opts" "\<forall>k. 0 \<le> k \<and> k < n \<longrightarrow> lock_failed env k (db_at env 0 k db)"
    and stop: "\<not> (lock_failed env n (db_at env 0 n db) \<and> retries opts n)"
    and run: "tx_loop cfg opts env 0 db = (case tx_last cfg opts env n (db_at env 0 n db) of (r, db', tr) \<Rightarrow>
      (r, db', concat (map (\<lambda>k. failed_attempt opts env (db_at env 0 k db) k) [0..<n]) @ tr))"
    using tx_loop_attempts [of 0 opts env db cfg] by auto
  have before: "concat (map (\<lambda>k. failed_attempt opts env (db_at env 0 k db) k) [0..<n]) = retried opts env db n"
    unfolding retried_def using n(2) by (intro arg_cong [of _ _ concat] map_cong) (simp_all add: failed_attempt_trace)
  obtain tr0 where last: "tx_last cfg opts env n (db_at env 0 n db) = (r, db', tr0)" and tr: "tr = retried opts env db n @ tr0"
    using run assms by (auto simp: before split: prod.splits)
  have bound: "n \<le> nat (op_maxRetries opts)" using n(1) by auto
  have locks: "\<forall>k < n. env_connect env k = None \<and> attempt_fault env k (db_at env 0 k db) = Some PgLockTimeout"
    using n(2) by (simp add: lock_failed_iff)
  show ?thesis
  proof (cases rule: tx_last_cases [of env n cfg opts "db_at env 0 n db"])
    case (refused e)
    then show ?thesis using last bound locks by (intro exI [of _ n]) (auto simp: tr slept_retried)
  next
    case (committed a ctx d)
    then show ?thesis using last bound locks by (intro exI [of _ n]) (auto simp: tr slept_retried)
  next
    case (failed f e)
    then show ?thesis
      using last bound locks stop
      by (intro exI [of _ n]; cases f; cases "lost_commit env n (db_at env 0 n db)") (auto simp: tr slept_retried lock_failed_iff)
  qed
qed

section \<open>Witness\<close>

definition sample_options :: TransactionOptions where
  "sample_options = \<lparr>op_policy = Some DEFAULT, op_timeoutMs = None, op_retryOnLockTimeout = True, op_maxRetries = 2,
     op_retryDelayMs = 100\<rparr>"

definition sample_env :: "(int, string, int, string) tx_env" where
  "sample_env = \<lparr>env_connect = (\<lambda>_. None), env_others = (\<lambda>n db. db + 10),
     env_body = (\<lambda>n db. if n = 0 then (Inl PgLockTimeout, db + 1, \<lparr>postCommitHooks = [''lost''], rollbackHooks = [''undo'']\<rparr>)
       else (Inr db, db + 1, \<lparr>postCommitHooks = [''notify''], rollbackHooks = []\<rparr>)),
     env_commit = (\<lambda>_. CommitDone)\<rparr>"

lemma sample_tx_run: "tx_loop FALLBACK_TIMEOUTS sample_options sample_env 0 5 =
    (Inr 25, 26, [RolledBack 0, HookRun ''undo'', Slept 100, Committed 1, HookRun ''notify''])"
  by (simp add: tx_loop.simps tx_attempt_def sample_options_def sample_env_def)

theorem transaction_all_or_nothing_witness:
  "\<exists>n ctx. tx_loop FALLBACK_TIMEOUTS sample_options sample_env 0 5 =
       (Inr 25, 26, [RolledBack 0, HookRun ''undo'', Slept 100, Committed 1, HookRun ''notify'']) \<and>
     env_body sample_env n (db_at sample_env 0 n 5) = (Inr 25, 26, ctx) \<and>
     [RolledBack 0, HookRun ''undo'', Slept 100, Committed 1, HookRun ''notify''] =
       retried sample_options sample_env 5 n @ Committed n # map HookRun (postCommitHooks ctx)"
  using transaction_all_or_nothing [OF sample_tx_run] sample_tx_run by auto

end
