(* ===== verification/Wallets.thy ===== *)
theory Wallets
  imports DecimalMath Transactions Sorting
begin

text \<open>
  Wallet balances and their ledger (\<open>src/src/db/repositories/walletsRepository.ts\<close>,
  \<open>walletTransactionsRepository.ts\<close>) on the tables of \<open>src/src/db/schema.ts\<close>.  A balance column of type
  \<open>NUMERIC(36,18)\<close> holds an integer number of units of ten to the power minus 18; how PostgreSQL reads and
  prints such values is a parameter.  Every credit and debit runs through the transaction manager.
\<close>

section \<open>Rows and errors\<close>

definition BALANCE_PRECISION :: int where "BALANCE_PRECISION = 36"

definition BALANCE_SCALE :: int where "BALANCE_SCALE = 18"

record WalletRow =
  wr_id :: string
  wr_address :: string
  wr_balance :: int
  wr_currency :: string
  wr_createdAt :: int
  wr_updatedAt :: int

record Wallet =
  wa_id :: string
  wa_address :: string
  wa_balance :: string
  wa_currency :: string
  wa_createdAt :: int
  wa_updatedAt :: int

record CreateWalletInput =
  cw_address :: string
  cw_initialBalance :: "string option"
  cw_currency :: "string option"

record DebitResult =
  dr_wallet :: Wallet
  dr_previousBalance :: string
  dr_newBalance :: string
  dr_debitedAmount :: string

datatype tx_type = CreditTx | DebitTx

record WalletTransaction =
  wt_id :: string
  wt_walletId :: string
  wt_type :: tx_type
  wt_amount :: string
  wt_previousBalance :: string
  wt_newBalance :: string
  wt_createdAt :: int

record wallet_db =
  wallets :: "(string, WalletRow) jsmap"
  wallet_transactions :: "WalletTransaction list"

record numeric_type =
  num_in :: "string \<Rightarrow> int option"
  num_out :: "int \<Rightarrow> string"

datatype wallet_error =
    PoolRequired
  | InvalidAmount string
  | AmountScaleError string int
  | AmountOverflowError string int int
  | DecimalFailed dec_error
  | WalletNotFound string
  | InsufficientBalanceError string string string
  | WalletAlreadyExistsError string
  | DbError string

definition assertValidWalletAmount :: "string \<Rightarrow> (wallet_error, unit) result" where
  "assertValidWalletAmount amount =
     (case assertWithinNumericBounds amount (IntNum BALANCE_PRECISION) (IntNum BALANCE_SCALE) of
        Inr _ \<Rightarrow> Inr ()
      | Inl (DecimalScaleError _ _ _) \<Rightarrow> Inl (AmountScaleError amount BALANCE_SCALE)
      | Inl (DecimalOverflowError _ _ _) \<Rightarrow> Inl (AmountOverflowError amount BALANCE_PRECISION BALANCE_SCALE)
      | Inl e \<Rightarrow> Inl (DecimalFailed e))"

definition mapWallet :: "numeric_type \<Rightarrow> WalletRow \<Rightarrow> Wallet" where
  "mapWallet nt row = \<lparr>wa_id = wr_id row, wa_address = wr_address row, wa_balance = num_out nt (wr_balance row),
     wa_currency = wr_currency row, wa_createdAt = wr_createdAt row, wa_updatedAt = wr_updatedAt row\<rparr>"

section \<open>The ledger\<close>

definition record_tx ::
  "string \<Rightarrow> int \<Rightarrow> string \<Rightarrow> tx_type \<Rightarrow> string \<Rightarrow> string \<Rightarrow> string \<Rightarrow> wallet_db \<Rightarrow> wallet_db" where
  "record_tx txId now walletId ty amount previousBalance newBalance db =
     db\<lparr>wallet_transactions := wallet_transactions db @
       [\<lparr>wt_id = txId, wt_walletId = walletId, wt_type = ty, wt_amount = amount,
         wt_previousBalance = previousBalance, wt_newBalance = newBalance, wt_createdAt = now\<rparr>]\<rparr>"

definition tx_findByWalletId :: "string \<Rightarrow> wallet_db \<Rightarrow> WalletTransaction list" where
  "tx_findByWalletId walletId db =
     sort_key wt_createdAt (filter (\<lambda>t. wt_walletId t = walletId) (wallet_transactions db))"

definition findByWalletIdInRange :: "string \<Rightarrow> int \<Rightarrow> int \<Rightarrow> wallet_db \<Rightarrow> WalletTransaction list" where
  "findByWalletIdInRange walletId startDate endDate db =
     sort_key wt_createdAt (filter (\<lambda>t. wt_walletId t = walletId \<and> startDate \<le> wt_createdAt t \<and> wt_createdAt t \<le> endDate)
       (wallet_transactions db))"

definition getCountByWalletId :: "string \<Rightarrow> wallet_db \<Rightarrow> nat" where
  "getCountByWalletId walletId db = length (filter (\<lambda>t. wt_walletId t = walletId) (wallet_transactions db))"

definition getBalanceAtTime :: "string \<Rightarrow> int \<Rightarrow> wallet_db \<Rightarrow> string option" where
  "getBalanceAtTime walletId timestamp db =
     (case rev (sort_key wt_createdAt (filter (\<lambda>t. wt_walletId t = walletId \<and> wt_createdAt t \<le> timestamp)
              (wallet_transactions db))) of
        [] \<Rightarrow> None
      | t # _ \<Rightarrow> Some (wt_newBalance t))"

section \<open>The repository\<close>

definition create_wallet ::
  "numeric_type \<Rightarrow> string \<Rightarrow> int \<Rightarrow> CreateWalletInput \<Rightarrow> (wallet_db, wallet_error, Wallet) exec" where
  "create_wallet nt uuid now input db =
     (case num_in nt (case cw_initialBalance input of None \<Rightarrow> ''0'' | Some b \<Rightarrow> b) of
        None \<Rightarrow> (Inl (DbError ''invalid numeric''), db)
      | Some balance \<Rightarrow>
          if balance < 0 then (Inl (DbError ''balance check''), db)
          else if map_has (wallets db) uuid \<or> (\<exists>row \<in> set (map_values (wallets db)). wr_address row = cw_address input)
          then (Inl (WalletAlreadyExistsError (cw_address input)), db)
          else
            let row = \<lparr>wr_id = uuid, wr_address = cw_address input, wr_balance = balance,
                  wr_currency = (case cw_currency input of None \<Rightarrow> ''USD'' | Some c \<Rightarrow> c),
                  wr_createdAt = now, wr_updatedAt = now\<rparr>
            in (Inr (mapWallet nt row), db\<lparr>wallets := map_set uuid row (wallets db)\<rparr>))"

definition wallet_findById :: "numeric_type \<Rightarrow> string \<Rightarrow> wallet_db \<Rightarrow> Wallet option" where
  "wallet_findById nt i db = map_option (mapWallet nt) (map_get (wallets db) i)"

definition findByAddress :: "numeric_type \<Rightarrow> string \<Rightarrow> wallet_db \<Rightarrow> Wallet option" where
  "findByAddress nt address db = map_option (mapWallet nt) (find (\<lambda>row. wr_address row = address) (map_values (wallets db)))"

definition list_wallets :: "numeric_type \<Rightarrow> string option \<Rightarrow> wallet_db \<Rightarrow> Wallet list" where
  "list_wallets nt currency db =
     map (mapWallet nt) (rev (sort_key wr_createdAt
       (filter (\<lambda>row. truthy currency \<longrightarrow> Some (wr_currency row) = currency) (map_values (wallets db)))))"

text \<open>The statement \<open>UPDATE wallets SET balance = balance + d, updated_at = NOW() WHERE id = i\<close>: the new value
  has to fit the column and to pass its check.\<close>

definition update_balance :: "int \<Rightarrow> int \<Rightarrow> string \<Rightarrow> WalletRow \<Rightarrow> (wallet_db, wallet_error, WalletRow) exec" where
  "update_balance now d i row db =
     (let balance = wr_balance row + d
      in if 10 ^ 36 \<le> \<bar>balance\<bar> then (Inl (DbError ''numeric field overflow''), db)
         else if balance < 0 then (Inl (DbError ''balance check''), db)
         else let row' = row\<lparr>wr_balance := balance, wr_updatedAt := now\<rparr>
              in (Inr row', db\<lparr>wallets := map_set i row' (wallets db)\<rparr>))"

definition credit_body ::
  "numeric_type \<Rightarrow> int \<Rightarrow> string \<Rightarrow> string \<Rightarrow> string \<Rightarrow> (wallet_db, wallet_error, Wallet) exec" where
  "credit_body nt now txId i amount db =
     (case map_get (wallets db) i of
        None \<Rightarrow> (Inl (WalletNotFound i), db)
      | Some row \<Rightarrow>
          let previousBalance = num_out nt (wr_balance row)
          in case addDecimals previousBalance amount of
               Inl e \<Rightarrow> (Inl (DecimalFailed e), db)
             | Inr projectedBalance \<Rightarrow>
                 (case assertValidWalletAmount projectedBalance of
                    Inl e \<Rightarrow> (Inl e, db)
                  | Inr _ \<Rightarrow>
                      (case num_in nt amount of
                         None \<Rightarrow> (Inl (DbError ''invalid numeric''), db)
                       | Some a \<Rightarrow>
                           (case update_balance now a i row db of
                              (Inl e, db1) \<Rightarrow> (Inl e, db1)
                            | (Inr row', db1) \<Rightarrow>
                                let updatedWallet = mapWallet nt row'
                                in (Inr updatedWallet,
                                    record_tx txId now i CreditTx amount previousBalance (wa_balance updatedWallet) db1)))))"

definition debit_body ::
  "numeric_type \<Rightarrow> int \<Rightarrow> string \<Rightarrow> string \<Rightarrow> string \<Rightarrow> (wallet_db, wallet_error, DebitResult) exec" where
  "debit_body nt now txId i amount db =
     (case map_get (wallets db) i of
        None \<Rightarrow> (Inl (WalletNotFound i), db)
      | Some row \<Rightarrow>
          let current = mapWallet nt row; previousBalance = wa_balance current
          in case compareDecimals amount (wa_balance current) of
               Inl e \<Rightarrow> (Inl (DecimalFailed e), db)
             | Inr c \<Rightarrow>
                 if c > 0 then (Inl (InsufficientBalanceError i (wa_balance current) amount), db)
                 else (case num_in nt amount of
                         None \<Rightarrow> (Inl (DbError ''invalid numeric''), db)
                       | Some a \<Rightarrow>
                           (case update_balance now (- a) i row db of
                              (Inl e, db1) \<Rightarrow> (Inl e, db1)
                            | (Inr row', db1) \<Rightarrow>
                                let updatedWallet = mapWallet nt row'
                                in (Inr \<lparr>dr_wallet = updatedWallet, dr_previousBalance = previousBalance,
                                      dr_newBalance = wa_balance updatedWallet, dr_debitedAmount = amount\<rparr>,
                                    record_tx txId now i DebitTx amount previousBalance (wa_balance updatedWallet) db1))))"

text \<open>What can happen around one transaction: no connection, the row lock not obtained in time, a commit that is
  refused or whose acknowledgement is lost, and what other clients commit before each attempt.\<close>

record wallet_faults =
  wf_connect :: "nat \<Rightarrow> wallet_error option"
  wf_busy :: "nat \<Rightarrow> bool"
  wf_commit :: "nat \<Rightarrow> wallet_error commit_answer"
  wf_others :: "nat \<Rightarrow> wallet_db \<Rightarrow> wallet_db"

definition wallet_env ::
  "wallet_faults \<Rightarrow> (wallet_db, wallet_error, 'a) exec \<Rightarrow> (wallet_db, wallet_error, 'a, unit) tx_env" where
  "wallet_env fs body = \<lparr>env_connect = wf_connect fs, env_others = wf_others fs,
     env_body = (\<lambda>n db.
       if wf_busy fs n then (Inl PgLockTimeout, db, \<lparr>postCommitHooks = [], rollbackHooks = []\<rparr>)
       else (case body db of
               (Inl e, db1) \<Rightarrow> (Inl (Fault e), db1, \<lparr>postCommitHooks = [], rollbackHooks = []\<rparr>)
             | (Inr a, db1) \<Rightarrow> (Inr a, db1, \<lparr>postCommitHooks = [], rollbackHooks = []\<rparr>))),
     env_commit = wf_commit fs\<rparr>"

definition wallet_tx_options :: TransactionOptions where
  "wallet_tx_options = \<lparr>op_policy = Some DEFAULT, op_timeoutMs = None, op_retryOnLockTimeout = True,
     op_maxRetries = 2, op_retryDelayMs = 100\<rparr>"

definition wallet_transaction ::
  "LockTimeoutConfig \<Rightarrow> wallet_faults \<Rightarrow> (wallet_db, wallet_error, 'a) exec \<Rightarrow> (wallet_db, wallet_error tx_error, 'a) exec" where
  "wallet_transaction cfg fs body db =
     (case tx_loop cfg wallet_tx_options (wallet_env fs body) 0 db of (r, db', tr) \<Rightarrow> (r, db'))"

definition credit ::
  "LockTimeoutConfig \<Rightarrow> numeric_type \<Rightarrow> bool \<Rightarrow> wallet_faults \<Rightarrow> int \<Rightarrow> string \<Rightarrow> string \<Rightarrow> string \<Rightarrow>
   (wallet_db, wallet_error tx_error, Wallet) exec" where
  "credit cfg nt hasPool fs now txId i amount db =
     (if \<not> hasPool then (Inl (Thrown PoolRequired), db)
      else if \<not> isValidPositiveDecimal amount then (Inl (Thrown (InvalidAmount amount)), db)
      else case assertValidWalletAmount amount of
        Inl e \<Rightarrow> (Inl (Thrown e), db)
      | Inr _ \<Rightarrow> wallet_transaction cfg fs (credit_body nt now txId i amount) db)"

definition debit ::
  "LockTimeoutConfig \<Rightarrow> numeric_type \<Rightarrow> bool \<Rightarrow> wallet_faults \<Rightarrow> int \<Rightarrow> string \<Rightarrow> string \<Rightarrow> string \<Rightarrow>
   (wallet_db, wallet_error tx_error, DebitResult) exec" where
  "debit cfg nt hasPool fs now txId i amount db =
     (if \<not> hasPool then (Inl (Thrown PoolRequired), db)
      else if \<not> isValidPositiveDecimal amount then (Inl (Thrown (InvalidAmount amount)), db)
      else case assertValidWalletAmount amount of
        Inl e \<Rightarrow> (Inl (Thrown e), db)
      | Inr _ \<Rightarrow> wallet_transaction cfg fs (debit_body nt now txId i amount) db)"

definition delete_wallet :: "string \<Rightarrow> wallet_db \<Rightarrow> bool \<times> wallet_db" where
  "delete_wallet i db =
     (map_has (wallets db) i,
      \<lparr>wallets = map_delete i (wallets db),
       wallet_transactions = filter (\<lambda>t. wt_walletId t \<noteq> i) (wallet_transactions db)\<rparr>)"

section \<open>Amounts in units of the column\<close>

definition units :: "string \<Rightarrow> int \<Rightarrow> bool" where
  "units s u \<longleftrightarrow> (\<exists>k \<le> 18. denotes s (of_int u / 10 ^ 18) k)"

text \<open>What is relied on of PostgreSQL: a decimal text with at most 18 fractional digits is read exactly if it is
  accepted, a column value prints as the decimal it is, and what does not fit the column is not accepted.\<close>

definition numeric_ok :: "numeric_type \<Rightarrow> bool" where
  "numeric_ok nt \<longleftrightarrow>
     (\<forall>s q k n. denotes s q k \<longrightarrow> k \<le> 18 \<longrightarrow> num_in nt s = Some n \<longrightarrow> of_int n = q * 10 ^ 18) \<and>
     (\<forall>n. denotes (num_out nt n) (of_int n / 10 ^ 18) 18) \<and>
     (\<forall>s n. num_in nt s = Some n \<longrightarrow> \<bar>n\<bar> < 10 ^ 36)"

lemma numeric_out: "numeric_ok nt \<Longrightarrow> denotes (num_out nt n) (of_int n / 10 ^ 18) 18"
  by (simp add: numeric_ok_def)

lemma numeric_in: "numeric_ok nt \<Longrightarrow> denotes s q k \<Longrightarrow> k \<le> 18 \<Longrightarrow> num_in nt s = Some n \<Longrightarrow> q = of_int n / 10 ^ 18"
  unfolding numeric_ok_def by (metis nonzero_mult_div_cancel_right power_not_zero zero_neq_numeral)

lemma wallet_amount_valid:
  assumes "denotes s q k"
  shows "assertValidWalletAmount s = Inr () \<longleftrightarrow> k \<le> 18 \<and> \<bar>q\<bar> < 10 ^ 18"
  using numeric_bounds [OF assms, of 18 36]
  by (auto simp: assertValidWalletAmount_def BALANCE_PRECISION_def BALANCE_SCALE_def)

lemma compare_units:
  assumes "units s a" "numeric_ok nt"
  shows "compareDecimals s (num_out nt b) = Inr (if a < b then -1 else if a > b then 1 else 0)"
proof -
  obtain k where "denotes s (of_int a / 10 ^ 18) k" using assms(1) by (auto simp: units_def)
  from compareDecimals_denotes [OF this numeric_out [OF assms(2), of b]] show ?thesis
    by (simp add: divide_less_cancel)
qed

text \<open>An amount that passes the checks and is accepted by the database is a positive number of units.\<close>

lemma checked_amount:
  assumes "numeric_ok nt" "isValidPositiveDecimal s" "assertValidWalletAmount s = Inr ()" "num_in nt s = Some a"
  shows "units s a" "0 < a"
proof -
  obtain q k where d: "denotes s q k" "0 < q" using assms(2) isValidPositiveDecimal_iff by blast
  then have k: "k \<le> 18" using assms(3) wallet_amount_valid by blast
  then have q: "q = of_int a / 10 ^ 18" using numeric_in [OF assms(1) d(1) _ assms(4)] by blast
  with d k show "units s a" "0 < a" by (auto simp: units_def zero_less_divide_iff)
qed

section \<open>Transactions on wallets\<close>

definition posts ::
  "numeric_type \<Rightarrow> int \<Rightarrow> string \<Rightarrow> string \<Rightarrow> tx_type \<Rightarrow> string \<Rightarrow> int \<Rightarrow> wallet_db \<Rightarrow> wallet_db \<Rightarrow> bool" where
  "posts nt now txId i ty amount d db db' \<longleftrightarrow>
     (\<exists>row. map_get (wallets db) i = Some row \<and> 0 \<le> wr_balance row + d \<and> wr_balance row + d < 10 ^ 36 \<and>
        db' = record_tx txId now i ty amount (num_out nt (wr_balance row)) (num_out nt (wr_balance row + d))
          (db\<lparr>wallets := map_set i (row\<lparr>wr_balance := wr_balance row + d, wr_updatedAt := now\<rparr>) (wallets db)\<rparr>))"

lemma credit_body_posts:
  assumes "credit_body nt now txId i amount db = (Inr w, db')"
  shows "\<exists>a. num_in nt amount = Some a \<and> posts nt now txId i CreditTx amount a db db'"
  using assms
  by (auto simp: credit_body_def posts_def update_balance_def mapWallet_def Let_def
      split: option.splits sum.splits prod.splits if_splits)

lemma debit_body_posts:
  assumes "debit_body nt now txId i amount db = (Inr w, db')"
  shows "\<exists>a. num_in nt amount = Some a \<and> posts nt now txId i DebitTx amount (- a) db db'"
  using assms
  by (auto simp: debit_body_def posts_def update_balance_def mapWallet_def Let_def
      split: option.splits sum.splits prod.splits if_splits)

definition others_at :: "wallet_faults \<Rightarrow> nat \<Rightarrow> wallet_db \<Rightarrow> wallet_db" where
  "others_at fs n db = fold (wf_others fs) [0..<Suc n] db"

lemma db_at_wallet [simp]: "db_at (wallet_env fs body) 0 n db = others_at fs n db"
  by (simp add: db_at_def others_at_def wallet_env_def)

text \<open>A transaction ends after some number of other clients' writes: either its body ran once on that state and
  was committed, or nothing of it stays.  Only a lost acknowledgement makes a committed call throw.\<close>

lemma wallet_transaction_outcome:
  assumes "wallet_transaction cfg fs body db = (r, db')"
  shows "\<exists>n. case r of Inl e \<Rightarrow> db' = others_at fs n db \<or> (\<exists>a. body (others_at fs n db) = (Inr a, db'))
    | Inr a \<Rightarrow> body (others_at fs n db) = (Inr a, db')"
proof -
  obtain n where "tx_loop cfg wallet_tx_options (wallet_env fs body) 0 db =
      (case tx_last cfg wallet_tx_options (wallet_env fs body) n (others_at fs n db) of (r, db', tr) \<Rightarrow>
        (r, db', concat (map (\<lambda>k. failed_attempt wallet_tx_options (wallet_env fs body) (others_at fs k db) k) [0..<n]) @ tr))"
    using tx_loop_attempts [of 0 wallet_tx_options "wallet_env fs body" db cfg] by auto
  then obtain tr where last: "tx_last cfg wallet_tx_options (wallet_env fs body) n (others_at fs n db) = (r, db', tr)"
    using assms by (auto simp: wallet_transaction_def split: prod.splits)
  show ?thesis
  proof (cases rule: tx_last_cases [of "wallet_env fs body" n cfg wallet_tx_options "others_at fs n db"])
    case (refused e)
    with last show ?thesis by (intro exI [of _ n]) auto
  next
    case (committed a ctx db'')
    with last show ?thesis
      by (intro exI [of _ n]) (auto simp: wallet_env_def split: if_splits prod.splits sum.splits)
  next
    case (failed f e)
    have "\<exists>a. body (others_at fs n db) = (Inr a, fst (snd (env_body (wallet_env fs body) n (others_at fs n db))))"
      if "lost_commit (wallet_env fs body) n (others_at fs n db)"
      using that by (auto simp: lost_commit_def wallet_env_def split: if_splits prod.splits sum.splits)
    with failed last show ?thesis by (intro exI [of _ n]) (auto split: if_splits)
  qed
qed

section \<open>The ledger explains the balance\<close>

definition signed_units :: "tx_type \<Rightarrow> int \<Rightarrow> int" where
  "signed_units ty a = (case ty of CreditTx \<Rightarrow> a | DebitTx \<Rightarrow> - a)"

fun explains :: "numeric_type \<Rightarrow> int \<Rightarrow> WalletTransaction list \<Rightarrow> int \<Rightarrow> bool" where
  "explains nt b [] b' \<longleftrightarrow> b' = b"
| "explains nt b (t # ts) b' \<longleftrightarrow>
     wt_previousBalance t = num_out nt b \<and>
     (\<exists>a > 0. units (wt_amount t) a \<and> 0 \<le> b + signed_units (wt_type t) a \<and>
        wt_newBalance t = num_out nt (b + signed_units (wt_type t) a) \<and>
        explains nt (b + signed_units (wt_type t) a) ts b')"

lemma explains_append: "explains nt b (ts @ us) b'' \<longleftrightarrow> (\<exists>b'. explains nt b ts b' \<and> explains nt b' us b'')"
  by (induction ts arbitrary: b) auto

definition ledger :: "string \<Rightarrow> wallet_db \<Rightarrow> WalletTransaction list" where
  "ledger k db = filter (\<lambda>t. wt_walletId t = k) (wallet_transactions db)"

definition balanced :: "numeric_type \<Rightarrow> string \<Rightarrow> WalletRow \<Rightarrow> wallet_db \<Rightarrow> bool" where
  "balanced nt k row db \<longleftrightarrow> 0 \<le> wr_balance row \<and> wr_balance row < 10 ^ 36 \<and>
     (\<exists>opening \<ge> 0. explains nt opening (ledger k db) (wr_balance row))"

definition wallet_ok :: "numeric_type \<Rightarrow> wallet_db \<Rightarrow> bool" where
  "wallet_ok nt db \<longleftrightarrow> map_wf (wallets db) \<and>
     (\<forall>k row. map_get (wallets db) k = Some row \<longrightarrow> balanced nt k row db) \<and>
     (\<forall>t \<in> set (wallet_transactions db). map_has (wallets db) (wt_walletId t))"

lemma ledger_record [simp]:
  "ledger k (record_tx txId now i ty amount p n db) = ledger k db @ (if i = k then
     [\<lparr>wt_id = txId, wt_walletId = i, wt_type = ty, wt_amount = amount, wt_previousBalance = p, wt_newBalance = n,
       wt_createdAt = now\<rparr>] else [])"
  "ledger k (db\<lparr>wallets := ws\<rparr>) = ledger k db"
  by (simp_all add: ledger_def record_tx_def)

lemma wallets_record [simp]: "wallets (record_tx txId now i ty amount p n db) = wallets db"
  by (simp add: record_tx_def)

lemma posts_ok:
  assumes "wallet_ok nt db" "posts nt now txId i ty amount (signed_units ty a) db db'" "units amount a" "0 < a"
  shows "wallet_ok nt db'"
proof -
  obtain row where row: "map_get (wallets db) i = Some row" and b: "0 \<le> wr_balance row + signed_units ty a"
      "wr_balance row + signed_units ty a < 10 ^ 36"
    and db': "db' = record_tx txId now i ty amount (num_out nt (wr_balance row)) (num_out nt (wr_balance row + signed_units ty a))
          (db\<lparr>wallets := map_set i (row\<lparr>wr_balance := wr_balance row + signed_units ty a, wr_updatedAt := now\<rparr>) (wallets db)\<rparr>)"
    using assms(2) by (auto simp: posts_def)
  have "balanced nt i row db" using assms(1) row by (simp add: wallet_ok_def)
  then have new: "balanced nt i (row\<lparr>wr_balance := wr_balance row + signed_units ty a, wr_updatedAt := now\<rparr>) db'"
    using assms(3,4) b by (auto simp: balanced_def db' explains_append)
  have other: "balanced nt k r db'" if "k \<noteq> i" "map_get (wallets db) k = Some r" for k r
    using assms(1) that by (auto simp: wallet_ok_def balanced_def db')
  show ?thesis
    unfolding wallet_ok_def
  proof (intro conjI allI impI)
    show "map_wf (wallets db')" using assms(1) by (simp add: db' wallet_ok_def map_wf_set)
    show "balanced nt k r db'" if "map_get (wallets db') k = Some r" for k r
      using that new other by (auto simp: db' store_simps split: if_splits)
    show "\<forall>t \<in> set (wallet_transactions db'). map_has (wallets db') (wt_walletId t)"
      using assms(1) by (auto simp: db' record_tx_def wallet_ok_def map_has_iff)
  qed
qed

lemma create_wallet_ok:
  assumes "numeric_ok nt" "wallet_ok nt db"
  shows "wallet_ok nt (snd (create_wallet nt uuid now input db))"
proof (cases "fst (create_wallet nt uuid now input db)")
  case (Inl e)
  then have "snd (create_wallet nt uuid now input db) = db"
    by (auto simp: create_wallet_def Let_def split: option.splits if_splits)
  with assms(2) show ?thesis by simp
next
  case (Inr w)
  then obtain n where n: "num_in nt (case cw_initialBalance input of None \<Rightarrow> ''0'' | Some b \<Rightarrow> b) = Some n" "0 \<le> n"
      and new: "\<not> map_has (wallets db) uuid"
    by (auto simp: create_wallet_def Let_def split: option.splits if_splits)
  define row where "row = \<lparr>wr_id = uuid, wr_address = cw_address input, wr_balance = n,
      wr_currency = (case cw_currency input of None \<Rightarrow> ''USD'' | Some c \<Rightarrow> c), wr_createdAt = now, wr_updatedAt = now\<rparr>"
  have row: "wr_balance row = n" "snd (create_wallet nt uuid now input db) = db\<lparr>wallets := map_set uuid row (wallets db)\<rparr>"
    using Inr n by (auto simp: row_def create_wallet_def Let_def split: if_splits)
  have "ledger uuid db = []" using assms(2) new by (auto simp: ledger_def wallet_ok_def filter_empty_conv)
  moreover have "\<bar>n\<bar> < 10 ^ 36" using assms(1) n(1) unfolding numeric_ok_def by blast
  ultimately have "balanced nt uuid row (db\<lparr>wallets := map_set uuid row (wallets db)\<rparr>)"
    using n(2) row(1) by (simp add: balanced_def)
  then show ?thesis
    unfolding row(2) using assms(2)
    by (auto simp: wallet_ok_def balanced_def map_wf_set store_simps map_has_iff)
qed

lemma ledger_delete: "k \<noteq> i \<Longrightarrow> ledger k (snd (delete_wallet i db)) = ledger k db"
  by (auto simp: ledger_def delete_wallet_def intro: filter_cong)

lemma tables_delete:
  "wallets (snd (delete_wallet i db)) = map_delete i (wallets db)"
  "wallet_transactions (snd (delete_wallet i db)) = filter (\<lambda>t. wt_walletId t \<noteq> i) (wallet_transactions db)"
  by (simp_all add: delete_wallet_def)

lemma delete_ok: "wallet_ok nt db \<Longrightarrow> wallet_ok nt (snd (delete_wallet i db))"
  by (auto simp: wallet_ok_def balanced_def tables_delete ledger_delete map_wf_delete store_simps map_has_def split: if_splits)

definition harmless :: "numeric_type \<Rightarrow> wallet_faults \<Rightarrow> bool" where
  "harmless nt fs \<longleftrightarrow> (\<forall>n db. wallet_ok nt db \<longrightarrow> wallet_ok nt (wf_others fs n db))"

lemma others_ok: "harmless nt fs \<Longrightarrow> wallet_ok nt db \<Longrightarrow> wallet_ok nt (others_at fs n db)"
  by (induction n) (simp_all add: others_at_def harmless_def)

lemma wallet_transaction_ok:
  assumes "harmless nt fs" "wallet_ok nt db" "\<And>db a db'. wallet_ok nt db \<Longrightarrow> body db = (Inr a, db') \<Longrightarrow> wallet_ok nt db'"
  shows "wallet_ok nt (snd (wallet_transaction cfg fs body db))"
proof -
  obtain r db' where run: "wallet_transaction cfg fs body db = (r, db')" by fastforce
  obtain n where "db' = others_at fs n db \<or> (\<exists>a. body (others_at fs n db) = (Inr a, db'))"
    using wallet_transaction_outcome [OF run] by (cases r) auto
  then show ?thesis using others_ok [OF assms(1,2), of n] assms(3) by (auto simp: run)
qed

lemma credit_ok:
  assumes "numeric_ok nt" "harmless nt fs" "wallet_ok nt db"
  shows "wallet_ok nt (snd (credit cfg nt hasPool fs now txId i amount db))"
proof -
  have body: "wallet_ok nt db'" if "isValidPositiveDecimal amount" "assertValidWalletAmount amount = Inr ()"
      "wallet_ok nt db" "credit_body nt now txId i amount db = (Inr w, db')" for db w db'
    using credit_body_posts [OF that(4)] posts_ok [OF that(3), of now txId i CreditTx amount] checked_amount [OF assms(1) that(1,2)]
    by (auto simp: signed_units_def)
  show ?thesis using assms by (auto simp: credit_def split: sum.splits intro!: wallet_transaction_ok intro: body)
qed

lemma debit_ok:
  assumes "numeric_ok nt" "harmless nt fs" "wallet_ok nt db"
  shows "wallet_ok nt (snd (debit cfg nt hasPool fs now txId i amount db))"
proof -
  have body: "wallet_ok nt db'" if "isValidPositiveDecimal amount" "assertValidWalletAmount amount = Inr ()"
      "wallet_ok nt db" "debit_body nt now txId i amount db = (Inr w, db')" for db w db'
    using debit_body_posts [OF that(4)] posts_ok [OF that(3), of now txId i DebitTx amount] checked_amount [OF assms(1) that(1,2)]
    by (auto simp: signed_units_def)
  show ?thesis using assms by (auto simp: debit_def split: sum.splits intro!: wallet_transaction_ok intro: body)
qed

section \<open>Sequences of calls\<close>

datatype wallet_call =
    CreateWallet string int CreateWalletInput
  | CreditWallet bool wallet_faults int string string string
  | DebitWallet bool wallet_faults int string string string
  | DeleteWallet string

fun wallet_step :: "LockTimeoutConfig \<Rightarrow> numeric_type \<Rightarrow> wallet_db \<Rightarrow> wallet_call \<Rightarrow> wallet_db" where
  "wallet_step cfg nt db (CreateWallet uuid now input) = snd (create_wallet nt uuid now input db)"
| "wallet_step cfg nt db (CreditWallet hasPool fs now txId i amount) = snd (credit cfg nt hasPool fs now txId i amount db)"
| "wallet_step cfg nt db (DebitWallet hasPool fs now txId i amount) = snd (debit cfg nt hasPool fs now txId i amount db)"
| "wallet_step cfg nt db (DeleteWallet i) = snd (delete_wallet i db)"

fun harmless_call :: "numeric_type \<Rightarrow> wallet_call \<Rightarrow> bool" where
  "harmless_call nt (CreditWallet hasPool fs now txId i amount) = harmless nt fs"
| "harmless_call nt (DebitWallet hasPool fs now txId i amount) = harmless nt fs"
| "harmless_call nt _ = True"

lemma wallet_step_ok:
  "numeric_ok nt \<Longrightarrow> wallet_ok nt db \<Longrightarrow> harmless_call nt c \<Longrightarrow> wallet_ok nt (wallet_step cfg nt db c)"
  by (cases c) (simp_all add: create_wallet_ok credit_ok debit_ok delete_ok)

lemma wallet_run_ok:
  "numeric_ok nt \<Longrightarrow> wallet_ok nt db \<Longrightarrow> list_all (harmless_call nt) cs \<Longrightarrow> wallet_ok nt (foldl (wallet_step cfg nt) db cs)"
  by (induction cs arbitrary: db) (simp_all add: wallet_step_ok)

definition no_wallets :: wallet_db where "no_wallets = \<lparr>wallets = [], wallet_transactions = []\<rparr>"

lemma no_wallets_ok: "wallet_ok nt no_wallets"
  by (simp add: wallet_ok_def no_wallets_def)

section \<open>The history of a balance\<close>

lemma explains_last: "explains nt b ts b' \<Longrightarrow> ts \<noteq> [] \<Longrightarrow> wt_newBalance (last ts) = num_out nt b'"
  by (induction ts arbitrary: b) auto

text \<open>When later entries of a wallet carry later times, the history ends in the current balance.\<close>

lemma getBalanceAtTime_current:
  assumes "wallet_ok nt db" "map_get (wallets db) k = Some row" "ledger k db \<noteq> []"
    and "sorted_wrt (<) (map wt_createdAt (ledger k db))" "\<And>t. t \<in> set (ledger k db) \<Longrightarrow> wt_createdAt t \<le> now"
  shows "getBalanceAtTime k now db = Some (num_out nt (wr_balance row))"
proof -
  have "filter (\<lambda>t. wt_walletId t = k \<and> wt_createdAt t \<le> now) (wallet_transactions db) = ledger k db"
    using assms(5) unfolding ledger_def by (intro filter_cong) auto
  moreover have "sort_key wt_createdAt (ledger k db) = ledger k db"
    using strict_sorted_imp_sorted [OF assms(4)] by (rule sort_key_id_if_sorted)
  moreover have "wt_newBalance (last (ledger k db)) = num_out nt (wr_balance row)"
    using assms(1-3) explains_last unfolding wallet_ok_def balanced_def by metis
  ultimately show ?thesis
    using assms(3) by (cases "ledger k db" rule: rev_cases) (simp_all add: getBalanceAtTime_def)
qed

section \<open>Calls without disturbance\<close>

definition undisturbed :: "wallet_faults \<Rightarrow> bool" where
  "undisturbed fs \<longleftrightarrow> (\<forall>n. wf_connect fs n = None \<and> \<not> wf_busy fs n \<and> wf_commit fs n = CommitDone \<and> wf_others fs n = id)"

lemma wallet_transaction_undisturbed:
  assumes "undisturbed fs"
  shows "wallet_transaction cfg fs body db =
    (case body db of (Inl e, db') \<Rightarrow> (Inl (Thrown e), db) | (Inr a, db') \<Rightarrow> (Inr a, db'))"
  using assms unfolding wallet_transaction_def undisturbed_def
  by (subst tx_loop.simps) (auto simp: wallet_env_def tx_attempt_def Let_def split: prod.splits sum.splits)

lemma accepted_amount:
  assumes "denotes amount q k" "k \<le> 18" "0 < q" "q < 10 ^ 18"
  shows "isValidPositiveDecimal amount" "assertValidWalletAmount amount = Inr ()"
  using assms isValidPositiveDecimal_iff wallet_amount_valid [OF assms(1)] by auto

text \<open>Adding to a printed balance gives a decimal with 18 digits, which is refused exactly when it does not fit.\<close>

lemma projected_balance:
  assumes "numeric_ok nt" "units amount a" "0 < a" "0 \<le> b"
  obtains s where "addDecimals (num_out nt b) amount = Inr s"
    and "assertValidWalletAmount s = (if b + a < 10 ^ 36 then Inr () else Inl (AmountOverflowError s 36 18))"
proof -
  obtain k where k: "k \<le> 18" "denotes amount (of_int a / 10 ^ 18) k" using assms(2) by (auto simp: units_def)
  obtain s where s: "addDecimals (num_out nt b) amount = Inr s"
      "denotes s (of_int b / 10 ^ 18 + of_int a / 10 ^ 18) (max 18 k)"
    using addDecimals_denotes [OF numeric_out [OF assms(1), of b] k(2)] by blast
  have "\<bar>of_int b / 10 ^ 18 + of_int a / 10 ^ 18\<bar> < (10 ^ 18 :: rat) \<longleftrightarrow> b + a < 10 ^ 36"
  proof -
    have "\<bar>of_int b / 10 ^ 18 + of_int a / 10 ^ 18\<bar> = (of_int (b + a) :: rat) / 10 ^ 18"
      using assms(3,4) by (simp add: add_divide_distrib [symmetric])
    also have "\<dots> < 10 ^ 18 \<longleftrightarrow> (of_int (b + a) :: rat) < of_int (10 ^ 36)"
      by (simp add: divide_less_eq)
    also have "\<dots> \<longleftrightarrow> b + a < 10 ^ 36" by (rule of_int_less_iff)
    finally show ?thesis .
  qed
  then have "assertValidWalletAmount s = (if b + a < 10 ^ 36 then Inr () else Inl (AmountOverflowError s 36 18))"
    using numeric_bounds [OF s(2), of 18 36] k(1)
    by (simp add: assertValidWalletAmount_def BALANCE_PRECISION_def BALANCE_SCALE_def)
  with s(1) show thesis by (rule that)
qed

definition posted ::
  "numeric_type \<Rightarrow> int \<Rightarrow> string \<Rightarrow> tx_type \<Rightarrow> string \<Rightarrow> int \<Rightarrow> WalletRow \<Rightarrow> string \<Rightarrow> wallet_db \<Rightarrow> wallet_db" where
  "posted nt now txId ty amount d row i db =
     record_tx txId now i ty amount (num_out nt (wr_balance row)) (num_out nt (wr_balance row + d))
       (db\<lparr>wallets := map_set i (row\<lparr>wr_balance := wr_balance row + d, wr_updatedAt := now\<rparr>) (wallets db)\<rparr>)"

section \<open>Properties\<close>

text \<open>
  Claim C19.  The ledger accounts for every balance, whatever happens around the transactions: after any
  sequence of wallet creations, credits, debits and deletions, with connections refused, locks timing out,
  commits failing or losing their acknowledgement, and other well-behaved clients writing in between, each wallet's balance is not negative,
  fits its column, and is the opening balance changed by exactly the amounts of its ledger entries, each
  entry starting from the balance the previous one ended with.
\<close>

theorem wallet_ledger_accounts:
  assumes "numeric_ok nt" "list_all (harmless_call nt) calls"
    and "map_get (wallets (foldl (wallet_step cfg nt) no_wallets calls)) k = Some row"
  shows "0 \<le> wr_balance row \<and> wr_balance row < 10 ^ 36 \<and>
    (\<exists>opening \<ge> 0. explains nt opening (ledger k (foldl (wallet_step cfg nt) no_wallets calls)) (wr_balance row))"
  using wallet_run_ok [OF assms(1) no_wallets_ok assms(2), of cfg] assms(3) by (auto simp: wallet_ok_def balanced_def)

text \<open>
  Claim C20.  Credits and debits are exact: with nothing else going on, a debit of a valid amount succeeds
  exactly when the balance covers it, subtracts exactly that amount and writes one ledger entry, and is
  otherwise refused without any change; a credit adds exactly the amount and writes one ledger entry unless
  the sum does not fit the column, in which case it is refused without any change.
\<close>

theorem wallet_posting_exact:
  fixes now :: int and txId :: string
  assumes "numeric_ok nt" "undisturbed fs" "map_get (wallets db) i = Some row" "0 \<le> wr_balance row" "wr_balance row < 10 ^ 36"
    and "denotes amount q k" "k \<le> 18" "0 < q" "q < 10 ^ 18" "num_in nt amount = Some a"
  shows "q = of_int a / 10 ^ 18 \<and>
    snd (debit cfg nt True fs now txId i amount db) =
      (if a \<le> wr_balance row then posted nt now txId DebitTx amount (- a) row i db else db) \<and>
    fst (debit cfg nt True fs now txId i amount db) =
      (if a \<le> wr_balance row
       then Inr \<lparr>dr_wallet = mapWallet nt (row\<lparr>wr_balance := wr_balance row - a, wr_updatedAt := now\<rparr>),
              dr_previousBalance = num_out nt (wr_balance row), dr_newBalance = num_out nt (wr_balance row - a),
              dr_debitedAmount = amount\<rparr>
       else Inl (Thrown (InsufficientBalanceError i (num_out nt (wr_balance row)) amount))) \<and>
    snd (credit cfg nt True fs now txId i amount db) =
      (if wr_balance row + a < 10 ^ 36 then posted nt now txId CreditTx amount a row i db else db) \<and>
    (wr_balance row + a < 10 ^ 36 \<longleftrightarrow>
      fst (credit cfg nt True fs now txId i amount db) =
        Inr (mapWallet nt (row\<lparr>wr_balance := wr_balance row + a, wr_updatedAt := now\<rparr>)))"
proof -
  note acc = accepted_amount [OF assms(6-9)]
  have a: "units amount a" "0 < a" using checked_amount [OF assms(1) acc assms(10)] .
  obtain s where s: "addDecimals (num_out nt (wr_balance row)) amount = Inr s"
      "assertValidWalletAmount s = (if wr_balance row + a < 10 ^ 36 then Inr () else Inl (AmountOverflowError s 36 18))"
    using projected_balance [OF assms(1) a assms(4)] .
  have debit: "debit cfg nt True fs now txId i amount db =
      (case debit_body nt now txId i amount db of (Inl e, db') \<Rightarrow> (Inl (Thrown e), db) | (Inr r, db') \<Rightarrow> (Inr r, db'))"
    by (simp add: debit_def acc wallet_transaction_undisturbed [OF assms(2)])
  have credit: "credit cfg nt True fs now txId i amount db =
      (case credit_body nt now txId i amount db of (Inl e, db') \<Rightarrow> (Inl (Thrown e), db) | (Inr r, db') \<Rightarrow> (Inr r, db'))"
    by (simp add: credit_def acc wallet_transaction_undisturbed [OF assms(2)])
  have "q = of_int a / 10 ^ 18" using numeric_in [OF assms(1,6,7,10)] .
  then show ?thesis
    using a assms(3-5,10) s
    by (simp add: debit credit debit_body_def credit_body_def compare_units [OF a(1) assms(1)] mapWallet_def
        update_balance_def posted_def Let_def)
qed

section \<open>Witnesses\<close>

definition sample_numeric :: numeric_type where
  "sample_numeric = \<lparr>
     num_in = (\<lambda>s. case parseDecimalString s of
         Inl _ \<Rightarrow> None
       | Inr p \<Rightarrow>
           let u = pd_signed p * 10 ^ (18 - length (fracStr p))
           in if length (fracStr p) \<le> 18 \<and> \<bar>u\<bar> < 10 ^ 36 then Some u else None),
     num_out = (\<lambda>n. signed_str n 18)\<rparr>"

lemma sample_numeric_ok: "numeric_ok sample_numeric"
proof -
  have "of_int n = q * 10 ^ 18" if d: "denotes s q k" and k: "k \<le> 18" and n: "num_in sample_numeric s = Some n" for s q k n
  proof -
    obtain p where p: "parseDecimalString s = Inr p" "pd_value p = q" "length (fracStr p) = k"
      using d denotesE by blast
    then have "n = pd_signed p * 10 ^ (18 - k)" using n by (simp add: sample_numeric_def Let_def split: if_splits)
    moreover have "(10 :: rat) ^ 18 = 10 ^ k * 10 ^ (18 - k)" using k by (simp add: power_add [symmetric])
    moreover have "q * (10 ^ k * 10 ^ (18 - k)) = of_int (pd_signed p) * 10 ^ (18 - k)" using p(2,3) by (auto simp: pd_value_def)
    ultimately show ?thesis by simp
  qed
  then show ?thesis
    using denotes_signed_str [of _ 18]
    by (auto simp: numeric_ok_def sample_numeric_def Let_def split: sum.splits if_splits)
qed

definition calm :: "(nat \<Rightarrow> bool) \<Rightarrow> wallet_faults" where
  "calm busy = \<lparr>wf_connect = (\<lambda>_. None), wf_busy = busy, wf_commit = (\<lambda>_. CommitDone), wf_others = (\<lambda>_ db. db)\<rparr>"

definition sample_wallet_calls :: "wallet_call list" where
  "sample_wallet_calls =
    [CreateWallet ''w1'' 0 \<lparr>cw_address = ''GA'', cw_initialBalance = Some ''10.5'', cw_currency = None\<rparr>,
     DebitWallet True (calm (\<lambda>n. n = 0)) 1 ''t1'' ''w1'' ''2.25'']"

definition sample_row :: WalletRow where
  "sample_row = \<lparr>wr_id = ''w1'', wr_address = ''GA'', wr_balance = 8250000000000000000, wr_currency = ''USD'',
     wr_createdAt = 0, wr_updatedAt = 1\<rparr>"

lemma sample_amounts:
  "denotes ''2.25'' (9 / 4) 2" "num_in sample_numeric ''2.25'' = Some 2250000000000000000"
  "num_in sample_numeric ''10.5'' = Some 10500000000000000000"
  by (simp_all add: dec_eval sample_numeric_def)

lemma calm_transaction:
  "wallet_transaction cfg (calm (\<lambda>n. n = 0)) body db =
    (case body db of (Inl e, db') \<Rightarrow> (Inl (Thrown e), db) | (Inr a, db') \<Rightarrow> (Inr a, db'))"
  unfolding wallet_transaction_def
  by (subst tx_loop.simps, subst tx_loop.simps)
    (auto simp: wallet_env_def calm_def wallet_tx_options_def tx_attempt_def Let_def split: prod.splits sum.splits)

lemma sample_wallet_run:
  "map_get (wallets (foldl (wallet_step FALLBACK_TIMEOUTS sample_numeric) no_wallets sample_wallet_calls)) ''w1'' = Some sample_row"
proof -
  have u: "units ''2.25'' 2250000000000000000"
    unfolding units_def using sample_amounts(1) by (intro exI [of _ 2]) simp
  have ok: "isValidPositiveDecimal ''2.25''" "assertValidWalletAmount ''2.25'' = Inr ()"
    using accepted_amount [OF sample_amounts(1)] by simp_all
  show ?thesis
    by (simp add: sample_wallet_calls_def no_wallets_def create_wallet_def sample_amounts debit_def ok calm_transaction
        debit_body_def mapWallet_def compare_units [OF u sample_numeric_ok] update_balance_def sample_row_def Let_def map_has_def)
qed

lemma harmless_calm: "harmless nt (calm busy)"
  by (simp add: harmless_def calm_def)

theorem wallet_ledger_accounts_witness:
  "\<exists>opening \<ge> 0. explains sample_numeric opening
     (ledger ''w1'' (foldl (wallet_step FALLBACK_TIMEOUTS sample_numeric) no_wallets sample_wallet_calls)) (wr_balance sample_row)"
proof -
  have "list_all (harmless_call sample_numeric) sample_wallet_calls" by (simp add: sample_wallet_calls_def harmless_calm)
  from wallet_ledger_accounts [OF sample_numeric_ok this sample_wallet_run] show ?thesis by blast
qed

definition sample_db :: wallet_db where
  "sample_db = \<lparr>wallets = [(''w1'', sample_row)], wallet_transactions = []\<rparr>"

theorem wallet_posting_exact_witness:
  "snd (debit FALLBACK_TIMEOUTS sample_numeric True (calm (\<lambda>_. False)) 2 ''t2'' ''w1'' ''2.25'' sample_db) =
     posted sample_numeric 2 ''t2'' DebitTx ''2.25'' (- 2250000000000000000) sample_row ''w1'' sample_db \<and>
   snd (credit FALLBACK_TIMEOUTS sample_numeric True (calm (\<lambda>_. False)) 2 ''t2'' ''w1'' ''2.25'' sample_db) =
     posted sample_numeric 2 ''t2'' CreditTx ''2.25'' 2250000000000000000 sample_row ''w1'' sample_db"
proof -
  have fs: "undisturbed (calm (\<lambda>_. False))" by (simp add: undisturbed_def calm_def id_def)
  have row: "map_get (wallets sample_db) ''w1'' = Some sample_row" "0 \<le> wr_balance sample_row" "wr_balance sample_row < 10 ^ 36"
    by (simp_all add: sample_db_def sample_row_def)
  have q: "2 \<le> (18 :: nat)" "0 < (9 / 4 :: rat)" "9 / 4 < (10 ^ 18 :: rat)" by simp_all
  from wallet_posting_exact [OF sample_numeric_ok fs row sample_amounts(1) q sample_amounts(2),
      of FALLBACK_TIMEOUTS 2 "''t2''"] show ?thesis
    by (simp add: sample_row_def)
qed

end
