(* ===== verification/AuditLog.thy ===== *)
theory AuditLog
  imports Sorting
begin

text \<open>
  The hash-chained audit log: the in-memory repository (\<open>src/src/db/repositories/auditLogsRepository.ts\<close>),
  the service with its chain verification (\<open>src/src/services/audit/index.ts\<close>, \<open>chainStatus.ts\<close>, \<open>types.ts\<close>)
  and the scheduled verifier of the table (\<open>src/src/jobs/auditChainVerifier.ts\<close>).  The hash function, JSON
  serialisation, date parsing and \<open>localeCompare\<close> are parameters; details are JSON values of any type.
\<close>

section \<open>Types\<close>

record 'd js_env =
  sha256 :: "string \<Rightarrow> string"
  stringify :: "'d \<Rightarrow> string"
  emptyObject :: 'd
  detailEmail :: "'d \<Rightarrow> string option"
  getTime :: "string \<Rightarrow> int option"
  normalizeDate :: "string \<Rightarrow> string option"
  localeCompare :: "string \<Rightarrow> string \<Rightarrow> int"

datatype AuditStatus = ASuccess | AFailure

fun status_text :: "AuditStatus \<Rightarrow> string" where
  "status_text ASuccess = ''success''"
| "status_text AFailure = ''failure''"

record 'd AuditLogInput =
  ai_tenantId :: string
  ai_actorId :: "string option"
  ai_actor_id :: "string option"
  ai_adminId :: "string option"
  ai_actorEmail :: "string option"
  ai_actor_email :: "string option"
  ai_adminEmail :: "string option"
  ai_action :: string
  ai_resourceType :: string
  ai_resourceId :: string
  ai_details :: "'d option"
  ai_status :: "AuditStatus option"
  ai_ipAddress :: "string option"
  ai_errorMessage :: "string option"
  ai_requestId :: "string option"
  ai_occurredAt :: "string option"

record 'd AuditLogEntry =
  ae_id :: string
  ae_timestamp :: string
  ae_actorId :: string
  ae_actorEmail :: string
  ae_adminId :: "string option"
  ae_adminEmail :: "string option"
  ae_action :: string
  ae_resourceType :: string
  ae_resourceId :: string
  ae_targetUserId :: "string option"
  ae_targetUserEmail :: "string option"
  ae_details :: 'd
  ae_status :: AuditStatus
  ae_ipAddress :: "string option"
  ae_errorMessage :: "string option"
  ae_tenantId :: string
  ae_requestId :: "string option"
  ae_seq :: "int option"
  ae_prevHash :: "string option"
  ae_rowHash :: "string option"

record 'd InMemoryAuditLogsRepository =
  logs :: "'d AuditLogEntry list"
  seqCounter :: int

datatype violation_type = PrevHashMismatch | RowHashMismatch | MissingRow | DeletedRow

record ChainViolation =
  cv_seq :: int
  cv_id :: string
  cv_expectedPrevHash :: "string option"
  cv_actualPrevHash :: "string option"
  cv_expectedRowHash :: string
  cv_actualRowHash :: "string option"
  cv_type :: violation_type

record ChainVerificationResult =
  cr_valid :: bool
  cr_rowsChecked :: nat
  cr_lastCheckedSeq :: "int option"
  cr_firstViolationSeq :: "int option"
  cr_firstViolationId :: "string option"
  cr_violationCount :: nat
  cr_violations :: "ChainViolation list"
  cr_checkedAt :: string

datatype chain_status = ChainValid | BreakDetected | NeverRun

record AuditChainVerificationState =
  vs_lastVerifiedHeight :: int
  vs_verifiedAt :: "string option"
  vs_status :: chain_status
  vs_firstBreakSeq :: "int option"
  vs_violationCount :: nat
  vs_rowsChecked :: nat

datatype audit_error =
    TenantRequired
  | ScopeRequired
  | BadRetention
  | BadBatchSize
  | RepairUnauthorised
  | MissingTenantContext
  | InvalidState string

section \<open>The row hash\<close>

fun join :: "char \<Rightarrow> string list \<Rightarrow> string" where
  "join c [] = []"
| "join c [s] = s"
| "join c (s # ss) = s @ c # join c ss"

definition or_else :: "'a option \<Rightarrow> 'a \<Rightarrow> 'a" where
  "or_else x d = (case x of None \<Rightarrow> d | Some v \<Rightarrow> v)"

definition hash_input where
  "hash_input prevHash i occurredAt actorId action resourceType resourceId detailsJson status tenantId requestId =
     join (CHR ''|'') [or_else prevHash ''GENESIS'', i, occurredAt, actorId, action, resourceType, resourceId,
       detailsJson, status, tenantId, requestId]"

definition computeRowHash where
  "computeRowHash (env :: 'd js_env) prevHash i occurredAt actorId action resourceType resourceId detailsJson status tenantId requestId =
     sha256 env (hash_input prevHash i occurredAt actorId action resourceType resourceId detailsJson status tenantId requestId)"

section \<open>The in-memory repository\<close>

definition resolveActorId :: "'d AuditLogInput \<Rightarrow> string" where
  "resolveActorId input = or_else (ai_actorId input) (or_else (ai_actor_id input) (or_else (ai_adminId input) ''unknown''))"

definition resolveActorEmail :: "'d AuditLogInput \<Rightarrow> string" where
  "resolveActorEmail input =
     or_else (ai_actorEmail input) (or_else (ai_actor_email input) (or_else (ai_adminEmail input) ''unknown@unknown''))"

definition append_entry ::
  "'d js_env \<Rightarrow> string \<Rightarrow> string \<Rightarrow> 'd AuditLogInput \<Rightarrow> ('d InMemoryAuditLogsRepository, audit_error, 'd AuditLogEntry) exec" where
  "append_entry env uuid now input repo =
     (if ai_tenantId input = '''' then (Inl TenantRequired, repo)
      else
        let actorId = resolveActorId input;
            actorEmail = resolveActorEmail input;
            seq = seqCounter repo + 1;
            occurredAt = or_else (ai_occurredAt input) now;
            details = or_else (ai_details input) (emptyObject env);
            statusVal = or_else (ai_status input) ASuccess;
            prevHash = (if logs repo \<noteq> [] then ae_rowHash (last (logs repo)) else None);
            rowHash = computeRowHash env prevHash uuid occurredAt actorId (ai_action input) (ai_resourceType input)
              (ai_resourceId input) (stringify env details) (status_text statusVal) (ai_tenantId input)
              (or_else (ai_requestId input) '''');
            entry = \<lparr>ae_id = uuid, ae_timestamp = occurredAt, ae_actorId = actorId, ae_actorEmail = actorEmail,
              ae_adminId = Some actorId, ae_adminEmail = Some actorEmail, ae_action = ai_action input,
              ae_resourceType = ai_resourceType input, ae_resourceId = ai_resourceId input,
              ae_targetUserId = Some (ai_resourceId input), ae_targetUserEmail = detailEmail env details,
              ae_details = details, ae_status = statusVal, ae_ipAddress = ai_ipAddress input,
              ae_errorMessage = ai_errorMessage input, ae_tenantId = ai_tenantId input,
              ae_requestId = ai_requestId input, ae_seq = Some seq, ae_prevHash = prevHash, ae_rowHash = Some rowHash\<rparr>
        in (Inr entry, \<lparr>logs = logs repo @ [entry], seqCounter = seq\<rparr>))"

fun appendBatch ::
  "'d js_env \<Rightarrow> (string \<times> string \<times> 'd AuditLogInput) list \<Rightarrow>
   ('d InMemoryAuditLogsRepository, audit_error, 'd AuditLogEntry list) exec" where
  "appendBatch env [] repo = (Inr [], repo)"
| "appendBatch env ((uuid, now, input) # rest) repo =
     (case append_entry env uuid now input repo of
        (Inl e, repo1) \<Rightarrow> (Inl e, repo1)
      | (Inr entry, repo1) \<Rightarrow>
          (case appendBatch env rest repo1 of
             (Inl e, repo2) \<Rightarrow> (Inl e, repo2)
           | (Inr entries, repo2) \<Rightarrow> (Inr (entry # entries), repo2)))"

definition getAll :: "'d InMemoryAuditLogsRepository \<Rightarrow> 'd AuditLogEntry list" where
  "getAll repo = logs repo"

definition clear_logs :: "'d InMemoryAuditLogsRepository \<Rightarrow> 'd InMemoryAuditLogsRepository" where
  "clear_logs repo = \<lparr>logs = [], seqCounter = 0\<rparr>"

section \<open>Verification of the chain by the service\<close>

definition MAX_SAFE_INTEGER :: int where "MAX_SAFE_INTEGER = 2 ^ 53 - 1"

definition seq_cmp :: "'d js_env \<Rightarrow> 'd AuditLogEntry \<Rightarrow> 'd AuditLogEntry \<Rightarrow> int" where
  "seq_cmp env a b =
     (let d = or_else (ae_seq a) MAX_SAFE_INTEGER - or_else (ae_seq b) MAX_SAFE_INTEGER
      in if d \<noteq> 0 then d else localeCompare env (ae_id a) (ae_id b))"

definition expected_hash :: "'d js_env \<Rightarrow> string option \<Rightarrow> 'd AuditLogEntry \<Rightarrow> string" where
  "expected_hash env previousHash e =
     computeRowHash env previousHash (ae_id e) (ae_timestamp e) (ae_actorId e) (ae_action e) (ae_resourceType e)
       (ae_resourceId e) (stringify env (ae_details e)) (status_text (ae_status e)) (ae_tenantId e)
       (or_else (ae_requestId e) '''')"

definition violation :: "int \<Rightarrow> string option \<Rightarrow> string \<Rightarrow> violation_type \<Rightarrow> 'd AuditLogEntry \<Rightarrow> ChainViolation" where
  "violation seq previousHash expectedHash ty e =
     \<lparr>cv_seq = seq, cv_id = ae_id e, cv_expectedPrevHash = previousHash, cv_actualPrevHash = ae_prevHash e,
      cv_expectedRowHash = expectedHash, cv_actualRowHash = ae_rowHash e, cv_type = ty\<rparr>"

fun verify_loop :: "'d js_env \<Rightarrow> string option \<Rightarrow> int \<Rightarrow> 'd AuditLogEntry list \<Rightarrow> ChainViolation list" where
  "verify_loop env previousHash expectedSeq [] = []"
| "verify_loop env previousHash expectedSeq (entry # rest) =
     (let seq = or_else (ae_seq entry) expectedSeq;
          expectedHash = expected_hash env previousHash entry
      in (if seq \<noteq> expectedSeq then [violation expectedSeq previousHash expectedHash MissingRow entry] else []) @
         (if ae_prevHash entry \<noteq> previousHash then [violation seq previousHash expectedHash PrevHashMismatch entry] else []) @
         (if \<not> truthy (ae_rowHash entry) \<or> ae_rowHash entry \<noteq> Some expectedHash
          then [violation seq previousHash expectedHash RowHashMismatch entry] else []) @
         verify_loop env (ae_rowHash entry) (seq + 1) rest)"

definition computeLastVerifiedHeight :: "ChainVerificationResult \<Rightarrow> int" where
  "computeLastVerifiedHeight result =
     (if cr_valid result then or_else (cr_lastCheckedSeq result) 0
      else case cr_firstViolationSeq result of
        Some s \<Rightarrow> max 0 (s - 1)
      | None \<Rightarrow> 0)"

definition toChainVerificationState :: "ChainVerificationResult \<Rightarrow> AuditChainVerificationState" where
  "toChainVerificationState result =
     \<lparr>vs_lastVerifiedHeight = computeLastVerifiedHeight result, vs_verifiedAt = Some (cr_checkedAt result),
      vs_status = (if cr_valid result then ChainValid else BreakDetected),
      vs_firstBreakSeq = (if cr_valid result then None else cr_firstViolationSeq result),
      vs_violationCount = cr_violationCount result, vs_rowsChecked = cr_rowsChecked result\<rparr>"

text \<open>The store of the last verification, one state per tenant.\<close>

definition isSafeInteger :: "int \<Rightarrow> bool" where
  "isSafeInteger n = (\<bar>n\<bar> \<le> MAX_SAFE_INTEGER)"

definition validateState ::
  "'d js_env \<Rightarrow> AuditChainVerificationState \<Rightarrow> (audit_error, AuditChainVerificationState) result" where
  "validateState env state =
     (if \<not> isSafeInteger (vs_lastVerifiedHeight state) \<or> vs_lastVerifiedHeight state < 0
      then Inl (InvalidState ''lastVerifiedHeight'')
      else if \<not> isSafeInteger (int (vs_violationCount state)) then Inl (InvalidState ''violationCount'')
      else if \<not> isSafeInteger (int (vs_rowsChecked state)) then Inl (InvalidState ''rowsChecked'')
      else if (case vs_firstBreakSeq state of None \<Rightarrow> False | Some s \<Rightarrow> \<not> isSafeInteger s \<or> s < 0)
      then Inl (InvalidState ''firstBreakSeq'')
      else case vs_verifiedAt state of
        None \<Rightarrow> Inr state
      | Some v \<Rightarrow>
          (case normalizeDate env v of
             None \<Rightarrow> Inl (InvalidState ''verifiedAt'')
           | Some t \<Rightarrow>
               if vs_status state = NeverRun then Inl (InvalidState ''never_run'')
               else Inr (state\<lparr>vs_verifiedAt := Some t\<rparr>)))"

record 'd AuditLogService =
  repository :: "'d InMemoryAuditLogsRepository"
  states :: "(string, AuditChainVerificationState) jsmap"

definition saveStatus ::
  "'d js_env \<Rightarrow> string option \<Rightarrow> AuditChainVerificationState \<Rightarrow>
   ('d AuditLogService, audit_error, AuditChainVerificationState) exec" where
  "saveStatus env tenantCtx state svc =
     (if \<not> truthy tenantCtx then (Inl MissingTenantContext, svc)
      else case validateState env state of
        Inl e \<Rightarrow> (Inl e, svc)
      | Inr normalized \<Rightarrow> (Inr normalized, svc\<lparr>states := map_set (the tenantCtx) normalized (states svc)\<rparr>))"

definition getStatus :: "string option \<Rightarrow> 'd AuditLogService \<Rightarrow> (audit_error, AuditChainVerificationState option) result" where
  "getStatus tenantCtx svc =
     (if \<not> truthy tenantCtx then Inl MissingTenantContext else Inr (map_get (states svc) (the tenantCtx)))"

definition clearStatus :: "string option \<Rightarrow> ('d AuditLogService, audit_error, unit) exec" where
  "clearStatus tenantCtx svc =
     (if \<not> truthy tenantCtx then (Inl MissingTenantContext, svc)
      else (Inr (), svc\<lparr>states := map_delete (the tenantCtx) (states svc)\<rparr>))"

definition ordered_logs :: "'d js_env \<Rightarrow> 'd InMemoryAuditLogsRepository \<Rightarrow> 'd AuditLogEntry list" where
  "ordered_logs env repo = js_sort (seq_cmp env) (getAll repo)"

definition chain_result :: "'d js_env \<Rightarrow> string \<Rightarrow> 'd InMemoryAuditLogsRepository \<Rightarrow> ChainVerificationResult" where
  "chain_result env checkedAt repo =
     (let ordered = ordered_logs env repo;
          violations = verify_loop env None (if ordered \<noteq> [] then 1 else 0) ordered
      in \<lparr>cr_valid = (violations = []), cr_rowsChecked = length ordered,
          cr_lastCheckedSeq = Some (if ordered \<noteq> [] then or_else (ae_seq (last ordered)) (int (length ordered)) else 0),
          cr_firstViolationSeq = (case violations of [] \<Rightarrow> None | v # _ \<Rightarrow> Some (cv_seq v)),
          cr_firstViolationId = (case violations of [] \<Rightarrow> None | v # _ \<Rightarrow> Some (cv_id v)),
          cr_violationCount = length violations, cr_violations = violations, cr_checkedAt = checkedAt\<rparr>)"

definition verifyChain ::
  "'d js_env \<Rightarrow> string option \<Rightarrow> string \<Rightarrow> ('d AuditLogService, audit_error, ChainVerificationResult) exec" where
  "verifyChain env tenantCtx checkedAt svc =
     (let result = chain_result env checkedAt (repository svc)
      in case saveStatus env tenantCtx (toChainVerificationState result) svc of
           (Inl e, svc1) \<Rightarrow> (Inl e, svc1)
         | (Inr _, svc1) \<Rightarrow> (Inr result, svc1))"

section \<open>Service operations\<close>

definition log_input ::
  "'d js_env \<Rightarrow> 'd AuditLogInput \<Rightarrow> string \<Rightarrow> string \<Rightarrow> ('d AuditLogService, audit_error, 'd AuditLogEntry) exec" where
  "log_input env input uuid now svc =
     (case append_entry env uuid now input (repository svc) of (r, repo) \<Rightarrow> (r, svc\<lparr>repository := repo\<rparr>))"

text \<open>\<open>logAction\<close> with positional arguments; merging the target's address into the details is a parameter.\<close>

definition action_resource :: "string \<Rightarrow> string" where
  "action_resource action =
     (if action = ''LIST_USERS'' \<or> action = ''EXPORT_AUDIT_LOGS'' then ''admin_user''
      else if action = ''ROTATE_SIGNING_KEY'' then ''system'' else ''user'')"

definition logAction where
  "logAction env mergeDetails tenantId actorId actorEmail action targetUserId targetUserEmail details status errorMessage ipAddress
     requestId uuid now svc =
     (let effectiveAction = or_else action ''UNKNOWN_ACTION'';
          input = \<lparr>ai_tenantId = tenantId, ai_actorId = Some (or_else actorId ''unknown''), ai_actor_id = None, ai_adminId = None,
            ai_actorEmail = Some (or_else actorEmail ''unknown@unknown''), ai_actor_email = None, ai_adminEmail = None,
            ai_action = effectiveAction, ai_resourceType = action_resource effectiveAction,
            ai_resourceId = or_else targetUserId (or_else actorId ''unknown''),
            ai_details = Some (mergeDetails (or_else details (emptyObject env)) (if truthy targetUserEmail then targetUserEmail else None)),
            ai_status = status, ai_ipAddress = ipAddress, ai_errorMessage = errorMessage, ai_requestId = requestId, ai_occurredAt = None\<rparr>
      in log_input (env :: 'd js_env) input uuid now svc)"

definition logBatch ::
  "'d js_env \<Rightarrow> (string \<times> string \<times> 'd AuditLogInput) list \<Rightarrow> ('d AuditLogService, audit_error, 'd AuditLogEntry list) exec" where
  "logBatch env inputs svc =
     (case appendBatch env inputs (repository svc) of (r, repo) \<Rightarrow> (r, svc\<lparr>repository := repo\<rparr>))"

definition clearLogs :: "'d AuditLogService \<Rightarrow> 'd AuditLogService" where
  "clearLogs svc = svc\<lparr>repository := clear_logs (repository svc)\<rparr>"

record ChainRepairAuthorization =
  ra_operatorId :: string
  ra_approvedBy :: string
  ra_authorizationRef :: string
  ra_reason :: string

definition requestChainRepair ::
  "'d js_env \<Rightarrow> (ChainRepairAuthorization \<Rightarrow> 'd) \<Rightarrow> string \<Rightarrow> ChainRepairAuthorization \<Rightarrow> string \<Rightarrow> string \<Rightarrow>
   ('d AuditLogService, audit_error, 'd AuditLogEntry \<times> ChainRepairAuthorization) exec" where
  "requestChainRepair env repairDetails tenantId authorization uuid now svc =
     (if tenantId = '''' \<or> ra_operatorId authorization = '''' \<or> ra_approvedBy authorization = '''' \<or>
         ra_authorizationRef authorization = '''' \<or> ra_reason authorization = ''''
      then (Inl RepairUnauthorised, svc)
      else
        let input = \<lparr>ai_tenantId = tenantId, ai_actorId = Some (ra_operatorId authorization), ai_actor_id = None, ai_adminId = None,
              ai_actorEmail = Some (ra_operatorId authorization @ ''@repair.invalid''), ai_actor_email = None, ai_adminEmail = None,
              ai_action = ''CHAIN_REPAIR_REQUESTED'', ai_resourceType = ''audit_chain'',
              ai_resourceId = ra_authorizationRef authorization, ai_details = Some (repairDetails authorization),
              ai_status = Some ASuccess, ai_ipAddress = None, ai_errorMessage = None, ai_requestId = None, ai_occurredAt = None\<rparr>
        in case log_input env input uuid now svc of
             (Inl e, svc1) \<Rightarrow> (Inl e, svc1)
           | (Inr marker, svc1) \<Rightarrow> (Inr (marker, authorization), svc1))"

section \<open>Retention\<close>

record AuditLogPurgeResult =
  pr_expiredCount :: int
  pr_deletedCount :: int
  pr_dryRun :: bool
  pr_ttlDays :: int
  pr_tenantId :: "string option"

definition expired :: "'d js_env \<Rightarrow> int \<Rightarrow> string option \<Rightarrow> 'd AuditLogEntry \<Rightarrow> bool" where
  "expired env cutoff tenantId e \<longleftrightarrow>
     (case getTime env (ae_timestamp e) of None \<Rightarrow> False | Some t \<Rightarrow> t < cutoff) \<and> (truthy tenantId \<longrightarrow> tenantId = Some (ae_tenantId e))"

text \<open>The rounds test the opposite comparison, which differs on unparsable timestamps.\<close>

definition not_kept :: "'d js_env \<Rightarrow> int \<Rightarrow> string option \<Rightarrow> 'd AuditLogEntry \<Rightarrow> bool" where
  "not_kept env cutoff tenantId e \<longleftrightarrow>
     \<not> (case getTime env (ae_timestamp e) of None \<Rightarrow> False | Some t \<Rightarrow> t \<ge> cutoff) \<and> \<not> (truthy tenantId \<and> tenantId \<noteq> Some (ae_tenantId e))"

text \<open>One round removes the first \<open>batchSize\<close> expired entries; entries are compared by identity.\<close>

fun drop_expired :: "('a \<Rightarrow> bool) \<Rightarrow> nat \<Rightarrow> 'a list \<Rightarrow> 'a list" where
  "drop_expired P n [] = []"
| "drop_expired P n (x # xs) =
     (if n = 0 then x # xs else if P x then drop_expired P (n - 1) xs else x # drop_expired P n xs)"

fun purge_rounds :: "nat \<Rightarrow> ('a \<Rightarrow> bool) \<Rightarrow> nat \<Rightarrow> 'a list \<Rightarrow> int \<times> 'a list" where
  "purge_rounds 0 P batchSize xs = (0, xs)"
| "purge_rounds (Suc n) P batchSize xs =
     (if filter P xs = [] then (0, xs)
      else
        let xs1 = drop_expired P batchSize xs;
            deleted = length xs - length xs1
        in if deleted < batchSize then (int deleted, xs1)
           else case purge_rounds n P batchSize xs1 of (d, xs2) \<Rightarrow> (int deleted + d, xs2))"

definition ceil_div :: "nat \<Rightarrow> nat \<Rightarrow> nat" where
  "ceil_div a b = (a + b - 1) div b"

definition repo_purgeExpired ::
  "'d js_env \<Rightarrow> int \<Rightarrow> int \<Rightarrow> int option \<Rightarrow> string option \<Rightarrow> bool option \<Rightarrow>
   ('d InMemoryAuditLogsRepository, audit_error, AuditLogPurgeResult) exec" where
  "repo_purgeExpired env now olderThanDays batchOpt tenantId dryOpt repo =
     (if olderThanDays = 0
      then (Inr \<lparr>pr_expiredCount = 0, pr_deletedCount = 0, pr_dryRun = or_else dryOpt False, pr_ttlDays = 0, pr_tenantId = tenantId\<rparr>, repo)
      else if olderThanDays < 0 then (Inl BadRetention, repo)
      else
        let batchSize = or_else batchOpt 5000; dryRun = or_else dryOpt False
        in if batchSize < 1 then (Inl BadBatchSize, repo)
           else
             let cutoff = now - olderThanDays * 24 * 60 * 60 * 1000;
                 expiredCount = length (filter (expired env cutoff tenantId) (logs repo));
                 result = \<lparr>pr_expiredCount = int expiredCount, pr_deletedCount = 0, pr_dryRun = dryRun, pr_ttlDays = olderThanDays,
                   pr_tenantId = tenantId\<rparr>
             in if dryRun \<or> expiredCount = 0 then (Inr result, repo)
                else case purge_rounds (ceil_div expiredCount (nat batchSize) + 1) (not_kept env cutoff tenantId) (nat batchSize) (logs repo) of
                  (deleted, rest) \<Rightarrow> (Inr (result\<lparr>pr_deletedCount := deleted, pr_dryRun := False\<rparr>), repo\<lparr>logs := rest\<rparr>))"

definition purgeExpired ::
  "'d js_env \<Rightarrow> int \<Rightarrow> int \<Rightarrow> int option \<Rightarrow> string option \<Rightarrow> bool option \<Rightarrow> bool \<Rightarrow>
   ('d AuditLogService, audit_error, AuditLogPurgeResult) exec" where
  "purgeExpired env now olderThanDays batchOpt tenantId dryOpt allowSuperScope svc =
     (if \<not> truthy tenantId \<and> \<not> allowSuperScope then (Inl ScopeRequired, svc)
      else case repo_purgeExpired env now olderThanDays batchOpt tenantId dryOpt (repository svc) of
        (r, repo) \<Rightarrow> (r, svc\<lparr>repository := repo\<rparr>))"

section \<open>Chains\<close>

fun chained :: "'d js_env \<Rightarrow> string option \<Rightarrow> int \<Rightarrow> 'd AuditLogEntry list \<Rightarrow> bool" where
  "chained env prev n [] \<longleftrightarrow> True"
| "chained env prev n (e # es) \<longleftrightarrow>
     or_else (ae_seq e) n = n \<and> ae_prevHash e = prev \<and> truthy (ae_rowHash e) \<and>
     ae_rowHash e = Some (expected_hash env prev e) \<and> chained env (ae_rowHash e) (n + 1) es"

lemma verify_loop_iff: "verify_loop env prev n es = [] \<longleftrightarrow> chained env prev n es"
  by (induction es arbitrary: prev n) (auto simp: Let_def)

definition tail_hash :: "string option \<Rightarrow> 'd AuditLogEntry list \<Rightarrow> string option" where
  "tail_hash prev es = (if es = [] then prev else ae_rowHash (last es))"

lemma chained_append:
  "chained env prev n (es @ fs) \<longleftrightarrow> chained env prev n es \<and> chained env (tail_hash prev es) (n + int (length es)) fs"
proof (induction es arbitrary: prev n)
  case (Cons e es)
  have "tail_hash (ae_rowHash e) es = tail_hash prev (e # es)" by (simp add: tail_hash_def)
  then show ?case by (simp add: Cons.IH algebra_simps)
qed (simp add: tail_hash_def)

lemma chain_valid_iff:
  "cr_valid (chain_result env t repo) \<longleftrightarrow> chained env None 1 (ordered_logs env repo)"
  by (auto simp: chain_result_def Let_def verify_loop_iff)

text \<open>What the repository keeps: consecutive sequence numbers and a correct chain, in the order of insertion.\<close>

definition repo_ok :: "'d js_env \<Rightarrow> 'd InMemoryAuditLogsRepository \<Rightarrow> bool" where
  "repo_ok env repo \<longleftrightarrow> chained env None 1 (logs repo) \<and> seqCounter repo = int (length (logs repo)) \<and>
     (\<forall>i < length (logs repo). ae_seq (logs repo ! i) = Some (int i + 1))"

text \<open>What is relied on of the hash: it is printed as a non-empty word of hexadecimal digits.\<close>

definition hash_ok :: "'d js_env \<Rightarrow> bool" where
  "hash_ok env \<longleftrightarrow> (\<forall>x. sha256 env x \<noteq> [] \<and> CHR ''|'' \<notin> set (sha256 env x))"

lemma append_ok:
  assumes "hash_ok env" "repo_ok env repo"
  shows "repo_ok env (snd (append_entry env uuid now input repo))"
proof (cases "ai_tenantId input = ''''")
  case True
  then show ?thesis using assms(2) by (simp add: append_entry_def)
next
  case False
  obtain e where e: "snd (append_entry env uuid now input repo) = \<lparr>logs = logs repo @ [e], seqCounter = seqCounter repo + 1\<rparr>"
      "ae_seq e = Some (seqCounter repo + 1)" "ae_prevHash e = tail_hash None (logs repo)"
      "ae_rowHash e = Some (expected_hash env (tail_hash None (logs repo)) e)"
    using False by (auto simp: append_entry_def Let_def expected_hash_def tail_hash_def)
  have "sha256 env x \<noteq> []" for x using assms(1) by (simp add: hash_ok_def)
  then have "truthy (ae_rowHash e)" by (simp add: e(4) truthy_def expected_hash_def computeRowHash_def)
  then have "chained env None 1 (logs repo @ [e])"
    using assms(2) e by (simp add: chained_append repo_ok_def or_else_def)
  then show ?thesis using assms(2) e(2) by (auto simp: repo_ok_def e(1) nth_append)
qed

lemma appendBatch_ok: "hash_ok env \<Longrightarrow> repo_ok env repo \<Longrightarrow> repo_ok env (snd (appendBatch env inputs repo))"
proof (induction inputs arbitrary: repo)
  case (Cons x rest)
  obtain uuid now input where x: "x = (uuid, now, input)" by (cases x)
  obtain r repo1 where a: "append_entry env uuid now input repo = (r, repo1)" by fastforce
  then have ok: "repo_ok env repo1" using append_ok [OF Cons.prems, of uuid now input] by simp
  show ?case
    using ok Cons.IH [OF Cons.prems(1) ok] by (cases "appendBatch env rest repo1"; cases r) (auto simp: x a split: sum.splits)
qed simp

lemma clear_ok: "repo_ok env (clear_logs repo)"
  by (simp add: repo_ok_def clear_logs_def)

lemma ordered_in_order:
  assumes "\<forall>i < length (logs repo). ae_seq (logs repo ! i) = Some (int i + 1)"
  shows "ordered_logs env repo = logs repo"
proof -
  have "sorted_wrt (\<lambda>a b. seq_cmp env a b \<le> 0) (logs repo)"
    using assms by (auto simp: sorted_wrt_iff_nth_less seq_cmp_def or_else_def Let_def)
  then show ?thesis by (simp add: ordered_logs_def getAll_def js_sort_sorted)
qed

lemma ordered_id: "repo_ok env repo \<Longrightarrow> ordered_logs env repo = logs repo"
  by (simp add: repo_ok_def ordered_in_order)

lemma repo_ok_valid:
  assumes "repo_ok env repo"
  shows "cr_valid (chain_result env t repo)" "cr_rowsChecked (chain_result env t repo) = length (logs repo)"
    "computeLastVerifiedHeight (chain_result env t repo) = int (length (logs repo))"
proof -
  have last: "ae_seq (last (logs repo)) = Some (int (length (logs repo)))" if "logs repo \<noteq> []"
    using assms that by (auto simp: repo_ok_def last_conv_nth of_nat_diff Suc_le_eq)
  show v: "cr_valid (chain_result env t repo)" using assms by (simp add: chain_valid_iff ordered_id repo_ok_def)
  show "cr_rowsChecked (chain_result env t repo) = length (logs repo)"
    using assms by (simp add: chain_result_def Let_def ordered_id)
  have "cr_lastCheckedSeq (chain_result env t repo) = Some (int (length (logs repo)))"
    using last by (simp add: chain_result_def Let_def ordered_id assms or_else_def)
  with v show "computeLastVerifiedHeight (chain_result env t repo) = int (length (logs repo))"
    by (simp add: computeLastVerifiedHeight_def or_else_def)
qed

section \<open>The hashed content\<close>

definition entry_input :: "'d js_env \<Rightarrow> string option \<Rightarrow> 'd AuditLogEntry \<Rightarrow> string" where
  "entry_input env prev e =
     hash_input prev (ae_id e) (ae_timestamp e) (ae_actorId e) (ae_action e) (ae_resourceType e) (ae_resourceId e)
       (stringify env (ae_details e)) (status_text (ae_status e)) (ae_tenantId e) (or_else (ae_requestId e) '''')"

lemma expected_hash_input: "expected_hash env prev e = sha256 env (entry_input env prev e)"
  by (simp add: expected_hash_def computeRowHash_def entry_input_def)

text \<open>Only the details may contain the separator.\<close>

definition plain_fields :: "'d AuditLogEntry \<Rightarrow> bool" where
  "plain_fields e \<longleftrightarrow> list_all (\<lambda>s. CHR ''|'' \<notin> set s)
     [ae_id e, ae_timestamp e, ae_actorId e, ae_action e, ae_resourceType e, ae_resourceId e, ae_tenantId e,
      or_else (ae_requestId e) '''']"

definition same_content :: "'d js_env \<Rightarrow> 'd AuditLogEntry \<Rightarrow> 'd AuditLogEntry \<Rightarrow> bool" where
  "same_content env a b \<longleftrightarrow> ae_id a = ae_id b \<and> ae_timestamp a = ae_timestamp b \<and> ae_actorId a = ae_actorId b \<and>
     ae_action a = ae_action b \<and> ae_resourceType a = ae_resourceType b \<and> ae_resourceId a = ae_resourceId b \<and>
     stringify env (ae_details a) = stringify env (ae_details b) \<and> ae_status a = ae_status b \<and>
     ae_tenantId a = ae_tenantId b \<and> or_else (ae_requestId a) '''' = or_else (ae_requestId b) ''''"

lemma peel_left:
  "c \<notin> set s \<Longrightarrow> c \<notin> set s' \<Longrightarrow> s @ c # r = s' @ c # r' \<longleftrightarrow> s = s' \<and> r = r'"
proof (induction s arbitrary: s')
  case Nil
  then show ?case by (cases s') auto
next
  case (Cons x s)
  then show ?case by (cases s') auto
qed

lemma peel_right:
  assumes "c \<notin> set r" "c \<notin> set r'"
  shows "s @ c # r = s' @ c # r' \<longleftrightarrow> s = s' \<and> r = r'"
proof -
  have "s @ c # r = s' @ c # r' \<longleftrightarrow> rev (s @ c # r) = rev (s' @ c # r')" by blast
  also have "\<dots> \<longleftrightarrow> rev r @ c # rev s = rev r' @ c # rev s'" by simp
  also have "\<dots> \<longleftrightarrow> rev r = rev r' \<and> rev s = rev s'" using assms by (simp add: peel_left)
  finally show ?thesis by auto
qed

lemma status_plain [simp]: "CHR ''|'' \<notin> set (status_text st)"
  by (cases st) simp_all

lemma status_text_inj [simp]: "status_text a = status_text b \<longleftrightarrow> a = b"
  by (cases a; cases b) simp_all

lemma entry_input_eq:
  assumes "entry_input env prev a = entry_input env prev' b" "plain_fields a" "plain_fields b"
    and "CHR ''|'' \<notin> set (or_else prev ''GENESIS'')" "CHR ''|'' \<notin> set (or_else prev' ''GENESIS'')"
  shows "or_else prev ''GENESIS'' = or_else prev' ''GENESIS'' \<and> same_content env a b"
proof -
  let ?tail = "\<lambda>e. stringify env (ae_details e) @ CHR ''|'' # status_text (ae_status e) @ CHR ''|'' # ae_tenantId e @
      CHR ''|'' # or_else (ae_requestId e) ''''"
  have split: "?tail e = ((stringify env (ae_details e) @ CHR ''|'' # status_text (ae_status e)) @ CHR ''|'' # ae_tenantId e) @
      CHR ''|'' # or_else (ae_requestId e) ''''" for e by simp
  have "?tail a = ?tail b \<and> or_else prev ''GENESIS'' = or_else prev' ''GENESIS'' \<and> ae_id a = ae_id b \<and>
      ae_timestamp a = ae_timestamp b \<and> ae_actorId a = ae_actorId b \<and> ae_action a = ae_action b \<and>
      ae_resourceType a = ae_resourceType b \<and> ae_resourceId a = ae_resourceId b"
    using assms by (simp add: entry_input_def hash_input_def plain_fields_def peel_left)
  moreover have "?tail a = ?tail b \<Longrightarrow> stringify env (ae_details a) = stringify env (ae_details b) \<and> ae_status a = ae_status b \<and>
      ae_tenantId a = ae_tenantId b \<and> or_else (ae_requestId a) '''' = or_else (ae_requestId b) ''''"
    unfolding split using assms(2,3) by (simp add: plain_fields_def peel_right del: append_assoc append_Cons)
  ultimately show ?thesis by (simp add: same_content_def)
qed

lemma chained_nth:
  assumes "chained env prev n es" "i < length es"
  shows "ae_prevHash (es ! i) = (if i = 0 then prev else ae_rowHash (es ! (i - 1)))"
    and "ae_rowHash (es ! i) = Some (sha256 env (entry_input env (ae_prevHash (es ! i)) (es ! i)))"
proof -
  have "ae_prevHash (es ! i) = (if i = 0 then prev else ae_rowHash (es ! (i - 1))) \<and>
      ae_rowHash (es ! i) = Some (sha256 env (entry_input env (ae_prevHash (es ! i)) (es ! i)))"
    using assms
  proof (induction es arbitrary: prev n i)
    case (Cons e es)
    then show ?case by (cases i; cases "i - 1") (auto simp: expected_hash_input)
  qed simp
  then show "ae_prevHash (es ! i) = (if i = 0 then prev else ae_rowHash (es ! (i - 1)))"
    and "ae_rowHash (es ! i) = Some (sha256 env (entry_input env (ae_prevHash (es ! i)) (es ! i)))" by blast+
qed

definition hashed_inputs :: "'d js_env \<Rightarrow> 'd AuditLogEntry list \<Rightarrow> string set" where
  "hashed_inputs env es = (\<lambda>e. entry_input env (ae_prevHash e) e) ` set es"

lemma prev_plain:
  assumes "hash_ok env" "chained env None n es" "i < length es"
  shows "CHR ''|'' \<notin> set (or_else (ae_prevHash (es ! i)) ''GENESIS'')"
  using assms chained_nth [OF assms(2), of i] chained_nth(2) [OF assms(2), of "i - 1"]
  by (auto simp: hash_ok_def or_else_def)

lemma chain_anchor_step:
  assumes "hash_ok env" "chained env None 1 as" "chained env None 1 bs" "length as = length bs"
    and "inj_on (sha256 env) (hashed_inputs env as \<union> hashed_inputs env bs)"
    and "list_all plain_fields as" "list_all plain_fields bs"
    and "i < length as" "ae_rowHash (as ! i) = ae_rowHash (bs ! i)"
  shows "same_content env (as ! i) (bs ! i) \<and> ae_prevHash (as ! i) = ae_prevHash (bs ! i)"
proof -
  have ib: "i < length bs" using assms(4,8) by simp
  have mem: "as ! i \<in> set as" "bs ! i \<in> set bs" using assms(8) ib by auto
  have "sha256 env (entry_input env (ae_prevHash (as ! i)) (as ! i)) = sha256 env (entry_input env (ae_prevHash (bs ! i)) (bs ! i))"
    using chained_nth(2) [OF assms(2,8)] chained_nth(2) [OF assms(3) ib] assms(9) by simp
  then have "entry_input env (ae_prevHash (as ! i)) (as ! i) = entry_input env (ae_prevHash (bs ! i)) (bs ! i)"
    by (rule inj_onD [OF assms(5)]) (use mem in \<open>simp_all add: hashed_inputs_def\<close>)
  then have same: "or_else (ae_prevHash (as ! i)) ''GENESIS'' = or_else (ae_prevHash (bs ! i)) ''GENESIS'' \<and> same_content env (as ! i) (bs ! i)"
    by (rule entry_input_eq) (use assms(6,7) mem in \<open>simp_all add: list_all_iff prev_plain [OF assms(1,2,8)] prev_plain [OF assms(1,3) ib]\<close>)
  have "ae_prevHash (as ! i) = ae_prevHash (bs ! i)"
  proof (cases "i = 0")
    case True
    then show ?thesis using chained_nth(1) [OF assms(2,8)] chained_nth(1) [OF assms(3) ib] by simp
  next
    case False
    then obtain x y where "ae_prevHash (as ! i) = Some x" "ae_prevHash (bs ! i) = Some y"
      using chained_nth(1) [OF assms(2,8)] chained_nth(1) [OF assms(3) ib]
        chained_nth(2) [OF assms(2), of "i - 1"] chained_nth(2) [OF assms(3), of "i - 1"] assms(8) ib by simp
    with same show ?thesis by (simp add: or_else_def)
  qed
  with same show ?thesis by blast
qed

lemma chain_anchor:
  assumes "hash_ok env" "chained env None 1 as" "chained env None 1 bs" "length as = length bs"
    and "inj_on (sha256 env) (hashed_inputs env as \<union> hashed_inputs env bs)"
    and "list_all plain_fields as" "list_all plain_fields bs"
    and "tail_hash None as = tail_hash None bs" "i < length as"
  shows "ae_rowHash (as ! i) = ae_rowHash (bs ! i) \<and> same_content env (as ! i) (bs ! i)"
proof -
  note step = chain_anchor_step [OF assms(1-7)]
  have "ae_rowHash (as ! (length as - 1 - k)) = ae_rowHash (bs ! (length as - 1 - k))" if "k < length as" for k
    using that
  proof (induction k)
    case 0
    then show ?case using assms(4,8) by (auto simp: tail_hash_def last_conv_nth split: if_splits)
  next
    case (Suc k)
    let ?j = "length as - 1 - k"
    have j: "?j < length as" "?j < length bs" "?j \<noteq> 0" "?j - 1 = length as - 1 - Suc k" using Suc.prems assms(4) by auto
    then have "ae_prevHash (as ! ?j) = ae_prevHash (bs ! ?j)" using step Suc by simp
    then show ?case using chained_nth(1) [OF assms(2) j(1)] chained_nth(1) [OF assms(3) j(2)] j(3,4) by simp
  qed
  from this [of "length as - 1 - i"] assms(9) have "ae_rowHash (as ! i) = ae_rowHash (bs ! i)" by simp
  with step [OF assms(9)] show ?thesis by simp
qed

section \<open>Purging\<close>

lemma drop_expired_simps [simp]:
  "filter P (drop_expired P n xs) = drop n (filter P xs)"
  "filter (\<lambda>x. \<not> P x) (drop_expired P n xs) = filter (\<lambda>x. \<not> P x) xs"
  "length (drop_expired P n xs) = length xs - min n (length (filter P xs))"
proof (induction P n xs rule: drop_expired.induct)
  case (2 P n x xs)
  {
    case 1
    then show ?case using 2 by (cases n) auto
  next
    case 2
    then show ?case using "2.IH" by (cases n) auto
  next
    case 3
    have "min k (length (filter P xs)) \<le> length xs" for k by (simp add: min.coboundedI2)
    then show ?case using "2.IH" by (cases n) (auto simp: Suc_diff_le)
  }
qed auto

lemma purge_rounds_complete:
  assumes "0 < b" "length (filter P xs) < n * b"
  shows "purge_rounds n P b xs = (int (length (filter P xs)), filter (\<lambda>x. \<not> P x) xs)"
  using assms(2)
proof (induction n arbitrary: xs)
  case (Suc n)
  let ?m = "length (filter P xs)"
  have "min b ?m \<le> length xs" by (simp add: min.coboundedI2)
  then have del: "length xs - length (drop_expired P b xs) = min b ?m" by simp
  show ?case
  proof (cases "?m < b")
    case True
    then have "filter P (drop_expired P b xs) = []" by simp
    then have "drop_expired P b xs = filter (\<lambda>x. \<not> P x) xs"
      by (metis drop_expired_simps(2) filter_empty_conv filter_True)
    with True del show ?thesis by (auto simp: Let_def filter_empty_conv min_def intro!: filter_True [symmetric])
  next
    case False
    then have "length (filter P (drop_expired P b xs)) < n * b" using Suc.prems by simp
    from Suc.IH [OF this] show ?thesis using False del assms(1) by (auto simp: Let_def min_def)
  qed
qed simp

lemma ceil_div_bound:
  assumes "0 < b"
  shows "m < (ceil_div m b + 1) * b"
proof -
  have "(m + b - 1) div b * b + (m + b - 1) mod b = m + b - 1" by (rule div_mult_mod_eq)
  moreover have "(m + b - 1) mod b < b" using assms by (rule mod_less_divisor)
  ultimately have "m < (m + b - 1) div b * b + b" using assms by linarith
  then show ?thesis by (simp add: ceil_div_def algebra_simps)
qed

text \<open>A purge that is not a dry run deletes exactly the expired entries and keeps the others in order.\<close>

lemma purgeExpired_effect:
  fixes now :: int and env :: "'d js_env"
  assumes "0 < days" "0 < or_else batch 5000" "dry \<noteq> Some True" "truthy tenantId \<or> super"
    and "list_all (\<lambda>e. getTime env (ae_timestamp e) \<noteq> None) (logs (repository svc))"
  defines "P \<equiv> expired env (now - days * 24 * 60 * 60 * 1000) tenantId"
  shows "purgeExpired env now days batch tenantId dry super svc =
    (Inr \<lparr>pr_expiredCount = int (length (filter P (logs (repository svc)))),
       pr_deletedCount = int (length (filter P (logs (repository svc)))), pr_dryRun = False, pr_ttlDays = days,
       pr_tenantId = tenantId\<rparr>,
     svc\<lparr>repository := (repository svc)\<lparr>logs := filter (\<lambda>e. \<not> P e) (logs (repository svc))\<rparr>\<rparr>)"
proof -
  have dry: "or_else dry False = False" using assms(3) by (auto simp: or_else_def split: option.splits)
  have b: "0 < nat (or_else batch 5000)" using assms(2) by simp
  let ?Q = "not_kept env (now - days * 24 * 60 * 60 * 1000) tenantId" and ?logs = "logs (repository svc)"
  have "?Q e = P e" if "e \<in> set ?logs" for e
    using assms(5) that by (auto simp: list_all_iff not_kept_def expired_def P_def)
  then have eq: "filter ?Q ?logs = filter P ?logs" "filter (\<lambda>e. \<not> ?Q e) ?logs = filter (\<lambda>e. \<not> P e) ?logs"
    by (auto intro: filter_cong)
  have rounds: "purge_rounds (ceil_div (length (filter P ?logs)) (nat (or_else batch 5000)) + 1) ?Q (nat (or_else batch 5000)) ?logs =
      (int (length (filter P ?logs)), filter (\<lambda>e. \<not> P e) ?logs)"
    using purge_rounds_complete [OF b, of ?Q ?logs "ceil_div (length (filter P ?logs)) (nat (or_else batch 5000)) + 1"]
      ceil_div_bound [OF b, of "length (filter P ?logs)"] by (simp only: eq)
  show ?thesis
  proof (cases "filter P (logs (repository svc)) = []")
    case True
    then have "filter (\<lambda>e. \<not> P e) (logs (repository svc)) = logs (repository svc)" by (auto simp: filter_empty_conv intro: filter_True)
    with True show ?thesis
      using assms(1,2,4) by (simp add: purgeExpired_def repo_purgeExpired_def dry Let_def P_def)
  next
    case False
    with rounds show ?thesis
      using assms(1,2,4) by (simp add: purgeExpired_def repo_purgeExpired_def dry Let_def P_def)
  qed
qed

section \<open>Sequences of calls\<close>

datatype 'd audit_call =
    ALog string string "'d AuditLogInput"
  | ABatch "(string \<times> string \<times> 'd AuditLogInput) list"
  | ARepair string ChainRepairAuthorization string string
  | AClear
  | AVerify "string option" string
  | AClearStatus "string option"

fun audit_step :: "'d js_env \<Rightarrow> (ChainRepairAuthorization \<Rightarrow> 'd) \<Rightarrow> 'd AuditLogService \<Rightarrow> 'd audit_call \<Rightarrow> 'd AuditLogService" where
  "audit_step env rd svc (ALog uuid now input) = snd (log_input env input uuid now svc)"
| "audit_step env rd svc (ABatch inputs) = snd (logBatch env inputs svc)"
| "audit_step env rd svc (ARepair tenantId auth uuid now) = snd (requestChainRepair env rd tenantId auth uuid now svc)"
| "audit_step env rd svc AClear = clearLogs svc"
| "audit_step env rd svc (AVerify tenantCtx now) = snd (verifyChain env tenantCtx now svc)"
| "audit_step env rd svc (AClearStatus tenantCtx) = snd (clearStatus tenantCtx svc)"

definition no_audit :: "'d AuditLogService" where
  "no_audit = \<lparr>repository = \<lparr>logs = [], seqCounter = 0\<rparr>, states = []\<rparr>"

lemma log_input_ok: "hash_ok env \<Longrightarrow> repo_ok env (repository svc) \<Longrightarrow> repo_ok env (repository (snd (log_input env input uuid now svc)))"
  using append_ok [of env "repository svc" uuid now input] by (auto simp: log_input_def split: prod.splits)

lemma requestChainRepair_logs:
  "\<exists>input. snd (requestChainRepair env rd tenantId auth uuid now svc) \<in> {svc, snd (log_input env input uuid now svc)}"
proof -
  have "snd (case x of (Inl e, svc1) \<Rightarrow> (Inl e, svc1) | (Inr m, svc1) \<Rightarrow> (Inr (m, auth), svc1)) = snd x"
    for x :: "(audit_error + 'a AuditLogEntry) \<times> 'a AuditLogService"
    by (cases x; cases "fst x") auto
  then show ?thesis unfolding requestChainRepair_def Let_def by (simp; blast)
qed

lemma audit_step_ok:
  assumes "hash_ok env" "repo_ok env (repository svc)"
  shows "repo_ok env (repository (audit_step env rd svc c))"
proof (cases c)
  case (ABatch inputs)
  then show ?thesis
    using appendBatch_ok [OF assms, of inputs] by (auto simp: logBatch_def split: prod.splits)
next
  case (ARepair tenantId auth uuid now)
  then show ?thesis
    using assms log_input_ok [OF assms] requestChainRepair_logs [of env rd tenantId auth uuid now svc] by auto
next
  case (AVerify tenantCtx now)
  then show ?thesis using assms(2) by (auto simp: verifyChain_def saveStatus_def Let_def split: prod.splits sum.splits)
qed (use assms in \<open>auto simp: log_input_ok clearLogs_def clear_ok clearStatus_def\<close>)

lemma audit_run_ok:
  "hash_ok env \<Longrightarrow> repo_ok env (repository svc) \<Longrightarrow> repo_ok env (repository (foldl (audit_step env rd) svc cs))"
  by (induction cs arbitrary: svc) (simp_all add: audit_step_ok)

lemma no_audit_ok: "repo_ok env (repository no_audit)"
  by (simp add: no_audit_def repo_ok_def)

lemma isSafeInteger_nat: "n < 2 ^ 53 \<Longrightarrow> isSafeInteger (int n)"
  by (simp add: isSafeInteger_def MAX_SAFE_INTEGER_def)

lemma verifyChain_saves:
  assumes "repo_ok env (repository svc)" "truthy tenantCtx" "normalizeDate env now = Some d"
    and "length (logs (repository svc)) < 2 ^ 53"
  shows "verifyChain env tenantCtx now svc =
    (Inr (chain_result env now (repository svc)),
     svc\<lparr>states := map_set (the tenantCtx)
       \<lparr>vs_lastVerifiedHeight = int (length (logs (repository svc))), vs_verifiedAt = Some d, vs_status = ChainValid,
        vs_firstBreakSeq = None, vs_violationCount = 0, vs_rowsChecked = length (logs (repository svc))\<rparr> (states svc)\<rparr>)"
proof -
  note ok = repo_ok_valid [OF assms(1), of now]
  have more: "cr_violationCount (chain_result env now (repository svc)) = 0" "cr_checkedAt (chain_result env now (repository svc)) = now"
    using ok(1) by (simp_all add: chain_result_def Let_def)
  note safe = isSafeInteger_nat [OF assms(4)] isSafeInteger_nat [of 0]
  show ?thesis
    using assms(2,3) safe by (simp add: verifyChain_def saveStatus_def validateState_def toChainVerificationState_def ok more)
qed

section \<open>Claims\<close>



text \<open>
  Claim C36.  Retention and the chain do not go together: a purge deletes exactly the expired entries and
  keeps the others in order, as long as every timestamp parses, and as soon as it deletes the oldest entry of a correct log and keeps some
  later one, the remaining log no longer verifies.
\<close>

theorem audit_purge_breaks_chain:
  fixes now :: int
  assumes "hash_ok env" "0 < days" "0 < or_else batch 5000" "dry \<noteq> Some True" "truthy tenantId \<or> super"
    and "list_all (\<lambda>x. getTime env (ae_timestamp x) \<noteq> None) (e # rest)"
    and "logs (repository (foldl (audit_step env repairDetails) no_audit calls)) = e # rest"
    and "expired env (now - days * 24 * 60 * 60 * 1000) tenantId e" "f \<in> set rest"
    and "\<not> expired env (now - days * 24 * 60 * 60 * 1000) tenantId f"
  shows "let svc = snd (purgeExpired env now days batch tenantId dry super (foldl (audit_step env repairDetails) no_audit calls)) in
    logs (repository svc) = filter (\<lambda>x. \<not> expired env (now - days * 24 * 60 * 60 * 1000) tenantId x) rest \<and>
    \<not> cr_valid (chain_result env t (repository svc))"
proof -
  let ?svc = "foldl (audit_step env repairDetails) no_audit calls"
  let ?kept = "filter (\<lambda>x. \<not> expired env (now - days * 24 * 60 * 60 * 1000) tenantId x) rest"
  let ?purged = "repository (snd (purgeExpired env now days batch tenantId dry super ?svc))"
  have kept: "logs ?purged = ?kept" using assms(6-8) by (simp add: purgeExpired_effect [OF assms(2-5)])
  have ok: "repo_ok env (repository ?svc)" by (rule audit_run_ok [OF assms(1) no_audit_ok])
  have seq: "\<exists>n > 1. ae_seq x = Some n" if x: "x \<in> set rest" for x
  proof -
    obtain i where "i < length rest" "rest ! i = x" using x by (auto simp: in_set_conv_nth)
    then show ?thesis using ok assms(7) by (auto simp: repo_ok_def dest!: spec [of _ "Suc i"])
  qed
  have "\<not> chained env None 1 (ordered_logs env ?purged)"
  proof (cases "ordered_logs env ?purged")
    case Nil
    then have "length (ordered_logs env ?purged) = 0" by simp
    then have "?kept = []" by (simp add: ordered_logs_def getAll_def kept)
    with assms(9,10) show ?thesis by (simp add: filter_empty_conv)
  next
    case (Cons x xs)
    then have "x \<in> set (ordered_logs env ?purged)" by simp
    then have "x \<in> set rest" by (simp add: ordered_logs_def getAll_def kept)
    then show ?thesis using seq [of x] Cons by (auto simp: or_else_def)
  qed
  then show ?thesis by (simp add: Let_def kept chain_valid_iff)
qed

section \<open>Witnesses\<close>

definition sample_env :: "string js_env" where
  "sample_env = \<lparr>sha256 = (\<lambda>s. CHR ''x'' # filter (\<lambda>c. c \<noteq> CHR ''|'') s), stringify = (\<lambda>d. d), emptyObject = ''{}'',
     detailEmail = (\<lambda>d. None), getTime = (\<lambda>s. Some (int (length s))), normalizeDate = Some, localeCompare = (\<lambda>a b. 0)\<rparr>"

definition sample_input :: "string \<Rightarrow> string option \<Rightarrow> string AuditLogInput" where
  "sample_input action requestId =
     \<lparr>ai_tenantId = ''t'', ai_actorId = Some ''a'', ai_actor_id = None, ai_adminId = None, ai_actorEmail = None,
      ai_actor_email = None, ai_adminEmail = None, ai_action = action, ai_resourceType = ''r'', ai_resourceId = ''s'',
      ai_details = None, ai_status = None, ai_ipAddress = None, ai_errorMessage = None, ai_requestId = requestId, ai_occurredAt = None\<rparr>"

definition sample_calls :: "string audit_call list" where
  "sample_calls = [ALog ''1'' ''d'' (sample_input ''u'' None), ALog ''2'' ''longer date'' (sample_input ''v'' (Some ''q''))]"

definition sample_log :: "string AuditLogService" where
  "sample_log = foldl (audit_step sample_env (\<lambda>a. ''r'')) no_audit sample_calls"

lemma sample_env_ok: "hash_ok sample_env"
  by (simp add: hash_ok_def sample_env_def)

lemma sample_log_length: "length (logs (repository sample_log)) = 2"
  by code_simp


text \<open>The same log with another address in every entry, which is not hashed.\<close>

definition readdressed :: "string InMemoryAuditLogsRepository" where
  "readdressed = (repository sample_log)\<lparr>logs := map (\<lambda>e. e\<lparr>ae_ipAddress := Some ''10.0.0.1''\<rparr>) (logs (repository sample_log))\<rparr>"

lemma sample_log_hashes:
  "distinct (map (\<lambda>e. sha256 sample_env (entry_input sample_env (ae_prevHash e) e)) (logs (repository sample_log)))"
  by code_simp

lemma sample_log_inj: "inj_on (sha256 sample_env) (hashed_inputs sample_env (logs (repository sample_log)))"
  using sample_log_hashes distinct_map [of "sha256 sample_env" "map (\<lambda>e. entry_input sample_env (ae_prevHash e) e) (logs (repository sample_log))"]
  by (simp add: hashed_inputs_def distinct_map comp_def inj_on_def)

lemma readdressed_hashed: "hashed_inputs sample_env (logs readdressed) = hashed_inputs sample_env (logs (repository sample_log))"
  by (auto simp: readdressed_def hashed_inputs_def entry_input_def image_image)

lemma sample_log_valid: "cr_valid (chain_result sample_env ''now'' (repository sample_log))"
  by code_simp

lemma readdressed_valid: "cr_valid (chain_result sample_env ''now'' readdressed)"
  by code_simp

lemma sample_log_tail:
  "tail_hash None (ordered_logs sample_env (repository sample_log)) = tail_hash None (ordered_logs sample_env readdressed)"
  by code_simp

lemma sample_log_plain: "list_all plain_fields (logs (repository sample_log))" "list_all plain_fields (logs readdressed)"
  by code_simp+


theorem audit_purge_breaks_chain_witness:
  "let svc = snd (purgeExpired sample_env 86400005 1 None (Some ''t'') None False sample_log) in
    logs (repository svc) = [logs (repository sample_log) ! 1] \<and> \<not> cr_valid (chain_result sample_env ''now'' (repository svc))"
proof -
  obtain e f where log: "logs (repository sample_log) = [e, f]"
    using sample_log_length by (auto simp: length_Suc_conv numeral_2_eq_2)
  have "map (expired sample_env 5 (Some ''t'')) (logs (repository sample_log)) = [True, False]" by code_simp
  then have ex: "expired sample_env 5 (Some ''t'') e" "\<not> expired sample_env 5 (Some ''t'') f" by (simp_all add: log)
  have times: "getTime sample_env s \<noteq> None" for s by (simp add: sample_env_def)
  show ?thesis
    using audit_purge_breaks_chain [OF sample_env_ok, of 1 None None "Some ''t''" False e "[f]" "\<lambda>a. ''r''" sample_calls 86400005 f "''now''"]
      ex log times by (simp add: or_else_def truthy_def flip: sample_log_def)
qed

end
