(* ===== verification/AuditVerifier.thy ===== *)
theory AuditVerifier
  imports AuditLog
begin

text \<open>
  The scheduled verifier of the audit table (\<open>src/src/jobs/auditChainVerifier.ts\<close>): it reads the table in
  batches ordered by sequence number, checks gaps, links and hashes, and stops at a maximal number of
  violations.  The table does not change during a run.
\<close>

section \<open>The model\<close>

datatype occurred_at = AtText string | AtDate int

record 'd AuditChainRow =
  rw_id :: string
  rw_seq :: int
  rw_occurred_at :: occurred_at
  rw_actor_id :: string
  rw_action :: string
  rw_resource_type :: string
  rw_resource_id :: string
  rw_details_json :: "'d option"
  rw_status :: string
  rw_tenant_id :: string
  rw_prev_hash :: "string option"
  rw_row_hash :: "string option"

record AuditChainVerifier =
  batchSize :: nat
  maxViolations :: nat

definition newAuditChainVerifier :: "nat option \<Rightarrow> nat option \<Rightarrow> AuditChainVerifier" where
  "newAuditChainVerifier batchOpt maxOpt = \<lparr>batchSize = or_else batchOpt 1000, maxViolations = or_else maxOpt 100\<rparr>"

record run_state =
  violations :: "ChainViolation list"
  rowsChecked :: nat
  prevRowHash :: "string option"
  prevSeq :: "int option"
  lastSeq :: int

definition run_start :: run_state where
  "run_start = \<lparr>violations = [], rowsChecked = 0, prevRowHash = None, prevSeq = None, lastSeq = 0\<rparr>"

definition fetchBatch :: "'d AuditChainRow list \<Rightarrow> nat \<Rightarrow> int \<Rightarrow> 'd AuditChainRow list" where
  "fetchBatch table limit afterSeq = take limit (sort_key rw_seq (filter (\<lambda>r. afterSeq < rw_seq r) table))"

fun occurred_text :: "(int \<Rightarrow> string) \<Rightarrow> occurred_at \<Rightarrow> string" where
  "occurred_text toISOString (AtText s) = s"
| "occurred_text toISOString (AtDate t) = toISOString t"

definition row_expected :: "'d js_env \<Rightarrow> (int \<Rightarrow> string) \<Rightarrow> 'd AuditChainRow \<Rightarrow> string" where
  "row_expected env toISOString row =
     (let occurredAt = occurred_text toISOString (rw_occurred_at row);
          detailsStr = (case rw_details_json row of Some d \<Rightarrow> stringify env d | None \<Rightarrow> ''{}'')
      in computeRowHash env (rw_prev_hash row) (rw_id row) occurredAt (rw_actor_id row) (rw_action row)
           (rw_resource_type row) (rw_resource_id row) detailsStr (rw_status row) (rw_tenant_id row) '''')"

definition push_violation :: "'d AuditChainRow \<Rightarrow> string \<Rightarrow> violation_type \<Rightarrow> run_state \<Rightarrow> run_state" where
  "push_violation row expectedRowHash ty st =
     st\<lparr>violations := violations st @
       [\<lparr>cv_seq = rw_seq row, cv_id = rw_id row, cv_expectedPrevHash = prevRowHash st, cv_actualPrevHash = rw_prev_hash row,
         cv_expectedRowHash = expectedRowHash, cv_actualRowHash = rw_row_hash row, cv_type = ty\<rparr>]\<rparr>"

text \<open>The body of the loop over the rows of a batch; the flag is set by every \<open>break\<close> of the source.\<close>

definition check_row :: "'d js_env \<Rightarrow> (int \<Rightarrow> string) \<Rightarrow> nat \<Rightarrow> 'd AuditChainRow \<Rightarrow> run_state \<Rightarrow> run_state \<times> bool" where
  "check_row env toISOString mx row st =
     (let st0 = st\<lparr>rowsChecked := rowsChecked st + 1\<rparr>;
          gap = (case prevSeq st0 of None \<Rightarrow> False | Some p \<Rightarrow> rw_seq row \<noteq> p + 1);
          st1 = (if gap then push_violation row '''' DeletedRow st0 else st0)
      in if gap \<and> mx \<le> length (violations st1) then (st1, True)
         else
           let prevMismatch = (rw_prev_hash row \<noteq> prevRowHash st1 \<and>
                 (prevRowHash st1 = None \<and> rw_prev_hash row \<noteq> None \<or>
                  prevRowHash st1 \<noteq> None \<and> rw_prev_hash row \<noteq> prevRowHash st1));
               st2 = (if prevMismatch then push_violation row '''' PrevHashMismatch st1 else st1)
           in if prevMismatch \<and> mx \<le> length (violations st2) then (st2, True)
              else
                let expectedHash = row_expected env toISOString row;
                    wrong = (rw_row_hash row \<noteq> Some expectedHash);
                    st3 = (if wrong then push_violation row expectedHash RowHashMismatch st2 else st2)
                in if wrong \<and> mx \<le> length (violations st3) then (st3, True)
                   else (st3\<lparr>prevRowHash := rw_row_hash row, prevSeq := Some (rw_seq row), lastSeq := rw_seq row\<rparr>, False))"

fun scan_rows :: "'d js_env \<Rightarrow> (int \<Rightarrow> string) \<Rightarrow> nat \<Rightarrow> 'd AuditChainRow list \<Rightarrow> run_state \<Rightarrow> run_state" where
  "scan_rows env toISOString mx [] st = st"
| "scan_rows env toISOString mx (row # rest) st =
     (case check_row env toISOString mx row st of
        (st1, True) \<Rightarrow> st1
      | (st1, False) \<Rightarrow> scan_rows env toISOString mx rest st1)"

text \<open>What one row does: the loop breaks exactly when the limit is reached, and otherwise moves on to the row.\<close>

definition gap_before :: "int option \<Rightarrow> 'd AuditChainRow \<Rightarrow> bool" where
  "gap_before prev_seq row \<longleftrightarrow> (case prev_seq of None \<Rightarrow> False | Some p \<Rightarrow> rw_seq row \<noteq> p + 1)"

lemma prev_mismatch: "(a \<noteq> b \<and> (b = None \<and> a \<noteq> None \<or> b \<noteq> None \<and> a \<noteq> b)) = (a \<noteq> b)"
  by auto

lemma push_violation_simps [simp]:
  "length (violations (push_violation row h ty st)) = Suc (length (violations st))"
  "violations (push_violation row h ty st) \<noteq> []"
  "rowsChecked (push_violation row h ty st) = rowsChecked st"
  "prevRowHash (push_violation row h ty st) = prevRowHash st"
  by (simp_all add: push_violation_def)

lemmas check_row_cases = check_row_def [unfolded prev_mismatch Let_def, folded gap_before_def]

lemma check_row_break:
  "length (violations st) < mx \<Longrightarrow> snd (check_row env f mx row st) \<longleftrightarrow> mx \<le> length (violations (fst (check_row env f mx row st)))"
  by (cases "gap_before (prevSeq st) row"; cases "rw_prev_hash row = prevRowHash st"; cases "rw_row_hash row = Some (row_expected env f row)")
    (simp_all add: check_row_cases)

lemma check_row_moves:
  assumes "\<not> snd (check_row env f mx row st)"
  shows "lastSeq (fst (check_row env f mx row st)) = rw_seq row" "prevSeq (fst (check_row env f mx row st)) = Some (rw_seq row)"
    "prevRowHash (fst (check_row env f mx row st)) = rw_row_hash row"
  using assms by (simp_all add: check_row_cases split: if_splits)

lemma check_row_counts:
  "rowsChecked (fst (check_row env f mx row st)) = rowsChecked st + 1"
  "length (violations st) < mx \<Longrightarrow> length (violations (fst (check_row env f mx row st))) \<le> mx"
  by (cases "gap_before (prevSeq st) row"; cases "rw_prev_hash row = prevRowHash st"; cases "rw_row_hash row = Some (row_expected env f row)";
      simp add: check_row_cases)+

definition row_links :: "'d js_env \<Rightarrow> (int \<Rightarrow> string) \<Rightarrow> int option \<Rightarrow> string option \<Rightarrow> 'd AuditChainRow \<Rightarrow> bool" where
  "row_links env toISOString prev_seq prev_hash row \<longleftrightarrow>
     \<not> gap_before prev_seq row \<and> rw_prev_hash row = prev_hash \<and>
     rw_row_hash row = Some (row_expected env toISOString row)"

lemma check_row_clean:
  "violations (fst (check_row env f mx row st)) = [] \<longleftrightarrow>
   violations st = [] \<and> row_links env f (prevSeq st) (prevRowHash st) row"
  by (cases "gap_before (prevSeq st) row"; cases "rw_prev_hash row = prevRowHash st"; cases "rw_row_hash row = Some (row_expected env f row)")
    (simp_all add: check_row_cases row_links_def)

lemma scan_Cons:
  assumes "length (violations st) < mx"
  shows "scan_rows env f mx (row # rest) st =
    (if mx \<le> length (violations (fst (check_row env f mx row st))) then fst (check_row env f mx row st)
     else scan_rows env f mx rest (fst (check_row env f mx row st)))"
  using check_row_break [OF assms, of env f row] by (auto split: prod.splits bool.splits)

declare scan_rows.simps(2) [simp del]

lemma scan_append:
  assumes "length (violations st) < mx"
  shows "scan_rows env f mx (xs @ ys) st =
    (if mx \<le> length (violations (scan_rows env f mx xs st)) then scan_rows env f mx xs st
     else scan_rows env f mx ys (scan_rows env f mx xs st))"
  using assms by (induction xs arbitrary: st) (auto simp: scan_Cons)

lemma scan_lastSeq:
  assumes "length (violations st) < mx" "length (violations (scan_rows env f mx rows st)) < mx" "rows \<noteq> []"
  shows "lastSeq (scan_rows env f mx rows st) = rw_seq (last rows)"
  using assms
proof (induction rows arbitrary: st)
  case (Cons row rest)
  then show ?case
    using check_row_break [OF Cons.prems(1), of env f row] check_row_moves(1) [of env f mx row st]
    by (cases "rest = []") (auto simp: scan_Cons split: if_splits)
qed simp

section \<open>The batches\<close>

lemma length_filter_shrinks:
  assumes "\<And>y. Q y \<Longrightarrow> P y" "x \<in> set xs" "P x" "\<not> Q x"
  shows "length (filter Q xs) < length (filter P xs)"
proof -
  have "filter Q (filter P xs) = filter Q xs" by (auto simp: assms(1) intro: filter_cong)
  moreover have "length (filter Q (filter P xs)) < length (filter P xs)"
    by (rule length_filter_less [of x]) (use assms in auto)
  ultimately show ?thesis by simp
qed

lemma fetchBatch_mem: "r \<in> set (fetchBatch table limit after) \<Longrightarrow> r \<in> set table \<and> after < rw_seq r"
  by (auto simp: fetchBatch_def dest: in_set_takeD)

text \<open>
  The loop over the batches: it goes on while the last batch was full and the limit of violations is not
  reached.  It ends because the sequence number it continues from grows to that of a row of the table.
\<close>

function verify_batches ::
  "'d js_env \<Rightarrow> (int \<Rightarrow> string) \<Rightarrow> AuditChainVerifier \<Rightarrow> 'd AuditChainRow list \<Rightarrow> run_state \<Rightarrow> run_state" where
  "verify_batches env toISOString vf table st =
     (if maxViolations vf \<le> length (violations st) then st
      else
        let rows = fetchBatch table (batchSize vf) (lastSeq st)
        in if rows = [] then st
           else
             let st1 = scan_rows env toISOString (maxViolations vf) rows st
             in if length rows < batchSize vf \<or> maxViolations vf \<le> length (violations st1) then st1
                else verify_batches env toISOString vf table st1)"
  by pat_completeness auto

termination
proof (relation "measure (\<lambda>(env, f, vf, table, st). length (filter (\<lambda>r. lastSeq st < rw_seq r) table))", goal_cases)
  case (2 env f vf table st rows st1)
  have "last rows \<in> set table" "lastSeq st < rw_seq (last rows)" "lastSeq st1 = rw_seq (last rows)"
    using 2 fetchBatch_mem [of "last rows" table "batchSize vf" "lastSeq st"] by (auto simp: scan_lastSeq)
  then show ?case
    using length_filter_shrinks [of "\<lambda>r. lastSeq st1 < rw_seq r" "\<lambda>r. lastSeq st < rw_seq r" "last rows" table] by simp
qed simp

declare verify_batches.simps [simp del]

definition verify ::
  "'d js_env \<Rightarrow> (int \<Rightarrow> string) \<Rightarrow> string \<Rightarrow> AuditChainVerifier \<Rightarrow> 'd AuditChainRow list \<Rightarrow> ChainVerificationResult" where
  "verify env toISOString checkedAt vf table =
     (let st = verify_batches env toISOString vf table run_start;
          vs = violations st
      in \<lparr>cr_valid = (vs = []), cr_rowsChecked = rowsChecked st, cr_lastCheckedSeq = Some (lastSeq st),
          cr_firstViolationSeq = (case vs of [] \<Rightarrow> None | v # _ \<Rightarrow> Some (cv_seq v)),
          cr_firstViolationId = (case vs of [] \<Rightarrow> None | v # _ \<Rightarrow> Some (cv_id v)),
          cr_violationCount = length vs, cr_violations = vs, cr_checkedAt = checkedAt\<rparr>)"

section \<open>The batches are one pass over the sorted table\<close>

lemma strictly_sorted:
  assumes "distinct (map rw_seq table)"
  shows "sorted_wrt (\<lambda>a b. rw_seq a < rw_seq b) (sort_key rw_seq table)"
proof -
  have "distinct (map rw_seq (sort_key rw_seq table))"
    using assms by (metis distinct_map mset_eq_setD mset_sort distinct_sort)
  then have "sorted_wrt (<) (map rw_seq (sort_key rw_seq table))"
    by (simp add: strict_sorted_iff)
  then show ?thesis by (simp add: sorted_wrt_map)
qed

lemma filter_beyond:
  assumes "sorted_wrt (\<lambda>a b. g a < g b) (xs @ ys)" "xs \<noteq> []"
  shows "filter (\<lambda>r. g (last xs) < (g r :: int)) (xs @ ys) = ys"
proof -
  have "\<forall>r \<in> set xs. g r \<le> g (last xs)"
    using assms by (cases xs rule: rev_cases) (auto simp: sorted_wrt_append intro: less_imp_le)
  then have "filter (\<lambda>r. g (last xs) < g r) xs = []" by (auto simp: filter_empty_conv)
  moreover have "filter (\<lambda>r. g (last xs) < g r) ys = ys"
    using assms by (auto simp: sorted_wrt_append intro!: filter_True)
  ultimately show ?thesis by simp
qed

lemma fetchBatch_sorted: "fetchBatch table limit after = take limit (filter (\<lambda>r. after < rw_seq r) (sort_key rw_seq table))"
  by (simp add: fetchBatch_def filter_sort)

lemma remaining_after:
  assumes "distinct (map rw_seq table)" "fetchBatch table limit after \<noteq> []"
  shows "filter (\<lambda>r. rw_seq (last (fetchBatch table limit after)) < rw_seq r) (sort_key rw_seq table) =
    drop limit (filter (\<lambda>r. after < rw_seq r) (sort_key rw_seq table))"
proof -
  let ?rem = "filter (\<lambda>r. after < rw_seq r) (sort_key rw_seq table)" and ?rows = "fetchBatch table limit after"
  have split: "?rem = ?rows @ drop limit ?rem" by (simp add: fetchBatch_sorted)
  have "sorted_wrt (\<lambda>a b. rw_seq a < rw_seq b) ?rem" by (rule sorted_wrt_filter [OF strictly_sorted [OF assms(1)]])
  then have beyond: "filter (\<lambda>r. rw_seq (last ?rows) < rw_seq r) ?rem = drop limit ?rem"
    using filter_beyond [of rw_seq ?rows "drop limit ?rem"] assms(2) split by simp
  have "after < rw_seq (last ?rows)" using fetchBatch_mem [of "last ?rows" table limit after] assms(2) by simp
  then show ?thesis unfolding beyond [symmetric] filter_filter by (auto intro: filter_cong)
qed

lemma batches_one_pass:
  assumes "0 < batchSize vf" "distinct (map rw_seq table)" "length (violations st) < maxViolations vf"
  shows "verify_batches env f vf table st =
    scan_rows env f (maxViolations vf) (filter (\<lambda>r. lastSeq st < rw_seq r) (sort_key rw_seq table)) st"
  using assms
proof (induction env f vf table st rule: verify_batches.induct)
  case (1 env f vf table st)
  let ?rem = "\<lambda>n. filter (\<lambda>r. n < rw_seq r) (sort_key rw_seq table)"
  let ?rows = "fetchBatch table (batchSize vf) (lastSeq st)"
  let ?st1 = "scan_rows env f (maxViolations vf) ?rows st"
  have rows: "?rows = take (batchSize vf) (?rem (lastSeq st))" by (rule fetchBatch_sorted)
  have split: "?rem (lastSeq st) = ?rows @ drop (batchSize vf) (?rem (lastSeq st))" by (simp add: rows)
  consider (empty) "?rows = []" | (short) "?rows \<noteq> []" "length ?rows < batchSize vf"
    | (stop) "?rows \<noteq> []" "maxViolations vf \<le> length (violations ?st1)"
    | (more) "?rows \<noteq> []" "\<not> length ?rows < batchSize vf" "length (violations ?st1) < maxViolations vf" by linarith
  then show ?case
  proof cases
    case empty
    then have "?rem (lastSeq st) = []" using rows \<open>0 < batchSize vf\<close> by simp
    with empty show ?thesis by (simp add: verify_batches.simps [of env f vf table st])
  next
    case short
    then have "?rem (lastSeq st) = ?rows" using rows by simp
    with short "1.prems"(3) show ?thesis by (simp add: verify_batches.simps [of env f vf table st])
  next
    case stop
    then have "verify_batches env f vf table st = ?st1"
      using "1.prems"(3) by (simp add: verify_batches.simps [of env f vf table st] Let_def)
    also have "\<dots> = scan_rows env f (maxViolations vf) (?rows @ drop (batchSize vf) (?rem (lastSeq st))) st"
      using stop(2) by (simp add: scan_append [OF "1.prems"(3)])
    finally show ?thesis using split by simp
  next
    case more
    have "?rem (lastSeq ?st1) = drop (batchSize vf) (?rem (lastSeq st))"
      using remaining_after [OF "1.prems"(2) more(1)] scan_lastSeq [OF "1.prems"(3) more(3,1)] by simp
    moreover have "verify_batches env f vf table st = verify_batches env f vf table ?st1"
      using "1.prems"(3) more by (simp add: verify_batches.simps [of env f vf table st] Let_def)
    moreover have "verify_batches env f vf table ?st1 = scan_rows env f (maxViolations vf) (?rem (lastSeq ?st1)) ?st1"
      using "1.IH" more "1.prems" by auto
    ultimately show ?thesis
      using more(3) by (subst split) (simp add: scan_append [OF "1.prems"(3)])
  qed
qed

text \<open>A table without violations: consecutive numbers, every row linked to the one before and correctly hashed.\<close>

fun rows_linked :: "'d js_env \<Rightarrow> (int \<Rightarrow> string) \<Rightarrow> int option \<Rightarrow> string option \<Rightarrow> 'd AuditChainRow list \<Rightarrow> bool" where
  "rows_linked env f prev_seq prev_hash [] \<longleftrightarrow> True"
| "rows_linked env f prev_seq prev_hash (row # rest) \<longleftrightarrow>
     row_links env f prev_seq prev_hash row \<and> rows_linked env f (Some (rw_seq row)) (rw_row_hash row) rest"

lemma scan_violations:
  assumes "length (violations st) < mx"
  shows "length (violations (scan_rows env f mx rows st)) \<le> mx"
    and "violations (scan_rows env f mx rows st) = [] \<longleftrightarrow> violations st = [] \<and> rows_linked env f (prevSeq st) (prevRowHash st) rows"
    and "length (violations (scan_rows env f mx rows st)) < mx \<Longrightarrow> rowsChecked (scan_rows env f mx rows st) = rowsChecked st + length rows"
proof -
  have "length (violations (scan_rows env f mx rows st)) \<le> mx \<and>
      (violations (scan_rows env f mx rows st) = [] \<longleftrightarrow> violations st = [] \<and> rows_linked env f (prevSeq st) (prevRowHash st) rows) \<and>
      (length (violations (scan_rows env f mx rows st)) < mx \<longrightarrow> rowsChecked (scan_rows env f mx rows st) = rowsChecked st + length rows)"
    using assms
  proof (induction rows arbitrary: st)
    case (Cons row rest)
    let ?st1 = "fst (check_row env f mx row st)"
    note facts = check_row_counts(1) [of env f mx row st] check_row_counts(2) [OF Cons.prems, of env f row] check_row_clean [of env f mx row st] Cons.prems
      check_row_break [OF Cons.prems, of env f row] check_row_moves [of env f mx row st]
    show ?case
    proof (cases "mx \<le> length (violations ?st1)")
      case True
      then have "violations ?st1 \<noteq> []" using Cons.prems by auto
      with True facts show ?thesis by (auto simp: scan_Cons [OF Cons.prems])
    next
      case False
      then show ?thesis using facts Cons.IH [of ?st1] by (auto simp: scan_Cons [OF Cons.prems])
    qed
  qed simp
  then show "length (violations (scan_rows env f mx rows st)) \<le> mx"
    and "violations (scan_rows env f mx rows st) = [] \<longleftrightarrow> violations st = [] \<and> rows_linked env f (prevSeq st) (prevRowHash st) rows"
    and "length (violations (scan_rows env f mx rows st)) < mx \<Longrightarrow> rowsChecked (scan_rows env f mx rows st) = rowsChecked st + length rows"
    by blast+
qed

section \<open>Rows of a log\<close>

text \<open>The table row of an entry; the verifier does not read the request id column.\<close>

definition row_of :: "'d AuditLogEntry \<Rightarrow> 'd AuditChainRow" where
  "row_of e = \<lparr>rw_id = ae_id e, rw_seq = or_else (ae_seq e) 0, rw_occurred_at = AtText (ae_timestamp e), rw_actor_id = ae_actorId e,
     rw_action = ae_action e, rw_resource_type = ae_resourceType e, rw_resource_id = ae_resourceId e,
     rw_details_json = Some (ae_details e), rw_status = status_text (ae_status e), rw_tenant_id = ae_tenantId e,
     rw_prev_hash = ae_prevHash e, rw_row_hash = ae_rowHash e\<rparr>"

definition without_request :: "'d AuditLogEntry \<Rightarrow> 'd AuditLogEntry" where
  "without_request e = e\<lparr>ae_requestId := None\<rparr>"

definition has_no_request :: "'d AuditLogEntry \<Rightarrow> bool" where
  "has_no_request e \<longleftrightarrow> or_else (ae_requestId e) '''' = ''''"

lemma row_of_expected: "row_expected env f (row_of e) = sha256 env (entry_input env (ae_prevHash e) (without_request e))"
  by (simp add: row_expected_def row_of_def without_request_def computeRowHash_def entry_input_def or_else_def Let_def)

lemma without_request_input:
  "entry_input env prev e = entry_input env prev (without_request e) \<longleftrightarrow> has_no_request e"
  by (simp add: entry_input_def hash_input_def without_request_def has_no_request_def or_else_def)

lemma rows_of_linked:
  assumes "chained env prev n es" "\<forall>i < length es. ae_seq (es ! i) = Some (n + int i)" "prev_seq \<in> {None, Some (n - 1)}"
    and "inj_on (sha256 env) (hashed_inputs env es \<union> (\<lambda>e. entry_input env (ae_prevHash e) (without_request e)) ` set es)"
  shows "rows_linked env f prev_seq prev (map row_of es) \<longleftrightarrow> list_all has_no_request es"
  using assms
proof (induction es arbitrary: prev n prev_seq)
  case (Cons e es)
  have seq: "ae_seq e = Some n" using Cons.prems(2) by auto
  have chain: "chained env (ae_rowHash e) (n + 1) es" using Cons.prems(1) unfolding chained.simps by blast
  have "\<forall>i < length es. ae_seq (es ! i) = Some (n + 1 + int i)" using Cons.prems(2) by (auto dest: spec [of _ "Suc _"])
  moreover have "inj_on (sha256 env) (hashed_inputs env es \<union> (\<lambda>e. entry_input env (ae_prevHash e) (without_request e)) ` set es)"
    by (rule inj_on_subset [OF Cons.prems(4)]) (auto simp: hashed_inputs_def)
  ultimately have rest: "rows_linked env f (Some n) (ae_rowHash e) (map row_of es) \<longleftrightarrow> list_all has_no_request es"
    using Cons.IH [of "ae_rowHash e" "n + 1" "Some n"] chain by simp
  have "ae_rowHash e = Some (sha256 env (entry_input env (ae_prevHash e) e))" "ae_prevHash e = prev"
    using Cons.prems(1) by (simp_all add: expected_hash_input)
  moreover have "sha256 env (entry_input env (ae_prevHash e) e) = sha256 env (entry_input env (ae_prevHash e) (without_request e)) \<longleftrightarrow>
      has_no_request e"
    using inj_on_eq_iff [OF Cons.prems(4), of "entry_input env (ae_prevHash e) e" "entry_input env (ae_prevHash e) (without_request e)"]
    by (simp add: hashed_inputs_def without_request_input)
  moreover have cols: "rw_seq (row_of e) = n" "rw_prev_hash (row_of e) = ae_prevHash e" "rw_row_hash (row_of e) = ae_rowHash e"
    by (simp_all add: row_of_def seq or_else_def)
  ultimately have "row_links env f prev_seq prev (row_of e) \<longleftrightarrow> has_no_request e"
    using Cons.prems(3) by (auto simp: row_links_def row_of_expected gap_before_def)
  then show ?case using rest by (simp add: cols)
qed simp

lemma run_start_simps [simp]:
  "violations run_start = []" "rowsChecked run_start = 0" "prevRowHash run_start = None" "prevSeq run_start = None" "lastSeq run_start = 0"
  by (simp_all add: run_start_def)

lemma verify_one_pass:
  assumes "0 < batchSize vf" "0 < maxViolations vf" "distinct (map rw_seq table)" "list_all (\<lambda>r. 0 < rw_seq r) table"
  shows "verify_batches env f vf table run_start = scan_rows env f (maxViolations vf) (sort_key rw_seq table) run_start"
proof -
  have "filter (\<lambda>r. 0 < rw_seq r) (sort_key rw_seq table) = sort_key rw_seq table"
    using assms(4) by (auto simp: list_all_iff intro!: filter_True)
  then show ?thesis using batches_one_pass [OF assms(1,3), of run_start env f] assms(2) by simp
qed

lemma verify_valid:
  assumes "0 < batchSize vf" "0 < maxViolations vf" "distinct (map rw_seq table)" "list_all (\<lambda>r. 0 < rw_seq r) table"
  shows "cr_valid (verify env f t vf table) \<longleftrightarrow> rows_linked env f None None (sort_key rw_seq table)"
  using scan_violations(2) [of run_start "maxViolations vf" env f "sort_key rw_seq table"] assms(2)
  by (simp add: verify_def Let_def verify_one_pass [OF assms])

lemma row_of_sorted:
  assumes "\<forall>i < length es. ae_seq (es ! i) = Some (1 + int i)"
  shows "sort_key rw_seq (map row_of es) = map row_of es" "distinct (map rw_seq (map row_of es))"
    "list_all (\<lambda>r. 0 < rw_seq r) (map row_of es)"
proof -
  have nth: "rw_seq (row_of (es ! i)) = 1 + int i" if "i < length es" for i
    using assms that by (simp add: row_of_def or_else_def)
  then have "sorted_wrt (<) (map rw_seq (map row_of es))" by (simp add: sorted_wrt_iff_nth_less)
  then show "sort_key rw_seq (map row_of es) = map row_of es" "distinct (map rw_seq (map row_of es))"
    by (simp_all only: strict_sorted_iff sort_key_id_if_sorted)
  show "list_all (\<lambda>r. 0 < rw_seq r) (map row_of es)"
    by (simp add: list_all_length nth)
qed

section \<open>Claims\<close>

text \<open>
  Claim C7.  Reading in batches makes no difference and always ends: for every batch size and every limit of
  violations, the verifier returns what one pass over the whole table in the order of the sequence numbers
  returns.  The verdict is valid exactly when the numbers are consecutive, every row carries the hash of the
  row before it, the first one none, and every row hash is the recomputed one; a valid verdict covers every
  row, and never more violations than the limit are reported.
\<close>

theorem audit_verifier_one_pass:
  assumes "0 < batchSize vf" "0 < maxViolations vf" "distinct (map rw_seq table)" "list_all (\<lambda>r. 0 < rw_seq r) table"
  shows "let rows = sort_key rw_seq table; st = scan_rows env toISOString (maxViolations vf) rows run_start;
             result = verify env toISOString t vf table in
    cr_violations result = violations st \<and> cr_rowsChecked result = rowsChecked st \<and> cr_lastCheckedSeq result = Some (lastSeq st) \<and>
    (cr_valid result \<longleftrightarrow> rows_linked env toISOString None None rows) \<and>
    (cr_valid result \<longrightarrow> cr_rowsChecked result = length table) \<and> cr_violationCount result \<le> maxViolations vf"
proof -
  have "length (violations run_start) < maxViolations vf" using assms(2) by simp
  note scan = scan_violations [OF this, of env toISOString "sort_key rw_seq table"]
  have "cr_valid (verify env toISOString t vf table) \<longrightarrow>
      rowsChecked (scan_rows env toISOString (maxViolations vf) (sort_key rw_seq table) run_start) = length table"
    using scan(3) assms(2) by (auto simp: verify_def verify_one_pass [OF assms] Let_def)
  then show ?thesis
    using scan(1) by (simp add: Let_def verify_valid [OF assms]) (simp add: verify_def verify_one_pass [OF assms] Let_def)
qed

text \<open>
  The scheduled verifier and the service disagree about request ids: on a log written only
  through the service, which the service's own verification always accepts, the scheduled verifier accepts
  the corresponding table exactly when no entry has a request id, because it recomputes the hashes without it
  (as long as the hash does not collide on the texts involved).
\<close>

theorem audit_verifier_request_ids:
  fixes calls :: "'d audit_call list"
  assumes "hash_ok env" "0 < batchSize vf" "0 < maxViolations vf"
    and "es = logs (repository (foldl (audit_step env repairDetails) no_audit calls))"
    and "inj_on (sha256 env) (hashed_inputs env es \<union> (\<lambda>e. entry_input env (ae_prevHash e) (without_request e)) ` set es)"
  shows "cr_valid (chain_result env t (repository (foldl (audit_step env repairDetails) no_audit calls))) \<and>
    (cr_valid (verify env toISOString t vf (map row_of es)) \<longleftrightarrow> list_all has_no_request es)"
proof -
  have ok: "repo_ok env (repository (foldl (audit_step env repairDetails) no_audit calls))"
    by (rule audit_run_ok [OF assms(1) no_audit_ok])
  then have seq: "\<forall>i < length es. ae_seq (es ! i) = Some (1 + int i)" and chain: "chained env None 1 es"
    by (simp_all add: repo_ok_def assms(4) add.commute)
  show ?thesis
    using repo_ok_valid(1) [OF ok] rows_of_linked [OF chain seq _ assms(5), of None toISOString]
    by (simp add: verify_valid [OF assms(2,3) row_of_sorted(2,3) [OF seq]] row_of_sorted(1) [OF seq])
qed

section \<open>Witnesses\<close>

definition sample_verifier :: AuditChainVerifier where
  "sample_verifier = \<lparr>batchSize = 1, maxViolations = 3\<rparr>"

definition sample_table :: "string AuditChainRow list" where
  "sample_table = rev (map row_of (logs (repository sample_log)))"

lemma sample_table_facts: "distinct (map rw_seq sample_table)" "list_all (\<lambda>r. 0 < rw_seq r) sample_table"
  by code_simp+

text \<open>The second row of the sample has a request id: one violation is found, in the second batch.\<close>

lemma sample_scan:
  "length (violations (scan_rows sample_env (\<lambda>t. []) 3 (sort_key rw_seq sample_table) run_start)) = 1"
  "rowsChecked (scan_rows sample_env (\<lambda>t. []) 3 (sort_key rw_seq sample_table) run_start) = 2"
  by code_simp+

theorem audit_verifier_one_pass_witness:
  "length (cr_violations (verify sample_env (\<lambda>t. []) ''now'' sample_verifier sample_table)) = 1 \<and>
   cr_rowsChecked (verify sample_env (\<lambda>t. []) ''now'' sample_verifier sample_table) = 2"
  using audit_verifier_one_pass [of sample_verifier sample_table sample_env "\<lambda>t. []" "''now''"] sample_table_facts sample_scan
  by (simp add: sample_verifier_def Let_def)

lemma sample_texts:
  "distinct (map (sha256 sample_env) (remdups (concat (map (\<lambda>e. [entry_input sample_env (ae_prevHash e) e,
     entry_input sample_env (ae_prevHash e) (without_request e)]) (logs (repository sample_log))))))"
  by code_simp

lemma sample_texts_inj:
  "inj_on (sha256 sample_env) (hashed_inputs sample_env (logs (repository sample_log)) \<union>
     (\<lambda>e. entry_input sample_env (ae_prevHash e) (without_request e)) ` set (logs (repository sample_log)))"
proof -
  have "inj_on (sha256 sample_env) (set (concat (map (\<lambda>e. [entry_input sample_env (ae_prevHash e) e,
     entry_input sample_env (ae_prevHash e) (without_request e)]) (logs (repository sample_log)))))"
    using sample_texts unfolding distinct_map set_remdups by blast
  then show ?thesis by (rule inj_on_subset) (auto simp: hashed_inputs_def)
qed

theorem audit_verifier_request_ids_witness:
  "cr_valid (chain_result sample_env ''now'' (repository sample_log)) \<and>
   \<not> cr_valid (verify sample_env (\<lambda>t. []) ''now'' sample_verifier (map row_of (logs (repository sample_log))))"
proof -
  have "\<not> list_all has_no_request (logs (repository sample_log))" by code_simp
  then show ?thesis
    using audit_verifier_request_ids [OF sample_env_ok, of sample_verifier _ "\<lambda>a. ''r''" sample_calls, folded sample_log_def,
        OF _ _ refl sample_texts_inj, of "''now''" "\<lambda>t. []"]
    by (simp add: sample_verifier_def)
qed

end
