(* ===== verification/Pagination.thy ===== *)
theory Pagination
  imports Prelude
begin

text \<open>
  Pagination of the HTTP API (\<open>src/src/lib/pagination.ts\<close>): signed cursors, the parameters of a request,
  page metadata, navigation links and the Link header.  JSON, base64url and the HMAC of the runtime are
  parameters, and so is \<open>Number\<close> outside short decimal integers.  A URL is its part before the query and the
  list of its query parameters.
\<close>

section \<open>Requests and cursors\<close>

definition DEFAULT_PAGE :: int where "DEFAULT_PAGE = 1"
definition DEFAULT_LIMIT :: int where "DEFAULT_LIMIT = 20"
definition MAX_LIMIT :: int where "MAX_LIMIT = 100"

datatype js_number = NaN | NonInteger | Whole int

datatype js_value = Undefined | Null | Text string | Numeric js_number | Elements "string list"

record DecodedCursor =
  dc_t :: string
  dc_i :: string

record PaginationParams =
  pp_page :: int
  pp_limit :: int
  pp_offset :: int
  pp_cursor :: "string option"
  pp_decodedCursor :: "DecodedCursor option"

datatype pagination_issue =
    ExpectedInteger
  | SignatureMissing
  | CursorTampered
  | InvalidCursorFormat
  | PageTooSmall
  | LimitTooSmall
  | LimitTooLarge int
  | NegativeOffset

type_synonym pagination_errors = "(string \<times> pagination_issue) list"

record cursor_fields =
  cf_t :: "string option"
  cf_i :: "string option"
  cf_h :: "string option"

record js_lib =
  otherNumber :: "js_value \<Rightarrow> js_number"
  payloadJson :: "string \<Rightarrow> string \<Rightarrow> string"
  hmacHex :: "string \<Rightarrow> string"
  toBase64Json :: "string \<Rightarrow> string \<Rightarrow> string \<Rightarrow> string"
  ofBase64Json :: "string \<Rightarrow> cursor_fields option"

definition encodeCursor :: "js_lib \<Rightarrow> string \<Rightarrow> string \<Rightarrow> string" where
  "encodeCursor lib t i = (let h = hmacHex lib (payloadJson lib t i) in toBase64Json lib t i h)"

definition decodeCursor :: "js_lib \<Rightarrow> string \<Rightarrow> (pagination_errors, DecodedCursor option) result" where
  "decodeCursor lib cursor =
     (case ofBase64Json lib cursor of
        None \<Rightarrow> Inr None
      | Some parsed \<Rightarrow>
          (case (cf_t parsed, cf_i parsed) of
             (Some t, Some i) \<Rightarrow>
               (case cf_h parsed of
                  None \<Rightarrow> Inl [(''cursor'', SignatureMissing)]
                | Some h \<Rightarrow>
                    if h \<noteq> hmacHex lib (payloadJson lib t i) then Inl [(''cursor'', CursorTampered)]
                    else Inr (Some \<lparr>dc_t = t, dc_i = i\<rparr>))
           | _ \<Rightarrow> Inr None))"

text \<open>\<open>Number\<close>: integers of up to fifteen decimal digits are exact.\<close>

definition short_digits :: "string \<Rightarrow> bool" where
  "short_digits s \<longleftrightarrow> s \<noteq> [] \<and> length s \<le> 15 \<and> list_all is_digit s"

fun toNumber :: "js_lib \<Rightarrow> js_value \<Rightarrow> js_number" where
  "toNumber lib (Text s) =
     (case trim s of
        [] \<Rightarrow> Whole 0
      | c # cs \<Rightarrow>
          if short_digits (c # cs) then Whole (int (nat_of_digits (c # cs)))
          else if c = CHR ''-'' \<and> short_digits cs then Whole (- int (nat_of_digits cs))
          else otherNumber lib (Text s))"
| "toNumber lib (Numeric n) = n"
| "toNumber lib v = otherNumber lib v"

definition parsePositiveInteger :: "js_lib \<Rightarrow> js_value \<Rightarrow> string \<Rightarrow> (pagination_errors, int option) result" where
  "parsePositiveInteger lib v path =
     (if v = Undefined \<or> v = Null then Inr None
      else if (case v of Text s \<Rightarrow> trim s = [] | _ \<Rightarrow> False) then Inr None
      else case toNumber lib v of
        Whole n \<Rightarrow> Inr (Some n)
      | _ \<Rightarrow> Inl [(path, ExpectedInteger)])"

record PaginationQuery =
  q_page :: js_value
  q_limit :: js_value
  q_cursor :: js_value
  q_offset :: js_value

record PaginationParseOptions =
  po_defaultPage :: "int option"
  po_defaultLimit :: "int option"
  po_maxLimit :: "int option"

text \<open>\<open>try { x = f() } catch (e) { errors.push(...e.details) }\<close>\<close>

definition collect :: "(pagination_errors, 'a option) result \<Rightarrow> 'a option \<times> pagination_errors" where
  "collect r = (case r of Inl e \<Rightarrow> (None, e) | Inr v \<Rightarrow> (v, []))"

definition raw_cursor :: "js_value \<Rightarrow> string option" where
  "raw_cursor v = (case v of Text c \<Rightarrow> if trim c \<noteq> [] then Some c else None | _ \<Rightarrow> None)"

definition default_to :: "'a option \<Rightarrow> 'a \<Rightarrow> 'a" where
  "default_to x d = (case x of None \<Rightarrow> d | Some v \<Rightarrow> v)"

definition parsePaginationParams ::
  "js_lib \<Rightarrow> PaginationQuery \<Rightarrow> PaginationParseOptions \<Rightarrow> (pagination_errors, PaginationParams) result" where
  "parsePaginationParams lib query options =
     (let defaultPage = default_to (po_defaultPage options) DEFAULT_PAGE;
          defaultLimit = default_to (po_defaultLimit options) DEFAULT_LIMIT;
          maxLimit = default_to (po_maxLimit options) MAX_LIMIT;
          (page, e1) = collect (parsePositiveInteger lib (q_page query) ''page'');
          (limit, e2) = collect (parsePositiveInteger lib (q_limit query) ''limit'');
          rawCursor = raw_cursor (q_cursor query);
          (decodedCursor, e3) = (case rawCursor of None \<Rightarrow> (None, []) | Some c \<Rightarrow> collect (decodeCursor lib c));
          rawOffset = (if q_offset query = Undefined \<and> rawCursor \<noteq> None \<and> decodedCursor = None
                       then Text (the rawCursor) else q_offset query);
          offsetPath = (if q_offset query \<noteq> Undefined then ''offset'' else ''cursor'');
          (offset, e4) = (if rawOffset \<noteq> Undefined
            then case parsePositiveInteger lib rawOffset offsetPath of
                Inl e \<Rightarrow> (None, if decodedCursor = None then e else [])
              | Inr v \<Rightarrow> (v, [])
            else (None, []));
          e5 = (if rawCursor \<noteq> None \<and> decodedCursor = None \<and> offset = None then [(''cursor'', InvalidCursorFormat)] else []);
          e6 = (case page of Some p \<Rightarrow> if p < 1 then [(''page'', PageTooSmall)] else [] | None \<Rightarrow> []);
          e7 = (case limit of Some l \<Rightarrow> if l < 1 then [(''limit'', LimitTooSmall)] else [] | None \<Rightarrow> []);
          e8 = (case limit of Some l \<Rightarrow> if l > maxLimit then [(''limit'', LimitTooLarge maxLimit)] else [] | None \<Rightarrow> []);
          e9 = (case offset of Some off \<Rightarrow> if off < 0 then [(offsetPath, NegativeOffset)] else [] | None \<Rightarrow> []);
          errors = e1 @ e2 @ e3 @ e4 @ e5 @ e6 @ e7 @ e8 @ e9
      in if errors \<noteq> [] then Inl errors
         else
           let resolvedLimit = default_to limit defaultLimit;
               resolvedPage = (case page of Some p \<Rightarrow> p
                 | None \<Rightarrow> (case offset of Some off \<Rightarrow> off div resolvedLimit + 1 | None \<Rightarrow> defaultPage));
               resolvedOffset = default_to offset ((resolvedPage - 1) * resolvedLimit)
           in Inr \<lparr>pp_page = resolvedPage, pp_limit = resolvedLimit, pp_offset = resolvedOffset, pp_cursor = rawCursor,
                pp_decodedCursor = decodedCursor\<rparr>)"

section \<open>Metadata and links\<close>

record PaginationMeta =
  pm_page :: int
  pm_limit :: int
  pm_total :: int
  pm_hasNext :: bool

definition buildPaginationMeta :: "int \<Rightarrow> int \<Rightarrow> int \<Rightarrow> PaginationMeta" where
  "buildPaginationMeta totalCount page limit = \<lparr>pm_page = page, pm_limit = limit, pm_total = totalCount, pm_hasNext = (page * limit < totalCount)\<rparr>"

record CursorPaginationMeta =
  cm_limit :: int
  cm_hasNextPage :: bool
  cm_nextCursor :: "string option"

definition buildCursorPaginationMeta :: "bool \<Rightarrow> int \<Rightarrow> string option \<Rightarrow> CursorPaginationMeta" where
  "buildCursorPaginationMeta hasNextPage limit nextCursor =
     \<lparr>cm_limit = limit, cm_hasNextPage = hasNextPage, cm_nextCursor = nextCursor\<rparr>"

record 'a CursorPaginationEnvelope =
  ev_data :: "'a list"
  ev_nextCursor :: "string option"
  ev_hasMore :: bool
  ev_limit :: int

definition buildCursorEnvelope :: "'a list \<Rightarrow> int \<Rightarrow> bool \<Rightarrow> string option \<Rightarrow> 'a CursorPaginationEnvelope" where
  "buildCursorEnvelope xs limit hasMore nextCursor =
     \<lparr>ev_data = xs, ev_nextCursor = nextCursor, ev_hasMore = hasMore, ev_limit = limit\<rparr>"

record url =
  url_base :: string
  searchParams :: "(string \<times> string) list"

text \<open>\<open>URLSearchParams.set\<close> replaces the first value of a name and drops the others; \<open>get\<close> is the first value.\<close>

fun params_set :: "string \<Rightarrow> string \<Rightarrow> (string \<times> string) list \<Rightarrow> (string \<times> string) list" where
  "params_set k v [] = [(k, v)]"
| "params_set k v ((k', v') # ps) =
     (if k' = k then (k, v) # filter (\<lambda>p. fst p \<noteq> k) ps else (k', v') # params_set k v ps)"

definition params_delete :: "string \<Rightarrow> (string \<times> string) list \<Rightarrow> (string \<times> string) list" where
  "params_delete k ps = filter (\<lambda>p. fst p \<noteq> k) ps"

definition url_set :: "string \<Rightarrow> string \<Rightarrow> url \<Rightarrow> url" where
  "url_set k v u = u\<lparr>searchParams := params_set k v (searchParams u)\<rparr>"

definition url_delete :: "string \<Rightarrow> url \<Rightarrow> url" where
  "url_delete k u = u\<lparr>searchParams := params_delete k (searchParams u)\<rparr>"

record PaginationLinks =
  self :: url
  first_link :: "url option"
  prev_link :: "url option"
  next_link :: "url option"
  last_link :: "url option"

definition ceil_quot :: "int \<Rightarrow> int \<Rightarrow> int" where
  "ceil_quot a b = - ((- a) div b)"

definition buildPaginationLinks :: "url \<Rightarrow> int \<Rightarrow> int \<Rightarrow> int \<Rightarrow> PaginationLinks" where
  "buildPaginationLinks requestUrl page limit totalCount =
     (let u = url_delete ''offset'' (url_set ''limit'' (bigint_to_string limit) (url_set ''page'' (bigint_to_string page) requestUrl));
          totalPages = ceil_quot totalCount limit;
          links = \<lparr>self = u, first_link = None, prev_link = None, next_link = None, last_link = None\<rparr>;
          page_url = (\<lambda>p. url_set ''page'' (bigint_to_string p) u)
      in if totalCount \<le> 0 then links
         else links\<lparr>
           first_link := (if totalPages > 1 then Some (page_url 1) else None),
           prev_link := (if page > 1 then Some (page_url (page - 1)) else None),
           next_link := (if page < totalPages then Some (page_url (page + 1)) else None),
           last_link := (if totalPages > 1 then Some (page_url totalPages) else None)\<rparr>)"

definition buildCursorPaginationLinks :: "url \<Rightarrow> int \<Rightarrow> string option \<Rightarrow> PaginationLinks" where
  "buildCursorPaginationLinks requestUrl limit nextCursor =
     (let u = url_delete ''cursor'' (url_set ''limit'' (bigint_to_string limit) requestUrl)
      in \<lparr>self = u, first_link = None, prev_link = None,
          next_link = (if truthy nextCursor then Some (url_set ''cursor'' (the nextCursor) u) else None), last_link = None\<rparr>)"

definition link_part :: "string \<Rightarrow> int \<Rightarrow> int \<Rightarrow> string \<Rightarrow> string" where
  "link_part baseUrl page limit rel =
     ''<'' @ baseUrl @ ''?page='' @ bigint_to_string page @ ''&limit='' @ bigint_to_string limit @ ''>; rel='' @ [CHR 0x22] @ rel @ [CHR 0x22]"

fun join_comma :: "string list \<Rightarrow> string" where
  "join_comma [] = []"
| "join_comma [s] = s"
| "join_comma (s # ss) = s @ '', '' @ join_comma ss"

definition link_relations :: "int \<Rightarrow> int \<Rightarrow> int \<Rightarrow> (string \<times> int) list" where
  "link_relations page limit totalCount =
     (let totalPages = max 1 (ceil_quot totalCount limit)
      in [(''first'', 1)] @ (if page > 1 then [(''prev'', page - 1)] else []) @
         (if page < totalPages then [(''next'', page + 1)] else []) @ [(''last'', totalPages)])"

definition buildLinkHeader :: "string \<Rightarrow> int \<Rightarrow> int \<Rightarrow> int \<Rightarrow> string option" where
  "buildLinkHeader baseUrl page limit totalCount =
     (if totalCount \<le> 0 then None
      else Some (join_comma (map (\<lambda>(rel, p). link_part baseUrl p limit rel) (link_relations page limit totalCount))))"

section \<open>Links read back as requests\<close>

definition param_values :: "string \<Rightarrow> (string \<times> string) list \<Rightarrow> string list" where
  "param_values k ps = map snd (filter (\<lambda>p. fst p = k) ps)"

text \<open>How the framework presents a query parameter: absent, a string, or an array of strings.\<close>

definition query_value :: "string \<Rightarrow> url \<Rightarrow> js_value" where
  "query_value k u = (case param_values k (searchParams u) of [] \<Rightarrow> Undefined | [v] \<Rightarrow> Text v | vs \<Rightarrow> Elements vs)"

definition query_of :: "url \<Rightarrow> PaginationQuery" where
  "query_of u = \<lparr>q_page = query_value ''page'' u, q_limit = query_value ''limit'' u, q_cursor = query_value ''cursor'' u,
     q_offset = query_value ''offset'' u\<rparr>"

lemma other_name: "k' \<noteq> k \<Longrightarrow> filter (\<lambda>p. fst p \<noteq> k \<and> fst p = k') ps = filter (\<lambda>p. fst p = k') ps"
  by (auto intro: filter_cong)

lemma values_set: "param_values k' (params_set k v ps) = (if k' = k then [v] else param_values k' ps)"
  by (induction k v ps rule: params_set.induct) (auto simp: param_values_def filter_empty_conv other_name)

lemma values_delete: "param_values k' (params_delete k ps) = (if k' = k then [] else param_values k' ps)"
  by (simp add: param_values_def params_delete_def filter_empty_conv other_name)

lemma query_value_set: "query_value k' (url_set k v u) = (if k' = k then Text v else query_value k' u)"
  by (simp add: query_value_def url_set_def values_set)

lemma query_value_delete: "query_value k' (url_delete k u) = (if k' = k then Undefined else query_value k' u)"
  by (simp add: query_value_def url_delete_def values_delete)

lemmas query_value_simps = query_value_set query_value_delete

lemma digits_trim: "list_all is_digit s \<Longrightarrow> s \<noteq> [] \<Longrightarrow> trim s = s"
  by (rule trim_noop) (simp_all add: list_all_iff digit_not_ws)

lemma toNumber_digits: "short_digits s \<Longrightarrow> toNumber lib (Text s) = Whole (int (nat_of_digits s))"
  by (cases s) (simp_all add: digits_trim short_digits_def)

lemma parse_digits:
  "short_digits s \<Longrightarrow> parsePositiveInteger lib (Text s) path = Inr (Some (int (nat_of_digits s)))"
  using toNumber_digits [of s lib] digits_trim [of s] by (simp add: parsePositiveInteger_def short_digits_def del: toNumber.simps)

lemma parse_number_text:
  assumes "0 \<le> n" "n < 10 ^ 15"
  shows "parsePositiveInteger lib (Text (bigint_to_string n)) path = Inr (Some n)"
proof -
  have "nat n < 10 ^ 15" using assms by (simp add: nat_less_iff)
  from length_nat_to_string [OF this] have "short_digits (bigint_to_string n)"
    using assms(1) by (simp add: short_digits_def bigint_to_string_def)
  then show ?thesis using assms(1) parse_digits [of "bigint_to_string n" lib path] by (simp add: bigint_to_string_def)
qed

section \<open>Accepted parameters\<close>

lemma collect_cases:
  "collect r = (v, e) \<longleftrightarrow> (r = Inr v \<and> e = []) \<or> (r = Inl e \<and> v = None)"
  by (cases r) (auto simp: collect_def)

lemma parse_issue: "parsePositiveInteger lib v path = Inl e \<Longrightarrow> e = [(path, ExpectedInteger)]"
  by (auto simp: parsePositiveInteger_def split: if_splits js_number.splits)

lemma decode_issue: "decodeCursor lib c = Inl e \<Longrightarrow> e \<noteq> []"
  by (auto simp: decodeCursor_def split: option.splits if_splits)

text \<open>What has to hold for a request to be accepted, and what is returned then.\<close>

definition offset_source :: "PaginationQuery \<Rightarrow> DecodedCursor option \<Rightarrow> js_value" where
  "offset_source query decoded =
     (case raw_cursor (q_cursor query) of
        Some c \<Rightarrow> if q_offset query = Undefined \<and> decoded = None then Text c else q_offset query
      | None \<Rightarrow> q_offset query)"

definition offset_path :: "PaginationQuery \<Rightarrow> string" where
  "offset_path query = (if q_offset query \<noteq> Undefined then ''offset'' else ''cursor'')"

definition accepted ::
  "js_lib \<Rightarrow> PaginationQuery \<Rightarrow> int \<Rightarrow> int option \<Rightarrow> int option \<Rightarrow> DecodedCursor option \<Rightarrow> int option \<Rightarrow> bool" where
  "accepted lib query maxLimit page limit decoded offset \<longleftrightarrow>
     parsePositiveInteger lib (q_page query) ''page'' = Inr page \<and>
     parsePositiveInteger lib (q_limit query) ''limit'' = Inr limit \<and>
     (case raw_cursor (q_cursor query) of None \<Rightarrow> decoded = None | Some c \<Rightarrow> decodeCursor lib c = Inr decoded) \<and>
     (parsePositiveInteger lib (offset_source query decoded) (offset_path query) = Inr offset \<or>
      (decoded \<noteq> None \<and> offset = None \<and>
       parsePositiveInteger lib (offset_source query decoded) (offset_path query) = Inl [(offset_path query, ExpectedInteger)])) \<and>
     (raw_cursor (q_cursor query) = None \<or> decoded \<noteq> None \<or> offset \<noteq> None) \<and>
     (\<forall>p. page = Some p \<longrightarrow> 1 \<le> p) \<and> (\<forall>l. limit = Some l \<longrightarrow> 1 \<le> l \<and> l \<le> maxLimit) \<and> (\<forall>off. offset = Some off \<longrightarrow> 0 \<le> off)"

definition resolved :: "PaginationParseOptions \<Rightarrow> string option \<Rightarrow> int option \<Rightarrow> int option \<Rightarrow> DecodedCursor option \<Rightarrow> int option \<Rightarrow> PaginationParams" where
  "resolved options rawCursor page limit decoded offset =
     (let resolvedLimit = default_to limit (default_to (po_defaultLimit options) DEFAULT_LIMIT);
          resolvedPage = (case page of Some p \<Rightarrow> p
            | None \<Rightarrow> (case offset of Some off \<Rightarrow> off div resolvedLimit + 1 | None \<Rightarrow> default_to (po_defaultPage options) DEFAULT_PAGE))
      in \<lparr>pp_page = resolvedPage, pp_limit = resolvedLimit, pp_offset = default_to offset ((resolvedPage - 1) * resolvedLimit),
          pp_cursor = rawCursor, pp_decodedCursor = decoded\<rparr>)"

lemma undefined_absent [simp]: "parsePositiveInteger lib Undefined path = Inr None"
  by (simp add: parsePositiveInteger_def)

lemma offset_source_eq:
  "(if q_offset query = Undefined \<and> raw_cursor (q_cursor query) \<noteq> None \<and> decoded = None
    then Text (the (raw_cursor (q_cursor query))) else q_offset query) = offset_source query decoded"
  by (simp add: offset_source_def split: option.splits)

lemma collect_simps [simp]: "collect (Inr v) = (v, [])" "collect (Inl e) = (None, e)"
  by (simp_all add: collect_def)

lemma parse_complete:
  assumes "accepted lib query (default_to (po_maxLimit options) MAX_LIMIT) page limit decoded offset"
  shows "parsePaginationParams lib query options = Inr (resolved options (raw_cursor (q_cursor query)) page limit decoded offset)"
proof -
  have d: "(case raw_cursor (q_cursor query) of None \<Rightarrow> (None, []) | Some c \<Rightarrow> collect (decodeCursor lib c)) = (decoded, [])"
    using assms by (auto simp: accepted_def split: option.splits)
  have off: "(if offset_source query decoded \<noteq> Undefined
      then case parsePositiveInteger lib (offset_source query decoded) (offset_path query) of
          Inl e \<Rightarrow> (None, if decoded = None then e else []) | Inr v \<Rightarrow> (v, [])
      else (None, [])) = (offset, [])"
    using assms by (auto simp: accepted_def)
  have p: "parsePositiveInteger lib (q_page query) ''page'' = Inr page" and l: "parsePositiveInteger lib (q_limit query) ''limit'' = Inr limit"
    using assms by (simp_all add: accepted_def)
  have "(if raw_cursor (q_cursor query) \<noteq> None \<and> decoded = None \<and> offset = None then [(''cursor'', InvalidCursorFormat)] else []) = []"
    "(case page of Some p \<Rightarrow> if p < 1 then [(''page'', PageTooSmall)] else [] | None \<Rightarrow> []) = []"
    "(case limit of Some l \<Rightarrow> if l < 1 then [(''limit'', LimitTooSmall)] else [] | None \<Rightarrow> []) = []"
    "(case limit of Some l \<Rightarrow> if l > m then [(''limit'', LimitTooLarge m)] else [] | None \<Rightarrow> []) = []"
    "(case offset of Some off \<Rightarrow> if off < 0 then [(offset_path query, NegativeOffset)] else [] | None \<Rightarrow> []) = []"
    if "m = default_to (po_maxLimit options) MAX_LIMIT" for m
    using assms that by (auto simp: accepted_def split: option.splits)
  then show ?thesis
    unfolding parsePaginationParams_def p l d collect_simps prod.case Let_def offset_source_eq offset_path_def [symmetric] off
    by (simp add: resolved_def Let_def)
qed

lemma parse_sound:
  assumes "parsePaginationParams lib query options = Inr params"
  shows "\<exists>page limit decoded offset.
      accepted lib query (default_to (po_maxLimit options) MAX_LIMIT) page limit decoded offset \<and>
      params = resolved options (raw_cursor (q_cursor query)) page limit decoded offset"
proof -
  obtain page e1 where p: "collect (parsePositiveInteger lib (q_page query) ''page'') = (page, e1)" by fastforce
  obtain limit e2 where l: "collect (parsePositiveInteger lib (q_limit query) ''limit'') = (limit, e2)" by fastforce
  obtain decoded e3 where d: "(case raw_cursor (q_cursor query) of None \<Rightarrow> (None, []) | Some c \<Rightarrow> collect (decodeCursor lib c)) = (decoded, e3)"
    by fastforce
  obtain offset e4 where off: "(if offset_source query decoded \<noteq> Undefined
      then case parsePositiveInteger lib (offset_source query decoded) (offset_path query) of
          Inl e \<Rightarrow> (None, if decoded = None then e else []) | Inr v \<Rightarrow> (v, [])
      else (None, [])) = (offset, e4)" by fastforce
  note run = assms [unfolded parsePaginationParams_def p l d prod.case Let_def offset_source_eq, folded offset_path_def, unfolded off prod.case]
  have none: "e1 = []" "e2 = []" "e3 = []" "e4 = []" using run by (auto split: if_splits)
  have "accepted lib query (default_to (po_maxLimit options) MAX_LIMIT) page limit decoded offset"
    unfolding accepted_def
  proof (intro conjI)
    show "parsePositiveInteger lib (q_page query) ''page'' = Inr page" "parsePositiveInteger lib (q_limit query) ''limit'' = Inr limit"
      using p l none parse_issue by (fastforce simp: collect_cases)+
    show "case raw_cursor (q_cursor query) of None \<Rightarrow> decoded = None | Some c \<Rightarrow> decodeCursor lib c = Inr decoded"
      using d none decode_issue by (fastforce simp: collect_cases split: option.splits)
    show "parsePositiveInteger lib (offset_source query decoded) (offset_path query) = Inr offset \<or>
        decoded \<noteq> None \<and> offset = None \<and>
        parsePositiveInteger lib (offset_source query decoded) (offset_path query) = Inl [(offset_path query, ExpectedInteger)]"
      using off none parse_issue by (auto split: if_splits sum.splits)
  qed (use run in \<open>auto split: if_splits option.splits\<close>)
  moreover have "params = resolved options (raw_cursor (q_cursor query)) page limit decoded offset"
    using run by (auto simp: resolved_def Let_def split: if_splits)
  ultimately show ?thesis by blast
qed

section \<open>Pages\<close>

lemma div_bounds:
  assumes "0 < (l :: int)"
  shows "n div l * l \<le> n" "n < (n div l + 1) * l"
proof -
  have "n div l * l + n mod l = n" by simp
  moreover have "0 \<le> n mod l" "n mod l < l" using assms by simp_all
  ultimately show "n div l * l \<le> n" "n < (n div l + 1) * l" unfolding distrib_right by linarith+
qed

lemma ceil_quot_less:
  assumes "0 < l"
  shows "k < ceil_quot n l \<longleftrightarrow> k * l < n"
proof
  assume "k < ceil_quot n l"
  then have "((- n) div l + 1) * l \<le> - k * l" using assms by (intro mult_right_mono) (simp_all add: ceil_quot_def)
  then show "k * l < n" using div_bounds(2) [OF assms, of "- n"] by simp
next
  assume less: "k * l < n"
  show "k < ceil_quot n l"
  proof (rule ccontr)
    assume "\<not> k < ceil_quot n l"
    then have "- k * l \<le> (- n) div l * l" using assms by (intro mult_right_mono) (simp_all add: ceil_quot_def)
    then show False using div_bounds(1) [OF assms, of "- n"] less by simp
  qed
qed

lemma pages_prefix: "concat (map (\<lambda>p. take l (drop (p * l) xs)) [0..<m]) = take (m * l) xs"
  by (induction m) (simp_all add: take_add flip: add.commute [of "_ * l" l])

lemma pages_cover:
  assumes "0 < l"
  shows "concat (map (\<lambda>p. take l (drop (p * l) xs)) [0..<nat (ceil_quot (int (length xs)) (int l))]) = xs"
proof -
  let ?m = "ceil_quot (int (length xs)) (int l)"
  have "\<not> ?m * int l < int (length xs)" using assms ceil_quot_less [of "int l" ?m "int (length xs)"] by simp
  then have "int (length xs) \<le> ?m * int l" by simp
  also have "\<dots> \<le> int (nat ?m) * int l" by (intro mult_right_mono) simp_all
  finally have "int (length xs) \<le> int (nat ?m * l)" by simp
  then have "length xs \<le> nat (ceil_quot (int (length xs)) (int l)) * l" by (simp only: of_nat_le_iff)
  then show ?thesis by (simp add: pages_prefix)
qed

text \<open>The URL of a page of the links, read back as a request.\<close>

definition page_link :: "url \<Rightarrow> int \<Rightarrow> int \<Rightarrow> int \<Rightarrow> url" where
  "page_link u page limit p = url_set ''page'' (bigint_to_string p)
     (url_delete ''offset'' (url_set ''limit'' (bigint_to_string limit) (url_set ''page'' (bigint_to_string page) u)))"

lemma links_pages:
  "next_link (buildPaginationLinks u k l n) = (if 0 < n \<and> k < ceil_quot n l then Some (page_link u k l (k + 1)) else None)"
  "prev_link (buildPaginationLinks u k l n) = (if 0 < n \<and> 1 < k then Some (page_link u k l (k - 1)) else None)"
  by (auto simp: buildPaginationLinks_def page_link_def Let_def)

lemma query_page_link:
  "query_of (page_link u k l p) = \<lparr>q_page = Text (bigint_to_string p), q_limit = Text (bigint_to_string l),
     q_cursor = query_value ''cursor'' u, q_offset = Undefined\<rparr>"
  by (simp add: query_of_def page_link_def query_value_simps)

lemma follow_page_link:
  assumes "query_value ''cursor'' u = Undefined" "1 \<le> p" "p < 10 ^ 15" "1 \<le> l" "l < 10 ^ 15"
    and "l \<le> default_to (po_maxLimit options) MAX_LIMIT"
  shows "parsePaginationParams lib (query_of (page_link u k l p)) options =
    Inr \<lparr>pp_page = p, pp_limit = l, pp_offset = (p - 1) * l, pp_cursor = None, pp_decodedCursor = None\<rparr>"
proof -
  have "accepted lib (query_of (page_link u k l p)) (default_to (po_maxLimit options) MAX_LIMIT) (Some p) (Some l) None None"
    using assms parse_number_text [of p lib "''page''"] parse_number_text [of l lib "''limit''"]
    by (simp add: accepted_def query_page_link raw_cursor_def offset_source_def)
  from parse_complete [OF this] show ?thesis
    using assms(1) by (simp add: resolved_def query_page_link raw_cursor_def default_to_def)
qed

section \<open>Claims\<close>

text \<open>
  Claim C24.  Cursors round trip and cannot be redirected: decoding an issued cursor gives the position it was
  issued for, and whatever text a client sends, it is accepted as the position \<open>(t, i)\<close> only if it carries the
  signature of exactly this position.  So a text with the signature of an issued cursor is accepted for the
  position of that cursor only, as long as the signatures of the two positions do not collide.
\<close>

theorem cursor_roundtrip:
  assumes "\<And>t i h. ofBase64Json lib (toBase64Json lib t i h) = Some \<lparr>cf_t = Some t, cf_i = Some i, cf_h = Some h\<rparr>"
    and "\<And>t i t' i'. payloadJson lib t i = payloadJson lib t' i' \<Longrightarrow> t = t' \<and> i = i'"
    and "ofBase64Json lib text = Some sent" "cf_h sent = Some (hmacHex lib (payloadJson lib t i))"
    and "cf_t sent = Some t'" "cf_i sent = Some i'" "inj_on (hmacHex lib) {payloadJson lib t i, payloadJson lib t' i'}"
  shows "decodeCursor lib (encodeCursor lib t i) = Inr (Some \<lparr>dc_t = t, dc_i = i\<rparr>) \<and>
    decodeCursor lib text = (if t' = t \<and> i' = i then Inr (Some \<lparr>dc_t = t, dc_i = i\<rparr>) else Inl [(''cursor'', CursorTampered)])"
proof -
  have "hmacHex lib (payloadJson lib t i) = hmacHex lib (payloadJson lib t' i') \<longleftrightarrow> t' = t \<and> i' = i"
    using inj_onD [OF assms(7)] assms(2) by (metis insertCI)
  then show ?thesis using assms(3-6) by (auto simp: decodeCursor_def encodeCursor_def Let_def assms(1))
qed



text \<open>
  With a numeric cursor the links do not move: a request that passes its offset in the cursor
  parameter, which is still accepted, gets a next link that carries the old cursor along, and read back as a
  request it asks for the same offset again.
\<close>

theorem pagination_legacy_cursor_stuck:
  assumes "query_value ''cursor'' u = Text c" "short_digits c" "ofBase64Json lib c = None" "query_value ''offset'' u = Undefined"
    and "1 \<le> limit" "limit < 10 ^ 15" "limit \<le> default_to (po_maxLimit options) MAX_LIMIT" "1 \<le> page" "page + 1 < 10 ^ 15"
    and "parsePaginationParams lib (query_of u) options = Inr params"
    and "next_link (buildPaginationLinks u page limit count) = Some v"
  shows "pp_offset params = int (nat_of_digits c) \<and>
    (\<exists>params'. parsePaginationParams lib (query_of v) options = Inr params' \<and> pp_page params' = page + 1 \<and>
       pp_offset params' = int (nat_of_digits c))"
proof -
  have v: "v = page_link u page limit (page + 1)" using assms(11) by (auto simp: links_pages split: if_splits)
  have raw: "raw_cursor (Text c) = Some c" using assms(2) digits_trim [of c] by (simp add: raw_cursor_def short_digits_def)
  have dec: "decodeCursor lib c = Inr None" using assms(3) by (simp add: decodeCursor_def)
  obtain pg lm d off where acc: "accepted lib (query_of u) (default_to (po_maxLimit options) MAX_LIMIT) pg lm d off"
    and params: "params = resolved options (raw_cursor (q_cursor (query_of u))) pg lm d off"
    using parse_sound [OF assms(10)] by blast
  have "off = Some (int (nat_of_digits c))"
    using acc assms(1,4) raw dec parse_digits [OF assms(2), of lib] by (auto simp: accepted_def query_of_def offset_source_def)
  then have "pp_offset params = int (nat_of_digits c)" by (simp add: params resolved_def default_to_def Let_def)
  moreover have "accepted lib (query_of v) (default_to (po_maxLimit options) MAX_LIMIT) (Some (page + 1)) (Some limit) None
      (Some (int (nat_of_digits c)))"
    using assms raw dec parse_digits [OF assms(2), of lib] parse_number_text [of "page + 1" lib "''page''"] parse_number_text [of limit lib "''limit''"]
    by (simp add: accepted_def v query_page_link offset_source_def)
  ultimately show ?thesis using parse_complete by (fastforce simp: resolved_def default_to_def Let_def)
qed

section \<open>Witnesses\<close>

definition sized :: "string \<Rightarrow> string \<Rightarrow> string" where
  "sized s rest = replicate (length s) CHR ''x'' @ CHR ''|'' # s @ rest"

definition unsized :: "string \<Rightarrow> string \<times> string" where
  "unsized s = (let n = length (takeWhile (\<lambda>c. c \<noteq> CHR ''|'') s); rest = drop (Suc n) s in (take n rest, drop n rest))"

lemma unsized_sized [simp]: "unsized (sized s rest) = (s, rest)"
proof -
  have "takeWhile (\<lambda>c. c \<noteq> CHR ''|'') (sized s rest) = replicate (length s) CHR ''x''"
    unfolding sized_def by (subst takeWhile_append2) auto
  then have "length (takeWhile (\<lambda>c. c \<noteq> CHR ''|'') (sized s rest)) = length s" by simp
  moreover have "drop (Suc (length s)) (sized s rest) = s @ rest" by (simp add: sized_def)
  ultimately show ?thesis by (simp add: unsized_def Let_def del: drop_drop)
qed

definition sample_lib :: js_lib where
  "sample_lib = \<lparr>otherNumber = (\<lambda>v. NaN), payloadJson = sized, hmacHex = (\<lambda>s. CHR ''h'' # s),
     toBase64Json = (\<lambda>t i h. sized t (sized i h)),
     ofBase64Json = (\<lambda>s. if CHR ''|'' \<in> set s
       then case unsized s of (t, r) \<Rightarrow> (case unsized r of (i, h) \<Rightarrow> Some \<lparr>cf_t = Some t, cf_i = Some i, cf_h = Some h\<rparr>)
       else None)\<rparr>"

lemma sample_lib_codec:
  "ofBase64Json sample_lib (toBase64Json sample_lib t i h) = Some \<lparr>cf_t = Some t, cf_i = Some i, cf_h = Some h\<rparr>"
proof -
  have "CHR ''|'' \<in> set (sized t (sized i h))" by (simp add: sized_def)
  then show ?thesis by (simp add: sample_lib_def)
qed

lemma sample_lib_payload: "payloadJson sample_lib t i = payloadJson sample_lib t' i' \<Longrightarrow> t = t' \<and> i = i'"
proof -
  assume "payloadJson sample_lib t i = payloadJson sample_lib t' i'"
  then have "unsized (sized t i) = unsized (sized t' i')" by (simp only: sample_lib_def js_lib.select_convs)
  then show ?thesis by simp
qed

definition forged_cursor :: string where
  "forged_cursor = toBase64Json sample_lib ''2025'' ''a'' (hmacHex sample_lib (payloadJson sample_lib ''2024'' ''a''))"

theorem cursor_roundtrip_witness:
  "decodeCursor sample_lib (encodeCursor sample_lib ''2024'' ''a'') = Inr (Some \<lparr>dc_t = ''2024'', dc_i = ''a''\<rparr>) \<and>
   decodeCursor sample_lib forged_cursor = Inl [(''cursor'', CursorTampered)]"
proof -
  have inj: "inj_on (hmacHex sample_lib) A" for A by (simp add: sample_lib_def inj_on_def)
  show ?thesis
    using cursor_roundtrip [OF sample_lib_codec sample_lib_payload sample_lib_codec _ _ _ inj, of "''2025''" "''a''"
        "hmacHex sample_lib (payloadJson sample_lib ''2024'' ''a'')" "''2024''" "''a''" "''2025''" "''a''"]
    unfolding forged_cursor_def by simp
qed

definition sample_url :: url where
  "sample_url = \<lparr>url_base = ''https://api/members'', searchParams = [(''limit'', ''2'')]\<rparr>"

definition standard_options :: PaginationParseOptions where
  "standard_options = \<lparr>po_defaultPage = None, po_defaultLimit = None, po_maxLimit = None\<rparr>"

lemma standard_options_simps [simp]:
  "default_to (po_defaultPage standard_options) DEFAULT_PAGE = 1" "default_to (po_defaultLimit standard_options) DEFAULT_LIMIT = 20"
  "default_to (po_maxLimit standard_options) MAX_LIMIT = 100"
  by (simp_all add: standard_options_def default_to_def DEFAULT_PAGE_def DEFAULT_LIMIT_def MAX_LIMIT_def)

definition sample_params :: PaginationParams where
  "sample_params = \<lparr>pp_page = 6, pp_limit = 2, pp_offset = 11, pp_cursor = None, pp_decodedCursor = None\<rparr>"

lemma sample_request:
  "parsePaginationParams sample_lib \<lparr>q_page = Undefined, q_limit = Text ''2'', q_cursor = Undefined, q_offset = Text ''11''\<rparr>
     standard_options = Inr sample_params"
  by code_simp



definition legacy_url :: url where
  "legacy_url = \<lparr>url_base = ''https://api/members'', searchParams = [(''limit'', ''2''), (''cursor'', ''4'')]\<rparr>"

theorem pagination_legacy_cursor_stuck_witness:
  "next_link (buildPaginationLinks legacy_url 3 2 50) = Some (page_link legacy_url 3 2 4) \<and>
   (\<exists>params'. parsePaginationParams sample_lib (query_of (page_link legacy_url 3 2 4)) standard_options = Inr params' \<and>
      pp_page params' = 4 \<and> pp_offset params' = 4)"
proof -
  have req: "parsePaginationParams sample_lib (query_of legacy_url) standard_options =
      Inr \<lparr>pp_page = 3, pp_limit = 2, pp_offset = 4, pp_cursor = Some ''4'', pp_decodedCursor = None\<rparr>" by code_simp
  have n: "next_link (buildPaginationLinks legacy_url 3 2 50) = Some (page_link legacy_url 3 2 4)" by code_simp
  have c: "query_value ''cursor'' legacy_url = Text ''4''" "query_value ''offset'' legacy_url = Undefined"
    "short_digits ''4''" "ofBase64Json sample_lib ''4'' = None" "int (nat_of_digits ''4'') = 4" by code_simp+
  show ?thesis
    using pagination_legacy_cursor_stuck [OF c(1,3,4,2) _ _ _ _ _ req n] n by (simp add: c(5))
qed

end
