(* ===== verification/AuditExport.thy ===== *)
theory AuditExport
  imports AuditLog Pagination
begin

text \<open>
  Reading the audit log: \<open>query\<close> of the in-memory repository (\<open>src/src/db/repositories/auditLogsRepository.ts\<close>),
  and \<open>getLogs\<close>, \<open>paginateLogs\<close>, \<open>exportLogsStream\<close> and \<open>redactLogEntry\<close> of the service
  (\<open>src/src/services/audit/index.ts\<close>).  Between two pages of an export other calls may write to the log, so an
  export reads a sequence of logs, one per page.
\<close>

section \<open>Queries\<close>

record AuditLogFilters =
  fl_action :: "string option"
  fl_actorId :: "string option"
  fl_resourceType :: "string option"
  fl_resourceId :: "string option"
  fl_status :: "AuditStatus option"
  fl_from :: "string option"
  fl_to :: "string option"
  fl_adminId :: "string option"
  fl_targetUserId :: "string option"
  fl_tenantId :: "string option"

datatype audit_query_error = BadLimit | BadCursor pagination_errors | QueryScopeRequired

record 'd log_page =
  lg_logs :: "'d AuditLogEntry list"
  lg_hasNextPage :: bool
  lg_nextCursor :: "string option"

text \<open>\<open>if (v) { filtered = filtered.filter(p) }\<close>\<close>

definition narrow :: "bool \<Rightarrow> ('a \<Rightarrow> bool) \<Rightarrow> 'a list \<Rightarrow> 'a list" where
  "narrow b P xs = (if b then filter P xs else xs)"

definition first_given :: "'a option \<Rightarrow> 'a option \<Rightarrow> 'a option" where
  "first_given x y = (case x of None \<Rightarrow> y | Some v \<Rightarrow> Some v)"

text \<open>A comparison of two times is false when one of them is \<open>NaN\<close>.\<close>

definition compare_times :: "(int \<Rightarrow> int \<Rightarrow> bool) \<Rightarrow> int option \<Rightarrow> int option \<Rightarrow> bool" where
  "compare_times R a b = (case a of None \<Rightarrow> False | Some s \<Rightarrow> (case b of None \<Rightarrow> False | Some t \<Rightarrow> R s t))"

definition entry_time :: "'d js_env \<Rightarrow> 'd AuditLogEntry \<Rightarrow> int option" where
  "entry_time env e = getTime env (ae_timestamp e)"

definition filtered_logs :: "'d js_env \<Rightarrow> AuditLogFilters \<Rightarrow> 'd AuditLogEntry list \<Rightarrow> 'd AuditLogEntry list" where
  "filtered_logs env filters xs =
     (let f1 = narrow (truthy (fl_action filters)) (\<lambda>e. Some (ae_action e) = fl_action filters) xs;
          actorId = first_given (fl_actorId filters) (fl_adminId filters);
          f2 = narrow (truthy actorId) (\<lambda>e. Some (ae_actorId e) = actorId) f1;
          resourceId = first_given (fl_resourceId filters) (fl_targetUserId filters);
          f3 = narrow (truthy resourceId) (\<lambda>e. Some (ae_resourceId e) = resourceId) f2;
          f4 = narrow (truthy (fl_resourceType filters)) (\<lambda>e. Some (ae_resourceType e) = fl_resourceType filters) f3;
          f5 = narrow (fl_status filters \<noteq> None) (\<lambda>e. Some (ae_status e) = fl_status filters) f4;
          f6 = narrow (truthy (fl_from filters)) (\<lambda>e. compare_times (\<ge>) (entry_time env e) (getTime env (the (fl_from filters)))) f5;
          f7 = narrow (truthy (fl_to filters)) (\<lambda>e. compare_times (\<le>) (entry_time env e) (getTime env (the (fl_to filters)))) f6
      in narrow (truthy (fl_tenantId filters)) (\<lambda>e. Some (ae_tenantId e) = fl_tenantId filters) f7)"

definition newest_cmp :: "'d js_env \<Rightarrow> 'd AuditLogEntry \<Rightarrow> 'd AuditLogEntry \<Rightarrow> int" where
  "newest_cmp env a b =
     (let d = (case entry_time env b of None \<Rightarrow> 0 | Some tb \<Rightarrow> (case entry_time env a of None \<Rightarrow> 0 | Some ta \<Rightarrow> tb - ta))
      in if d \<noteq> 0 then d else localeCompare env (ae_id b) (ae_id a))"

definition after_position :: "'d js_env \<Rightarrow> DecodedCursor \<Rightarrow> 'd AuditLogEntry \<Rightarrow> bool" where
  "after_position env c e \<longleftrightarrow>
     compare_times (<) (entry_time env e) (getTime env (dc_t c)) \<or>
     (compare_times (=) (entry_time env e) (getTime env (dc_t c)) \<and> ae_id e < dc_i c)"

text \<open>\<open>Array.prototype.findIndex\<close>\<close>

definition findIndex :: "('a \<Rightarrow> bool) \<Rightarrow> 'a list \<Rightarrow> int" where
  "findIndex P xs = (let n = length (takeWhile (\<lambda>x. \<not> P x) xs) in if n < length xs then int n else - 1)"

definition start_index :: "'d js_env \<Rightarrow> DecodedCursor option \<Rightarrow> 'd AuditLogEntry list \<Rightarrow> nat" where
  "start_index env decoded ordered =
     (case decoded of
        None \<Rightarrow> 0
      | Some c \<Rightarrow> let i = findIndex (after_position env c) ordered in if i = - 1 then length ordered else nat i)"

definition query ::
  "'d js_env \<Rightarrow> js_lib \<Rightarrow> AuditLogFilters \<Rightarrow> int \<Rightarrow> string option \<Rightarrow> 'd InMemoryAuditLogsRepository \<Rightarrow>
   (audit_query_error, 'd log_page) result" where
  "query env lib filters limit cursor repo =
     (if limit < 1 then Inl BadLimit
      else
        let filtered = filtered_logs env filters (logs repo);
            ordered = js_sort (newest_cmp env) filtered
        in case (if truthy cursor then decodeCursor lib (the cursor) else Inr None) of
             Inl e \<Rightarrow> Inl (BadCursor e)
           | Inr decoded \<Rightarrow>
               let startIndex = start_index env decoded ordered;
                   sliced = take (nat limit + 1) (drop startIndex ordered);
                   hasNextPage = int (length sliced) > limit;
                   page = (if hasNextPage then take (nat limit) sliced else sliced);
                   nextCursor = (if hasNextPage \<and> page \<noteq> []
                     then Some (encodeCursor lib (ae_timestamp (last page)) (ae_id (last page))) else None)
               in Inr \<lparr>lg_logs = page, lg_hasNextPage = hasNextPage, lg_nextCursor = nextCursor\<rparr>)"

definition getLogs ::
  "'d js_env \<Rightarrow> js_lib \<Rightarrow> string option \<Rightarrow> AuditLogFilters \<Rightarrow> int \<Rightarrow> string option \<Rightarrow> bool \<Rightarrow>
   'd InMemoryAuditLogsRepository \<Rightarrow> (audit_query_error, 'd log_page) result" where
  "getLogs env lib tenantId filters limit cursor allowSuperScope repo =
     (if \<not> truthy tenantId \<and> \<not> allowSuperScope then Inl QueryScopeRequired
      else
        let effectiveTenantId = (if allowSuperScope then if truthy (fl_tenantId filters) then fl_tenantId filters else tenantId
                                 else tenantId)
        in query env lib (filters\<lparr>fl_tenantId := effectiveTenantId\<rparr>) limit cursor repo)"

section \<open>Export\<close>

text \<open>
  \<open>paginateLogs\<close>: each page is read from the log as it is then.  \<open>None\<close> means that the given logs were not
  enough to finish.
\<close>

fun paginateLogs ::
  "'d js_env \<Rightarrow> js_lib \<Rightarrow> string option \<Rightarrow> AuditLogFilters \<Rightarrow> bool \<Rightarrow> int \<Rightarrow> string option \<Rightarrow>
   'd InMemoryAuditLogsRepository list \<Rightarrow> (audit_query_error, 'd AuditLogEntry list) result option" where
  "paginateLogs env lib tenantId filters super pageSize cursor [] = None"
| "paginateLogs env lib tenantId filters super pageSize cursor (repo # repos) =
     (case getLogs env lib tenantId filters pageSize cursor super repo of
        Inl e \<Rightarrow> Some (Inl e)
      | Inr page \<Rightarrow>
          if \<not> lg_hasNextPage page \<or> \<not> truthy (lg_nextCursor page) then Some (Inr (lg_logs page))
          else map_option (\<lambda>r. rbind r (\<lambda>rest. Inr (lg_logs page @ rest)))
            (paginateLogs env lib tenantId filters super pageSize (lg_nextCursor page) repos))"

fun split_char :: "char \<Rightarrow> string \<Rightarrow> string list" where
  "split_char c [] = [[]]"
| "split_char c (x # xs) = (if x = c then [] # split_char c xs
     else case split_char c xs of [] \<Rightarrow> [[x]] | p # ps \<Rightarrow> (x # p) # ps)"

definition maskEmail :: "string \<Rightarrow> string" where
  "maskEmail email =
     (if email = [] \<or> CHR ''@'' \<notin> set email then ''***@***''
      else case split_char CHR ''@'' email of
        local_part # domain # _ \<Rightarrow> (if length local_part > 1 then hd local_part # ''***'' else ''***'') @ ''@'' @ domain
      | _ \<Rightarrow> ''***@***'')"

definition maskIp :: "string \<Rightarrow> string" where
  "maskIp ip = (let parts = split_char CHR ''.'' ip in if length parts = 4 then join CHR ''.'' (parts[3 := ''***'']) else ip)"

definition mask_if :: "(string \<Rightarrow> string) \<Rightarrow> string option \<Rightarrow> string option" where
  "mask_if f x = (if truthy x then map_option f x else x)"

definition redactLogEntry :: "'d AuditLogEntry \<Rightarrow> 'd AuditLogEntry" where
  "redactLogEntry entry =
     entry\<lparr>ae_adminEmail := mask_if maskEmail (ae_adminEmail entry),
       ae_targetUserEmail := mask_if maskEmail (ae_targetUserEmail entry),
       ae_ipAddress := mask_if maskIp (ae_ipAddress entry)\<rparr>"

definition no_filters :: AuditLogFilters where
  "no_filters = \<lparr>fl_action = None, fl_actorId = None, fl_resourceType = None, fl_resourceId = None, fl_status = None,
     fl_from = None, fl_to = None, fl_adminId = None, fl_targetUserId = None, fl_tenantId = None\<rparr>"

definition exportLogsStream ::
  "'d js_env \<Rightarrow> js_lib \<Rightarrow> string \<Rightarrow> string \<Rightarrow> string option \<Rightarrow> bool \<Rightarrow> 'd InMemoryAuditLogsRepository list \<Rightarrow>
   (audit_query_error, 'd AuditLogEntry list) result option" where
  "exportLogsStream env lib startDate endDate tenantId super repos =
     (if \<not> truthy tenantId \<and> \<not> super then Some (Inl QueryScopeRequired)
      else map_option (\<lambda>r. rbind r (\<lambda>es. Inr (map redactLogEntry es)))
        (paginateLogs env lib tenantId (no_filters\<lparr>fl_from := Some startDate, fl_to := Some endDate\<rparr>) super 500 None repos))"

section \<open>Top talkers\<close>

definition DEFAULT_TOP_TALKERS_LIMIT :: int where "DEFAULT_TOP_TALKERS_LIMIT = 10"
definition MAX_TOP_TALKERS_LIMIT :: int where "MAX_TOP_TALKERS_LIMIT = 100"
definition DEFAULT_TOP_TALKERS_WINDOW_MINUTES :: int where "DEFAULT_TOP_TALKERS_WINDOW_MINUTES = 60"

record 'p TopTalkerEntry =
  tt_tenantId :: string
  tt_requestCount :: nat
  tt_percentage :: 'p
  tt_lastRequestAt :: string

record 'p TopTalkersReport =
  tr_windowStart :: int
  tr_windowEnd :: int
  tr_windowMinutes :: int
  tr_totalRequests :: nat
  tr_topTalkers :: "'p TopTalkerEntry list"

definition count_talker :: "(string, nat \<times> string) jsmap \<Rightarrow> 'd AuditLogEntry \<Rightarrow> (string, nat \<times> string) jsmap" where
  "count_talker tenants e =
     (case map_get tenants (ae_tenantId e) of
        Some (n, lastAt) \<Rightarrow> map_set (ae_tenantId e) (n + 1, if ae_timestamp e > lastAt then ae_timestamp e else lastAt) tenants
      | None \<Rightarrow> map_set (ae_tenantId e) (1, ae_timestamp e) tenants)"

definition talker_cmp :: "'d js_env \<Rightarrow> 'p TopTalkerEntry \<Rightarrow> 'p TopTalkerEntry \<Rightarrow> int" where
  "talker_cmp env a b =
     (let d = int (tt_requestCount b) - int (tt_requestCount a)
      in if d \<noteq> 0 then d else localeCompare env (tt_tenantId a) (tt_tenantId b))"

text \<open>The percentage is a rounded floating point quotient of the two counts, given as a parameter.\<close>

definition getTopTalkers ::
  "'d js_env \<Rightarrow> (nat \<Rightarrow> nat \<Rightarrow> 'p) \<Rightarrow> int option \<Rightarrow> int option \<Rightarrow> int \<Rightarrow> 'd InMemoryAuditLogsRepository \<Rightarrow> 'p TopTalkersReport option" where
  "getTopTalkers env percentage limitOpt windowOpt now repo =
     (let limit = or_else limitOpt DEFAULT_TOP_TALKERS_LIMIT; windowMinutes = or_else windowOpt DEFAULT_TOP_TALKERS_WINDOW_MINUTES
      in if windowMinutes < 0 then None
         else
           let effectiveLimit = min (max 1 limit) MAX_TOP_TALKERS_LIMIT;
               windowStart = now - windowMinutes * 60 * 1000;
               matching = filter (\<lambda>e. compare_times (\<ge>) (entry_time env e) (Some windowStart) \<and>
                 compare_times (\<le>) (entry_time env e) (Some now)) (logs repo);
               totalRequests = length matching;
               tenantMap = foldl count_talker [] matching;
               talkers = map (\<lambda>(t, n, lastAt). \<lparr>tt_tenantId = t, tt_requestCount = n, tt_percentage = percentage n totalRequests,
                 tt_lastRequestAt = lastAt\<rparr>) tenantMap
           in Some \<lparr>tr_windowStart = windowStart, tr_windowEnd = now, tr_windowMinutes = windowMinutes, tr_totalRequests = totalRequests,
                tr_topTalkers = take (nat effectiveLimit) (js_sort (talker_cmp env) talkers)\<rparr>)"

text \<open>Every tenant is counted with the number of its entries.\<close>

definition counted :: "(string, nat \<times> string) jsmap \<Rightarrow> string \<Rightarrow> nat" where
  "counted m t = (case map_get m t of None \<Rightarrow> 0 | Some (n, _) \<Rightarrow> n)"

lemma count_talker_step: "counted (count_talker m e) t = counted m t + (if ae_tenantId e = t then 1 else 0)"
  by (auto simp: counted_def count_talker_def store_simps split: option.splits prod.splits)

lemma count_talkers: "counted (foldl count_talker m es) t = counted m t + length (filter (\<lambda>e. ae_tenantId e = t) es)"
  by (induction es arbitrary: m) (simp_all add: count_talker_step)

section \<open>One page\<close>

definition accepts :: "'d js_env \<Rightarrow> AuditLogFilters \<Rightarrow> 'd AuditLogEntry \<Rightarrow> bool" where
  "accepts env filters e \<longleftrightarrow> filtered_logs env filters [e] = [e]"

lemma narrow_filter: "narrow b P xs = filter (\<lambda>x. b \<longrightarrow> P x) xs"
  by (simp add: narrow_def)

lemma filtered_logs_filter: "filtered_logs env filters xs = filter (accepts env filters) xs"
  unfolding filtered_logs_def accepts_def narrow_filter Let_def filter_filter by (rule filter_cong) auto

definition position :: "'d AuditLogEntry \<Rightarrow> DecodedCursor" where
  "position e = \<lparr>dc_t = ae_timestamp e, dc_i = ae_id e\<rparr>"

text \<open>The order of the listing: newest first, by descending id within a timestamp.\<close>

definition listed_before :: "'d js_env \<Rightarrow> 'd AuditLogEntry \<Rightarrow> 'd AuditLogEntry \<Rightarrow> bool" where
  "listed_before env a b \<longleftrightarrow> after_position env (position a) b"

lemma listed_before_iff:
  "listed_before env a b \<longleftrightarrow> (\<exists>s t. entry_time env a = Some s \<and> entry_time env b = Some t \<and> (t < s \<or> t = s \<and> ae_id b < ae_id a))"
  by (auto simp: listed_before_def after_position_def position_def compare_times_def entry_time_def split: option.splits)

lemma listed_before_trans: "listed_before env a b \<Longrightarrow> listed_before env b c \<Longrightarrow> listed_before env a c"
  by (auto simp: listed_before_iff)

lemma listed_before_asym: "listed_before env a b \<Longrightarrow> \<not> listed_before env b a"
  by (auto simp: listed_before_iff)

text \<open>What a log needs to be listed: parsable timestamps, distinct ids, and a collation that orders them as \<open><\<close> does.\<close>

definition listable :: "'d js_env \<Rightarrow> 'd AuditLogEntry list \<Rightarrow> bool" where
  "listable env es \<longleftrightarrow> list_all (\<lambda>e. entry_time env e \<noteq> None) es \<and> distinct (map ae_id es) \<and>
     list_all (\<lambda>a. list_all (\<lambda>b. (localeCompare env (ae_id a) (ae_id b) < 0 \<longleftrightarrow> ae_id a < ae_id b) \<and>
       (localeCompare env (ae_id a) (ae_id b) = 0 \<longleftrightarrow> ae_id a = ae_id b)) es) es"

lemma newest_cmp_iff:
  assumes "listable env es" "a \<in> set es" "b \<in> set es"
  shows "newest_cmp env a b \<le> 0 \<longleftrightarrow> a = b \<or> listed_before env a b"
proof -
  obtain s t where st: "entry_time env a = Some s" "entry_time env b = Some t"
    using assms by (fastforce simp: listable_def list_all_iff)
  have ids: "localeCompare env (ae_id b) (ae_id a) \<le> 0 \<longleftrightarrow> ae_id b < ae_id a \<or> ae_id b = ae_id a"
    using assms by (auto simp: listable_def list_all_iff le_less)
  have same: "ae_id b = ae_id a \<longleftrightarrow> a = b"
    using assms by (auto simp: listable_def distinct_map inj_on_def)
  show ?thesis using st ids same by (auto simp: newest_cmp_def listed_before_iff Let_def)
qed

definition listing :: "'d js_env \<Rightarrow> AuditLogFilters \<Rightarrow> 'd AuditLogEntry list \<Rightarrow> 'd AuditLogEntry list" where
  "listing env filters es = js_sort (newest_cmp env) (filter (accepts env filters) es)"

lemma set_listing [simp]: "set (listing env filters es) = {e \<in> set es. accepts env filters e}"
  by (simp add: listing_def)

lemma listing_sorted:
  assumes "listable env es"
  shows "sorted_wrt (listed_before env) (listing env filters es)"
proof -
  note cmp = newest_cmp_iff [OF assms]
  have laws: "comparator (newest_cmp env) (set es)"
  proof
    show "newest_cmp env a b \<le> 0 \<or> newest_cmp env b a \<le> 0" if m: "a \<in> set es" "b \<in> set es" for a b
    proof -
      obtain s t where "entry_time env a = Some s" "entry_time env b = Some t"
        using assms m by (fastforce simp: listable_def list_all_iff)
      moreover have "ae_id a = ae_id b \<Longrightarrow> a = b" using assms m by (auto simp: listable_def distinct_map inj_on_def)
      ultimately show ?thesis
        using cmp [OF m] cmp [OF m(2,1)] linorder_less_linear [of s t] linorder_less_linear [of "ae_id a" "ae_id b"]
        by (auto simp: listed_before_iff)
    qed
    show "newest_cmp env a c \<le> 0"
      if "a \<in> set es" "b \<in> set es" "c \<in> set es" "newest_cmp env a b \<le> 0" "newest_cmp env b c \<le> 0" for a b c
      using cmp [OF that(1,2)] cmp [OF that(2,3)] cmp [OF that(1,3)] that(4,5) listed_before_trans by blast
  qed
  have srt: "sorted_wrt (\<lambda>a b. newest_cmp env a b \<le> 0) (listing env filters es)"
    unfolding listing_def by (rule comparator.sorted_js_sort [OF laws]) auto
  have dist: "distinct (listing env filters es)"
    using assms by (auto simp: listing_def listable_def distinct_map)
  show ?thesis by (rule sorted_wrt_strict [OF srt dist]) (use cmp in auto)
qed

definition codec_ok :: "js_lib \<Rightarrow> bool" where
  "codec_ok lib \<longleftrightarrow> (\<forall>t i h. toBase64Json lib t i h \<noteq> [] \<and>
     ofBase64Json lib (toBase64Json lib t i h) = Some \<lparr>cf_t = Some t, cf_i = Some i, cf_h = Some h\<rparr>)"

text \<open>A position in the listing: the start, or just after an entry.\<close>

definition cursor_at :: "js_lib \<Rightarrow> 'd AuditLogEntry option \<Rightarrow> string option" where
  "cursor_at lib c = map_option (\<lambda>e. encodeCursor lib (ae_timestamp e) (ae_id e)) c"

definition beyond :: "'d js_env \<Rightarrow> 'd AuditLogEntry option \<Rightarrow> 'd AuditLogEntry \<Rightarrow> bool" where
  "beyond env c e \<longleftrightarrow> (case c of None \<Rightarrow> True | Some x \<Rightarrow> listed_before env x e)"

lemma beyond_simps: "beyond env None = (\<lambda>e. True)" "beyond env (Some x) = listed_before env x"
  by (simp_all add: beyond_def fun_eq_iff)

lemma truthy_cursor: "codec_ok lib \<Longrightarrow> truthy (cursor_at lib c) \<longleftrightarrow> c \<noteq> None"
  by (cases c) (simp_all add: cursor_at_def truthy_def codec_ok_def encodeCursor_def Let_def)

lemma decode_cursor_at: "codec_ok lib \<Longrightarrow> decodeCursor lib (encodeCursor lib t i) = Inr (Some \<lparr>dc_t = t, dc_i = i\<rparr>)"
  by (simp add: codec_ok_def encodeCursor_def decodeCursor_def Let_def)

lemma drop_findIndex:
  "drop (let i = findIndex P xs in if i = - 1 then length xs else nat i) xs = dropWhile (\<lambda>x. \<not> P x) xs"
proof -
  have "length (takeWhile (\<lambda>x. \<not> P x) xs) \<le> length xs" by (simp add: length_takeWhile_le)
  then show ?thesis by (auto simp: findIndex_def Let_def dropWhile_eq_drop)
qed

lemma dropWhile_sorted:
  assumes "sorted_wrt R xs" "\<And>a b. P a \<Longrightarrow> R a b \<Longrightarrow> P b"
  shows "dropWhile (\<lambda>x. \<not> P x) xs = filter P xs"
  using assms(1)
proof (induction xs)
  case (Cons x xs)
  then show ?case using assms(2) by (auto intro!: filter_True [symmetric])
qed simp

lemma last_take: "0 < n \<Longrightarrow> n \<le> length xs \<Longrightarrow> last (take n xs) = xs ! (n - 1)"
  by (subst last_conv_nth) auto

lemma query_page:
  assumes "codec_ok lib" "listable env (logs repo)" "0 < n"
  shows "query env lib filters (int n) (cursor_at lib c) repo =
    (let rs = filter (beyond env c) (listing env filters (logs repo)) in
     Inr \<lparr>lg_logs = take n rs, lg_hasNextPage = (n < length rs),
       lg_nextCursor = (if n < length rs then cursor_at lib (Some (rs ! (n - 1))) else None)\<rparr>)"
proof -
  let ?all = "listing env filters (logs repo)"
  let ?rs = "filter (beyond env c) ?all"
  have dec: "(if truthy (cursor_at lib c) then decodeCursor lib (the (cursor_at lib c)) else Inr None) = Inr (map_option position c)"
    using truthy_cursor [OF assms(1), of c] decode_cursor_at [OF assms(1)]
    by (auto simp: cursor_at_def position_def split: option.splits)
  have rest: "drop (start_index env (map_option position c) ?all) ?all = ?rs"
  proof (cases c)
    case (Some x)
    have "dropWhile (\<lambda>e. \<not> after_position env (position x) e) ?all = filter (after_position env (position x)) ?all"
      by (rule dropWhile_sorted [OF listing_sorted [OF assms(2)]])
        (use listed_before_trans in \<open>auto simp: listed_before_def\<close>)
    then show ?thesis
      by (simp add: Some start_index_def drop_findIndex beyond_simps listed_before_def [abs_def])
  qed (simp add: start_index_def beyond_simps)
  have last: "last (take n ?rs) = ?rs ! (n - 1)" "take n ?rs \<noteq> []" if "n < length ?rs"
    using that assms(3) last_take [of n ?rs] by auto
  show ?thesis
    unfolding query_def Let_def filtered_logs_filter listing_def [symmetric] dec sum.case rest
    using assms(3) last by (cases "n < length ?rs") (simp_all add: cursor_at_def)
qed

section \<open>All pages\<close>

definition effective_filters :: "string option \<Rightarrow> AuditLogFilters \<Rightarrow> bool \<Rightarrow> AuditLogFilters" where
  "effective_filters tenantId filters super =
     filters\<lparr>fl_tenantId := (if super then if truthy (fl_tenantId filters) then fl_tenantId filters else tenantId else tenantId)\<rparr>"

lemma getLogs_page:
  assumes "codec_ok lib" "listable env (logs repo)" "0 < n" "truthy tenantId \<or> super"
  shows "getLogs env lib tenantId filters (int n) (cursor_at lib c) super repo =
    (let rs = filter (beyond env c) (listing env (effective_filters tenantId filters super) (logs repo)) in
     Inr \<lparr>lg_logs = take n rs, lg_hasNextPage = (n < length rs),
       lg_nextCursor = (if n < length rs then cursor_at lib (Some (rs ! (n - 1))) else None)\<rparr>)"
  using assms(4) by (auto simp: getLogs_def query_page [OF assms(1-3)] effective_filters_def)

lemma paginate_page:
  assumes "codec_ok lib" "listable env (logs repo)" "0 < n" "truthy tenantId \<or> super"
  shows "paginateLogs env lib tenantId filters super (int n) (cursor_at lib c) (repo # repos) =
    (let rs = filter (beyond env c) (listing env (effective_filters tenantId filters super) (logs repo)) in
     if n < length rs
     then map_option (\<lambda>r. rbind r (\<lambda>rest. Inr (take n rs @ rest)))
       (paginateLogs env lib tenantId filters super (int n) (cursor_at lib (Some (rs ! (n - 1)))) repos)
     else Some (Inr rs))"
  by (simp add: getLogs_page [OF assms] truthy_cursor [OF assms(1)] Let_def)

text \<open>With a log that does not change, enough pages return the whole listing.\<close>

lemma paginate_static:
  fixes filters :: AuditLogFilters
  assumes "codec_ok lib" "listable env (logs repo)" "0 < n" "truthy tenantId \<or> super"
  defines "all \<equiv> listing env (effective_filters tenantId filters super) (logs repo)"
  assumes "0 < m" "length all \<le> i + m * n" "i \<le> length all" "c = (if i = 0 then None else Some (all ! (i - 1)))"
  shows "paginateLogs env lib tenantId filters super (int n) (cursor_at lib c) (replicate m repo) = Some (Inr (drop i all))"
  using assms(6-9)
proof (induction m arbitrary: i c)
  case (Suc m)
  have srt: "sorted_wrt (listed_before env) all" unfolding all_def by (rule listing_sorted [OF assms(2)])
  have rs: "filter (beyond env c) all = drop i all"
  proof (cases "i = 0")
    case False
    then show ?thesis
      using filter_after [OF srt _ listed_before_asym, of "i - 1"] Suc.prems(3,4) by (simp add: beyond_simps)
  qed (simp add: Suc.prems(4) beyond_simps)
  show ?case
  proof (cases "n < length (drop i all)")
    case True
    then have "0 < m" using Suc.prems(2) by (cases m) auto
    moreover have "drop i all ! (n - 1) = all ! (i + n - 1)" using True assms(3) by simp
    ultimately have "paginateLogs env lib tenantId filters super (int n) (cursor_at lib (Some (drop i all ! (n - 1)))) (replicate m repo) =
        Some (Inr (drop (i + n) all))"
      using Suc.IH [of "i + n" "Some (all ! (i + n - 1))"] Suc.prems(2) True assms(3) by (simp add: algebra_simps)
    then have "paginateLogs env lib tenantId filters super (int n) (cursor_at lib c) (replicate (Suc m) repo) =
        Some (Inr (take n (drop i all) @ drop (i + n) all))"
      unfolding replicate_Suc paginate_page [OF assms(1-4)] all_def [symmetric] rs Let_def using True by simp
    also have "take n (drop i all) @ drop (i + n) all = drop i all" by (metis add.commute append_take_drop_id drop_drop)
    finally show ?thesis .
  next
    case False
    then show ?thesis unfolding replicate_Suc paginate_page [OF assms(1-4)] all_def [symmetric] rs Let_def by simp
  qed
qed simp

text \<open>With logs that change between the pages.\<close>

lemma sorted_split:
  assumes "sorted_wrt R rs" "0 < n" "n < length rs"
  shows "x \<in> set (take n rs) \<Longrightarrow> x = rs ! (n - 1) \<or> R x (rs ! (n - 1))" "y \<in> set (drop n rs) \<Longrightarrow> R (rs ! (n - 1)) y"
proof -
  assume "x \<in> set (take n rs)"
  then obtain i where i: "i < n" "x = rs ! i" using assms(3) by (auto simp: in_set_conv_nth)
  then show "x = rs ! (n - 1) \<or> R x (rs ! (n - 1))"
    using assms by (cases "i = n - 1") (auto simp: sorted_wrt_iff_nth_less)
next
  assume "y \<in> set (drop n rs)"
  then obtain j where "j < length rs - n" "y = rs ! (n + j)" by (auto simp: in_set_conv_nth)
  then show "R (rs ! (n - 1)) y" using assms by (auto simp: sorted_wrt_iff_nth_less)
qed

lemma append_page:
  assumes "transp R" "sorted_wrt R rs" "0 < n" "n < length rs"
    and "sorted_wrt R es" "\<forall>e \<in> set es. R (rs ! (n - 1)) e"
  shows "sorted_wrt R (take n rs @ es)" "e \<in> set rs \<Longrightarrow> e \<in> set (take n rs) \<or> R (rs ! (n - 1)) e"
proof -
  note split = sorted_split [OF assms(2-4)]
  have "R x y" if "x \<in> set (take n rs)" "y \<in> set es" for x y
    using split(1) [OF that(1)] assms(6) that(2) transpD [OF assms(1)] by blast
  then show "sorted_wrt R (take n rs @ es)" unfolding sorted_wrt_append using sorted_wrt_take [OF assms(2)] assms(5) by blast
  show "e \<in> set (take n rs) \<or> R (rs ! (n - 1)) e" if "e \<in> set rs"
    using that split(2) by (metis Un_iff append_take_drop_id set_append)
qed

text \<open>What the pages read from a position on contain, for the accepted entries.\<close>

definition exported ::
  "'d js_env \<Rightarrow> ('d AuditLogEntry \<Rightarrow> bool) \<Rightarrow> 'd AuditLogEntry option \<Rightarrow> 'd InMemoryAuditLogsRepository list \<Rightarrow>
   'd AuditLogEntry list \<Rightarrow> bool" where
  "exported env ok c repos es \<longleftrightarrow> sorted_wrt (listed_before env) es \<and>
    (\<forall>e \<in> set es. beyond env c e \<and> ok e \<and> (\<exists>r \<in> set repos. e \<in> set (logs r))) \<and>
    (\<forall>e. (\<forall>r \<in> set repos. e \<in> set (logs r)) \<longrightarrow> ok e \<longrightarrow> beyond env c e \<longrightarrow> e \<in> set es)"

lemma exported_step:
  assumes "sorted_wrt (listed_before env) rs" "\<And>e. e \<in> set rs \<longleftrightarrow> e \<in> set (logs repo) \<and> ok e \<and> beyond env c e"
    and "0 < n" "n < length rs" "exported env ok (Some (rs ! (n - 1))) repos es"
  shows "exported env ok c (repo # repos) (take n rs @ es)"
proof -
  let ?last = "rs ! (n - 1)"
  have es: "sorted_wrt (listed_before env) es" "\<forall>e \<in> set es. listed_before env ?last e \<and> ok e \<and> (\<exists>r \<in> set repos. e \<in> set (logs r))"
      "\<forall>e. (\<forall>r \<in> set repos. e \<in> set (logs r)) \<longrightarrow> ok e \<longrightarrow> listed_before env ?last e \<longrightarrow> e \<in> set es"
    using assms(5) by (simp_all add: exported_def beyond_simps)
  have after: "\<forall>e \<in> set es. listed_before env ?last e" using es(2) by blast
  have tr: "transp (listed_before env)" by (rule transpI) (rule listed_before_trans)
  note page = append_page [OF tr assms(1,3,4) es(1) after]
  have "?last \<in> set rs" by (rule nth_mem) (use assms(4) in linarith)
  then have "beyond env c ?last" using assms(2) by blast
  then have beyond: "beyond env c e" if "listed_before env ?last e" for e
    using that listed_before_trans unfolding beyond_def by (cases c) (simp_all, blast)
  have "beyond env c e \<and> ok e \<and> (\<exists>r \<in> set (repo # repos). e \<in> set (logs r))" if "e \<in> set (take n rs) \<union> set es" for e
    using that in_set_takeD [of e n rs] assms(2) es(2) beyond by (metis Un_iff list.set_intros)
  moreover have "e \<in> set (take n rs) \<union> set es" if "\<forall>r \<in> set (repo # repos). e \<in> set (logs r)" "ok e" "beyond env c e" for e
    using that assms(2) page(2) es(3) by (metis Un_iff list.set_intros)
  ultimately show ?thesis unfolding exported_def set_append using page(1) by blast
qed

lemma paginate_changing:
  assumes "codec_ok lib" "0 < n" "truthy tenantId \<or> super" "list_all (\<lambda>r. listable env (logs r)) repos"
    and "paginateLogs env lib tenantId filters super (int n) (cursor_at lib c) repos = Some (Inr es)"
  shows "exported env (accepts env (effective_filters tenantId filters super)) c repos es"
  using assms(4,5)
proof (induction repos arbitrary: c es)
  case (Cons repo repos)
  let ?rs = "filter (beyond env c) (listing env (effective_filters tenantId filters super) (logs repo))"
  have lok: "listable env (logs repo)" using Cons.prems(1) by simp
  have srt: "sorted_wrt (listed_before env) ?rs" by (rule sorted_wrt_filter [OF listing_sorted [OF lok]])
  have mem: "e \<in> set ?rs \<longleftrightarrow> e \<in> set (logs repo) \<and> accepts env (effective_filters tenantId filters super) e \<and> beyond env c e" for e
    by auto
  note page = trans [OF paginate_page [OF assms(1) lok assms(2,3), of filters c repos, symmetric] Cons.prems(2)]
  show ?case
  proof (cases "n < length ?rs")
    case False
    then have "es = ?rs" using page by (simp add: Let_def)
    with srt mem show ?thesis by (simp add: exported_def)
  next
    case True
    obtain es' where es': "paginateLogs env lib tenantId filters super (int n) (cursor_at lib (Some (?rs ! (n - 1)))) repos = Some (Inr es')"
      and es: "es = take n ?rs @ es'"
      using page True by (auto simp: Let_def rbind_Inr_iff)
    show ?thesis unfolding es
      by (rule exported_step [OF srt mem assms(2) True]) (use Cons.IH [OF _ es'] Cons.prems(1) in simp)
  qed
qed simp

section \<open>Claims\<close>

text \<open>What an export is about: the entries of the tenant, or of all tenants, between the two dates.\<close>

definition wanted :: "'d js_env \<Rightarrow> string \<Rightarrow> string \<Rightarrow> string option \<Rightarrow> 'd AuditLogEntry \<Rightarrow> bool" where
  "wanted env startDate endDate tenantId e \<longleftrightarrow>
     compare_times (\<ge>) (entry_time env e) (getTime env startDate) \<and> compare_times (\<le>) (entry_time env e) (getTime env endDate) \<and>
     (truthy tenantId \<longrightarrow> tenantId = Some (ae_tenantId e))"

lemma accepts_wanted:
  assumes "startDate \<noteq> []" "endDate \<noteq> []"
  shows "accepts env (effective_filters tenantId (no_filters\<lparr>fl_from := Some startDate, fl_to := Some endDate\<rparr>) super) =
    wanted env startDate endDate tenantId"
proof
  fix e
  have "truthy (Some startDate)" "truthy (Some endDate)" "\<not> truthy None" using assms by (simp_all add: truthy_def)
  then show "accepts env (effective_filters tenantId (no_filters\<lparr>fl_from := Some startDate, fl_to := Some endDate\<rparr>) super) e =
      wanted env startDate endDate tenantId e"
    by (auto simp: accepts_def filtered_logs_def narrow_filter effective_filters_def no_filters_def wanted_def first_given_def Let_def)
qed

lemma sorted_distinct: "sorted_wrt (listed_before env) es \<Longrightarrow> distinct es"
  using listed_before_asym by (induction es) auto

text \<open>
  Claim C8.  An export reads every entry at most once and misses none that is there: whatever is written to
  the log between the pages, the export lists entries of the requested tenant and dates only, newest first and
  none twice, and contains every such entry that is in the log all the time.
\<close>

theorem audit_export_exactly_once:
  fixes env :: "'d js_env"
  assumes "codec_ok lib" "startDate \<noteq> []" "endDate \<noteq> []" "list_all (\<lambda>r. listable env (logs r)) repos"
    and "exportLogsStream env lib startDate endDate tenantId super repos = Some (Inr es)"
  shows "\<exists>src. es = map redactLogEntry src \<and> distinct src \<and> sorted_wrt (listed_before env) src \<and>
    (\<forall>e \<in> set src. wanted env startDate endDate tenantId e \<and> (\<exists>r \<in> set repos. e \<in> set (logs r))) \<and>
    (\<forall>e. (\<forall>r \<in> set repos. e \<in> set (logs r)) \<and> wanted env startDate endDate tenantId e \<longrightarrow> e \<in> set src)"
proof -
  let ?fs = "no_filters\<lparr>fl_from := Some startDate, fl_to := Some endDate\<rparr>"
  have scope: "truthy tenantId \<or> super" using assms(5) by (auto simp: exportLogsStream_def split: if_splits)
  then obtain src where src: "paginateLogs env lib tenantId ?fs super (int 500) (cursor_at lib (None :: 'd AuditLogEntry option)) repos = Some (Inr src)"
      "es = map redactLogEntry src"
    using assms(5) by (auto simp: exportLogsStream_def rbind_Inr_iff cursor_at_def split: if_splits)
  have run: "exported env (wanted env startDate endDate tenantId) None repos src"
    using paginate_changing [OF assms(1) zero_less_numeral scope assms(4) src(1)] unfolding accepts_wanted [OF assms(2,3)] .
  then have "distinct src" using sorted_distinct unfolding exported_def by blast
  with run src(2) show ?thesis by (intro exI [of _ src]) (simp add: exported_def beyond_simps)
qed

text \<open>
  Claim C9.  An export ends and is complete: when nothing is written meanwhile, the number of entries divided by
  the page size, plus one, is enough pages, and the export is the list of exactly the requested entries, each
  once, newest first.  Without a tenant and without the super scope nothing is read.
\<close>

theorem audit_export_terminates:
  fixes env :: "'d js_env"
  assumes "codec_ok lib" "startDate \<noteq> []" "endDate \<noteq> []" "listable env (logs repo)"
  shows "if \<not> truthy tenantId \<and> \<not> super
    then exportLogsStream env lib startDate endDate tenantId super (replicate (length (logs repo) div 500 + 1) repo) =
      Some (Inl QueryScopeRequired)
    else \<exists>src. exportLogsStream env lib startDate endDate tenantId super (replicate (length (logs repo) div 500 + 1) repo) =
        Some (Inr (map redactLogEntry src)) \<and>
      distinct src \<and> sorted_wrt (listed_before env) src \<and> set src = {e \<in> set (logs repo). wanted env startDate endDate tenantId e}"
proof (cases "truthy tenantId \<or> super")
  case False
  then show ?thesis by (simp add: exportLogsStream_def)
next
  case True
  let ?fs = "no_filters\<lparr>fl_from := Some startDate, fl_to := Some endDate\<rparr>"
  let ?all = "listing env (effective_filters tenantId ?fs super) (logs repo)"
  have "length ?all \<le> length (logs repo)" by (simp add: listing_def)
  also have "length (logs repo) \<le> (length (logs repo) div 500 + 1) * 500"
    using dividend_less_div_times [of 500 "length (logs repo)"] by simp
  finally have len: "length ?all \<le> 0 + (length (logs repo) div 500 + 1) * 500" by simp
  have "paginateLogs env lib tenantId ?fs super (int 500) (cursor_at lib (None :: 'd AuditLogEntry option)) (replicate (length (logs repo) div 500 + 1) repo) =
      Some (Inr (drop 0 ?all))"
    by (rule paginate_static [OF assms(1,4) _ True _ len]) simp_all
  then have "exportLogsStream env lib startDate endDate tenantId super (replicate (length (logs repo) div 500 + 1) repo) =
      Some (Inr (map redactLogEntry ?all))"
    using True by (simp add: exportLogsStream_def cursor_at_def)
  moreover have "sorted_wrt (listed_before env) ?all" by (rule listing_sorted [OF assms(4)])
  ultimately show ?thesis
    using True sorted_distinct [of env ?all] accepts_wanted [OF assms(2,3), of env tenantId super] by auto
qed

text \<open>What every appended entry satisfies, every entry of a log written by the service satisfies.\<close>

lemma append_all:
  assumes "\<forall>uuid now input r e r'. append_entry env uuid now input r = (Inr e, r') \<longrightarrow> P e" "list_all P (logs repo)"
  shows "list_all P (logs (snd (append_entry env uuid now input repo)))"
proof (cases "append_entry env uuid now input repo")
  case (Pair res repo')
  show ?thesis
  proof (cases res)
    case (Inl err)
    with Pair assms(2) show ?thesis by (auto simp: append_entry_def Let_def split: if_splits)
  next
    case (Inr e)
    with Pair assms(1) have "P e" by blast
    with Pair Inr assms(2) show ?thesis by (auto simp: append_entry_def Let_def split: if_splits)
  qed
qed

lemma appendBatch_all:
  assumes "\<forall>uuid now input r e r'. append_entry env uuid now input r = (Inr e, r') \<longrightarrow> P e" "list_all P (logs repo)"
  shows "list_all P (logs (snd (appendBatch env inputs repo)))"
  using assms(2)
proof (induction inputs arbitrary: repo)
  case (Cons x rest)
  obtain uuid now input where x: "x = (uuid, now, input)" by (cases x)
  obtain r repo1 where a: "append_entry env uuid now input repo = (r, repo1)" by fastforce
  then have ok: "list_all P (logs repo1)" using append_all [OF assms(1) Cons.prems, of uuid now input] by simp
  show ?case
    using ok Cons.IH [OF ok] by (cases "appendBatch env rest repo1"; cases r) (auto simp: x a split: sum.splits)
qed simp

lemma audit_run_all:
  assumes "\<forall>uuid now input r e r'. append_entry env uuid now input r = (Inr e, r') \<longrightarrow> P e" "list_all P (logs (repository svc))"
  shows "list_all P (logs (repository (foldl (audit_step env rd) svc calls)))"
  using assms(2)
proof (induction calls arbitrary: svc)
  case (Cons c calls)
  have log: "list_all P (logs (repository (snd (log_input env input uuid now svc))))" for input uuid now
    using append_all [OF assms(1) Cons.prems, of uuid now input] by (auto simp: log_input_def split: prod.splits)
  have "list_all P (logs (repository (audit_step env rd svc c)))"
  proof (cases c)
    case (ABatch inputs)
    then show ?thesis
      using appendBatch_all [OF assms(1) Cons.prems, of inputs] by (auto simp: logBatch_def split: prod.splits)
  next
    case (ARepair tenantId auth uuid now)
    then show ?thesis using Cons.prems log requestChainRepair_logs [of env rd tenantId auth uuid now svc] by auto
  next
    case (AVerify tenantCtx now)
    then show ?thesis using Cons.prems by (auto simp: verifyChain_def saveStatus_def Let_def split: prod.splits sum.splits)
  qed (use Cons.prems log in \<open>auto simp: clearLogs_def clear_logs_def clearStatus_def\<close>)
  then show ?case using Cons.IH by simp
qed simp

text \<open>
  The export does not hide who acted: in every entry the service has written, the address that is
  masked as the administrator's is also the actor's address, and there the redaction leaves it as it is.
\<close>

theorem audit_export_shows_actor:
  assumes "e \<in> set (logs (repository (foldl (audit_step env repairDetails) no_audit calls)))" "ae_actorEmail e \<noteq> []"
  shows "ae_adminEmail e = Some (ae_actorEmail e) \<and>
    ae_adminEmail (redactLogEntry e) = Some (maskEmail (ae_actorEmail e)) \<and> ae_actorEmail (redactLogEntry e) = ae_actorEmail e"
proof -
  have "list_all (\<lambda>e. ae_adminEmail e = Some (ae_actorEmail e)) (logs (repository (foldl (audit_step env repairDetails) no_audit calls)))"
    by (rule audit_run_all) (auto simp: append_entry_def no_audit_def Let_def split: if_splits)
  then have "ae_adminEmail e = Some (ae_actorEmail e)" using assms(1) by (simp add: list_all_iff)
  then show ?thesis using assms(2) by (simp add: redactLogEntry_def mask_if_def truthy_def)
qed

section \<open>Witnesses\<close>

definition export_env :: "string js_env" where
  "export_env = sample_env\<lparr>localeCompare := (\<lambda>a b. if a < b then - 1 else if a = b then 0 else 1)\<rparr>"

lemma sample_lib_ok: "codec_ok sample_lib"
  using sample_lib_codec by (simp add: codec_ok_def) (simp add: sample_lib_def sized_def)

lemma sample_listable: "listable export_env (logs (repository sample_log))"
  by code_simp

text \<open>The second entry of the sample is written while the export runs.\<close>

definition first_only :: "string InMemoryAuditLogsRepository" where
  "first_only = (repository sample_log)\<lparr>logs := take 1 (logs (repository sample_log))\<rparr>"

lemma sample_export:
  "exportLogsStream export_env sample_lib ''d'' ''far later date'' (Some ''t'') False [first_only, repository sample_log] =
   Some (Inr (map redactLogEntry (logs first_only)))"
  by code_simp

theorem audit_export_exactly_once_witness:
  "\<exists>src. map redactLogEntry (logs first_only) = map redactLogEntry src \<and> distinct src \<and> hd (logs first_only) \<in> set src"
proof -
  have lst: "list_all (\<lambda>r. listable export_env (logs r)) [first_only, repository sample_log]" by code_simp
  have "wanted export_env ''d'' ''far later date'' (Some ''t'') (hd (logs first_only))"
    "list_all (\<lambda>r. hd (logs first_only) \<in> set (logs r)) [first_only, repository sample_log]" by code_simp+
  then show ?thesis
    using audit_export_exactly_once [OF sample_lib_ok _ _ lst sample_export] by (simp add: list_all_iff) blast
qed

theorem audit_export_terminates_witness:
  "\<exists>src. exportLogsStream export_env sample_lib ''d'' ''far later date'' (Some ''t'') False [repository sample_log] =
     Some (Inr (map redactLogEntry src)) \<and> distinct src \<and>
     set src = {e \<in> set (logs (repository sample_log)). wanted export_env ''d'' ''far later date'' (Some ''t'') e}"
proof -
  have "truthy (Some ''t'')" by (simp add: truthy_def)
  then show ?thesis
    using audit_export_terminates [OF sample_lib_ok _ _ sample_listable, of "''d''" "''far later date''" "Some ''t''" False] sample_log_length
    by auto
qed

theorem audit_export_shows_actor_witness:
  "ae_actorEmail (redactLogEntry (hd (logs (repository sample_log)))) = ''unknown@unknown'' \<and>
   ae_adminEmail (redactLogEntry (hd (logs (repository sample_log)))) = Some ''u***@unknown''"
proof -
  have facts: "ae_actorEmail (hd (logs (repository sample_log))) = ''unknown@unknown''" "maskEmail ''unknown@unknown'' = ''u***@unknown''"
    by code_simp+
  have "hd (logs (repository sample_log)) \<in> set (logs (repository sample_log))"
    using sample_log_length by (metis hd_in_set length_0_conv zero_neq_numeral)
  then show ?thesis
    using audit_export_shows_actor [of "hd (logs (repository sample_log))" sample_env "\<lambda>a. ''r''" sample_calls, folded sample_log_def] facts
    by simp
qed

end
