(* ===== verification/SigningKeys.thy ===== *)
theory SigningKeys
  imports Lifecycles
begin

text \<open>
  \<open>KeyManager\<close> of \<open>src/src/services/keyManager/index.ts\<close> with the types of \<open>types.ts\<close>: signing keys, their
  rotation and the published key set.  Generating, importing and exporting keys are awaited, so \<open>initialize\<close>,
  \<open>rotate\<close> and \<open>getPublicJwks\<close> are split where they wait: what is left to do is kept in a list, and settles or
  fails later, in any order and with other calls in between.  Times are milliseconds; keys and tokens are any
  values, and signing and verifying a token are parameters.
\<close>

section \<open>State\<close>

record 'k ManagedKey =
  mk_kid :: string
  mk_state :: SigningKeyState
  mk_privateKey :: 'k
  mk_publicKey :: 'k
  mk_createdAt :: int
  mk_retiredAt :: "int option"

datatype key_event_kind = KEY_CREATED | KEY_ROTATED | KEY_RETIRED | KEY_PRUNED

record KeyAuditEvent =
  kv_timestamp :: int
  kv_event :: key_event_kind
  kv_kid :: string
  kv_previousActiveKid :: "string option"

record KeyManagerConfig =
  gracePeriodSeconds :: int
  clockSkewSeconds :: int
  privateKeyPem :: "string option"
  initialKid :: "string option"

record 'j JsonWebKey =
  jw_key :: 'j
  jw_kid :: string
  jw_alg :: string
  jw_use :: string

datatype 'k waiting = WaitInit | WaitRotate string | WaitJwks int "'k ManagedKey list"

record ('k, 'j) KeyManager =
  km_keys :: "(string, 'k ManagedKey) jsmap"
  km_activeKid :: "string option"
  km_auditLog :: "KeyAuditEvent list"
  km_jwksCache :: "'j JsonWebKey list option"
  km_jwksCacheExpiresAt :: int
  km_waiting :: "'k waiting list"

datatype key_error =
    NotInitialized
  | NoCurrentKey
  | RotationRejected
  | InvalidHeader
  | MissingKid
  | UnknownKey string
  | JwtRejected string

definition ALG :: string where "ALG = ''PS256''"
definition JWKS_CACHE_TTL_MS :: int where "JWKS_CACHE_TTL_MS = 10 * 60 * 1000"

definition newKeyManager :: "('k, 'j) KeyManager" where
  "newKeyManager = \<lparr>km_keys = [], km_activeKid = None, km_auditLog = [], km_jwksCache = None, km_jwksCacheExpiresAt = 0,
     km_waiting = []\<rparr>"

section \<open>Operations\<close>

definition emitAudit :: "int \<Rightarrow> key_event_kind \<Rightarrow> string \<Rightarrow> string option \<Rightarrow> ('k, 'j) KeyManager \<Rightarrow> ('k, 'j) KeyManager" where
  "emitAudit now ev kid prev km =
     km\<lparr>km_auditLog := km_auditLog km @ [\<lparr>kv_timestamp = now, kv_event = ev, kv_kid = kid, kv_previousActiveKid = prev\<rparr>]\<rparr>"

definition invalidateJwksCache :: "('k, 'j) KeyManager \<Rightarrow> ('k, 'j) KeyManager" where
  "invalidateJwksCache km = km\<lparr>km_jwksCache := None, km_jwksCacheExpiresAt := 0\<rparr>"

definition wait_for :: "'k waiting \<Rightarrow> ('k, 'j) KeyManager \<Rightarrow> ('k, 'j) KeyManager" where
  "wait_for w km = km\<lparr>km_waiting := km_waiting km @ [w]\<rparr>"

text \<open>\<open>_generateKey\<close> and \<open>_importKey\<close> once the key material is there.\<close>

definition addKey :: "int \<Rightarrow> string \<Rightarrow> 'k \<Rightarrow> 'k \<Rightarrow> ('k, 'j) KeyManager \<Rightarrow> ('k, 'j) KeyManager" where
  "addKey now kid privateKey publicKey km =
     km\<lparr>km_keys := map_set kid \<lparr>mk_kid = kid, mk_state = SKActive, mk_privateKey = privateKey, mk_publicKey = publicKey,
          mk_createdAt = now, mk_retiredAt = None\<rparr> (km_keys km),
        km_activeKid := Some kid\<rparr>"

definition initialize :: "('k, 'j) KeyManager \<Rightarrow> ('k, 'j) KeyManager" where
  "initialize km = (if km_activeKid km \<noteq> None then km else wait_for WaitInit km)"

definition initial_kid :: "KeyManagerConfig \<Rightarrow> string \<Rightarrow> string" where
  "initial_kid cfg uuid =
     (if truthy (privateKeyPem cfg) then case initialKid cfg of Some kid \<Rightarrow> kid | None \<Rightarrow> uuid else uuid)"

definition initialize_settled :: "KeyManagerConfig \<Rightarrow> int \<Rightarrow> string \<Rightarrow> 'k \<Rightarrow> 'k \<Rightarrow> ('k, 'j) KeyManager \<Rightarrow> ('k, 'j) KeyManager" where
  "initialize_settled cfg now uuid privateKey publicKey km =
     (let kid = initial_kid cfg uuid
      in invalidateJwksCache (emitAudit now KEY_CREATED kid None (addKey now kid privateKey publicKey km)))"

text \<open>\<open>this.keys.get(this.activeKid)!\<close> may be undefined; reading a field of it is then a TypeError, here
  \<open>NoCurrentKey\<close>.\<close>

definition getCurrentKey :: "('k, 'j) KeyManager \<Rightarrow> (key_error, 'k ManagedKey option) result" where
  "getCurrentKey km = (case km_activeKid km of None \<Rightarrow> Inl NotInitialized | Some kid \<Rightarrow> Inr (map_get (km_keys km) kid))"

definition isInitialized :: "('k, 'j) KeyManager \<Rightarrow> bool" where
  "isInitialized km = (km_activeKid km \<noteq> None)"

definition windowMs :: "KeyManagerConfig \<Rightarrow> int" where
  "windowMs cfg = (gracePeriodSeconds cfg + clockSkewSeconds cfg) * 1000"

definition verifies :: "KeyManagerConfig \<Rightarrow> int \<Rightarrow> 'k ManagedKey \<Rightarrow> bool" where
  "verifies cfg now k \<longleftrightarrow>
     (if mk_state k = SKActive then True
      else case mk_retiredAt k of None \<Rightarrow> False | Some r \<Rightarrow> now - r < windowMs cfg)"

definition getAllVerificationKeys :: "KeyManagerConfig \<Rightarrow> int \<Rightarrow> ('k, 'j) KeyManager \<Rightarrow> 'k ManagedKey list" where
  "getAllVerificationKeys cfg now km = filter (verifies cfg now) (map_values (km_keys km))"

definition rotate :: "int \<Rightarrow> (('k, 'j) KeyManager, key_error, unit) exec" where
  "rotate now km =
     (case getCurrentKey km of
        Inl e \<Rightarrow> (Inl e, km)
      | Inr None \<Rightarrow> (Inl NoCurrentKey, km)
      | Inr (Some previous) \<Rightarrow>
          if \<not> success (trySigningKeyTransition (mk_state previous) SKRetired) then (Inl RotationRejected, km)
          else
            let retiredKid = mk_kid previous;
                km1 = km\<lparr>km_keys := map_set (the (km_activeKid km)) (previous\<lparr>mk_state := SKRetired, mk_retiredAt := Some now\<rparr>) (km_keys km)\<rparr>
            in (Inr (), wait_for (WaitRotate retiredKid) (emitAudit now KEY_RETIRED retiredKid None km1)))"

definition prunable :: "KeyManagerConfig \<Rightarrow> int \<Rightarrow> 'k ManagedKey \<Rightarrow> bool" where
  "prunable cfg now k \<longleftrightarrow>
     mk_state k = SKRetired \<and> (case mk_retiredAt k of None \<Rightarrow> False | Some r \<Rightarrow> now - r \<ge> windowMs cfg)"

definition pruneExpiredKeys :: "KeyManagerConfig \<Rightarrow> int \<Rightarrow> ('k, 'j) KeyManager \<Rightarrow> string list \<times> ('k, 'j) KeyManager" where
  "pruneExpiredKeys cfg now km =
     (let pruned = map fst (filter (\<lambda>(kid, k). prunable cfg now k) (km_keys km));
          km1 = foldl (\<lambda>m kid. emitAudit now KEY_PRUNED kid None (m\<lparr>km_keys := map_delete kid (km_keys m)\<rparr>)) km pruned
      in (pruned, if pruned \<noteq> [] then invalidateJwksCache km1 else km1))"

definition rotate_settled :: "KeyManagerConfig \<Rightarrow> int \<Rightarrow> string \<Rightarrow> string \<Rightarrow> 'k \<Rightarrow> 'k \<Rightarrow> ('k, 'j) KeyManager \<Rightarrow> ('k, 'j) KeyManager" where
  "rotate_settled cfg now retiredKid uuid privateKey publicKey km =
     (let km1 = emitAudit now KEY_ROTATED uuid (Some retiredKid) (addKey now uuid privateKey publicKey km)
      in invalidateJwksCache (snd (pruneExpiredKeys cfg now km1)))"

definition getPublicJwks :: "KeyManagerConfig \<Rightarrow> int \<Rightarrow> ('k, 'j) KeyManager \<Rightarrow> 'j JsonWebKey list option \<times> ('k, 'j) KeyManager" where
  "getPublicJwks cfg now km =
     (if km_jwksCache km \<noteq> None \<and> now < km_jwksCacheExpiresAt km then (km_jwksCache km, km)
      else (None, wait_for (WaitJwks now (getAllVerificationKeys cfg now km)) km))"

definition jwks_settled :: "('k \<Rightarrow> 'j) \<Rightarrow> int \<Rightarrow> 'k ManagedKey list \<Rightarrow> ('k, 'j) KeyManager \<Rightarrow> ('k, 'j) KeyManager" where
  "jwks_settled exportJWK now ks km =
     km\<lparr>km_jwksCache := Some (map (\<lambda>k. \<lparr>jw_key = exportJWK (mk_publicKey k), jw_kid = mk_kid k, jw_alg = ALG, jw_use = ''sig''\<rparr>) ks),
        km_jwksCacheExpiresAt := now + JWKS_CACHE_TTL_MS\<rparr>"

definition signToken :: "('p \<Rightarrow> string \<Rightarrow> string \<Rightarrow> string \<Rightarrow> 'k \<Rightarrow> string) \<Rightarrow> 'p \<Rightarrow> string option \<Rightarrow> ('k, 'j) KeyManager \<Rightarrow> (key_error, string) result" where
  "signToken sign payload expiresIn km =
     (case getCurrentKey km of
        Inl e \<Rightarrow> Inl e
      | Inr None \<Rightarrow> Inl NoCurrentKey
      | Inr (Some k) \<Rightarrow> Inr (sign payload ALG (mk_kid k) (case expiresIn of Some e \<Rightarrow> e | None \<Rightarrow> ''1h'') (mk_privateKey k)))"

definition verifyToken ::
  "(string \<Rightarrow> string option option) \<Rightarrow> (string \<Rightarrow> 'k \<Rightarrow> int \<Rightarrow> (key_error, 'p) result) \<Rightarrow> KeyManagerConfig \<Rightarrow> int \<Rightarrow> string \<Rightarrow>
   ('k, 'j) KeyManager \<Rightarrow> (key_error, 'p) result" where
  "verifyToken decodeHeader jwtVerify cfg now token km =
     (case decodeHeader token of
        None \<Rightarrow> Inl InvalidHeader
      | Some kid \<Rightarrow>
          if \<not> truthy kid then Inl MissingKid
          else case find (\<lambda>k. mk_kid k = the kid) (getAllVerificationKeys cfg now km) of
            None \<Rightarrow> Inl (UnknownKey (the kid))
          | Some managedKey \<Rightarrow> jwtVerify token (mk_publicKey managedKey) (clockSkewSeconds cfg))"

definition resetStore :: "('k, 'j) KeyManager \<Rightarrow> ('k, 'j) KeyManager" where
  "resetStore km = invalidateJwksCache (km\<lparr>km_keys := [], km_activeKid := None, km_auditLog := []\<rparr>)"

section \<open>Runs\<close>

datatype 'k key_call =
    KInitialize
  | KRotate
  | KPrune
  | KJwks
  | KReset
  | KSettle nat string 'k 'k
  | KFail nat

definition drop_nth :: "nat \<Rightarrow> 'a list \<Rightarrow> 'a list" where
  "drop_nth i xs = take i xs @ drop (Suc i) xs"

fun settle :: "KeyManagerConfig \<Rightarrow> ('k \<Rightarrow> 'j) \<Rightarrow> int \<Rightarrow> string \<Rightarrow> 'k \<Rightarrow> 'k \<Rightarrow> 'k waiting \<Rightarrow> ('k, 'j) KeyManager \<Rightarrow> ('k, 'j) KeyManager" where
  "settle cfg exportJWK now uuid priv pub WaitInit km = initialize_settled cfg now uuid priv pub km"
| "settle cfg exportJWK now uuid priv pub (WaitRotate kid) km = rotate_settled cfg now kid uuid priv pub km"
| "settle cfg exportJWK now uuid priv pub (WaitJwks t ks) km = jwks_settled exportJWK t ks km"

fun key_step :: "KeyManagerConfig \<Rightarrow> ('k \<Rightarrow> 'j) \<Rightarrow> ('k, 'j) KeyManager \<Rightarrow> int \<times> 'k key_call \<Rightarrow> ('k, 'j) KeyManager" where
  "key_step cfg exportJWK km (now, KInitialize) = initialize km"
| "key_step cfg exportJWK km (now, KRotate) = snd (rotate now km)"
| "key_step cfg exportJWK km (now, KPrune) = snd (pruneExpiredKeys cfg now km)"
| "key_step cfg exportJWK km (now, KJwks) = snd (getPublicJwks cfg now km)"
| "key_step cfg exportJWK km (now, KReset) = resetStore km"
| "key_step cfg exportJWK km (now, KSettle i uuid priv pub) =
     (if i < length (km_waiting km)
      then settle cfg exportJWK now uuid priv pub (km_waiting km ! i) (km\<lparr>km_waiting := drop_nth i (km_waiting km)\<rparr>)
      else km)"
| "key_step cfg exportJWK km (now, KFail i) =
     (if i < length (km_waiting km) then km\<lparr>km_waiting := drop_nth i (km_waiting km)\<rparr> else km)"


section \<open>The key store\<close>

named_theorems key_defs \<open>the operations of the key manager\<close>

declare emitAudit_def [key_defs] invalidateJwksCache_def [key_defs] wait_for_def [key_defs] addKey_def [key_defs]
  initialize_def [key_defs] initialize_settled_def [key_defs] rotate_settled_def [key_defs] getPublicJwks_def [key_defs]
  jwks_settled_def [key_defs] resetStore_def [key_defs] Let_def [key_defs]

lemma set_drop_nth: "set (drop_nth i xs) \<subseteq> set xs"
  unfolding drop_nth_def using set_take_subset [of i xs] set_drop_subset [of "Suc i" xs] by auto

lemma try_retire [simp]: "success (trySigningKeyTransition s SKRetired) \<longleftrightarrow> s = SKActive"
  by (cases s) (auto simp: trySigningKeyTransition_def signing_key_tm.try_success signing_key_tm.isValid_iff lifecycle_edges)

lemma prune_fold:
  "foldl (\<lambda>m kid. emitAudit now KEY_PRUNED kid None (m\<lparr>km_keys := map_delete kid (km_keys m)\<rparr>)) km kids =
   km\<lparr>km_keys := foldl (\<lambda>ks kid. map_delete kid ks) (km_keys km) kids,
      km_auditLog := km_auditLog km @ map (\<lambda>kid. \<lparr>kv_timestamp = now, kv_event = KEY_PRUNED, kv_kid = kid, kv_previousActiveKid = None\<rparr>) kids\<rparr>"
  by (induction kids arbitrary: km) (simp_all add: emitAudit_def)

lemma fold_delete_get:
  "map_get (foldl (\<lambda>ks kid. map_delete kid ks) m kids) k = (if k \<in> set kids then None else map_get m k)"
  by (induction kids arbitrary: m) (auto simp: store_simps)

lemma fold_delete_wf: "map_wf m \<Longrightarrow> map_wf (foldl (\<lambda>ks kid. map_delete kid ks) m kids)"
  by (induction kids arbitrary: m) (simp_all add: map_wf_delete)

lemma prune_frame [simp]:
  "km_activeKid (snd (pruneExpiredKeys cfg now km)) = km_activeKid km"
  "km_waiting (snd (pruneExpiredKeys cfg now km)) = km_waiting km"
  by (simp_all add: pruneExpiredKeys_def prune_fold invalidateJwksCache_def Let_def)

lemma prune_keys:
  "km_keys (snd (pruneExpiredKeys cfg now km)) =
     foldl (\<lambda>ks kid. map_delete kid ks) (km_keys km) (map fst (filter (\<lambda>(kid, k). prunable cfg now k) (km_keys km)))"
  by (simp add: pruneExpiredKeys_def prune_fold invalidateJwksCache_def Let_def)

lemma prune_get:
  assumes "map_wf (km_keys km)"
  shows "map_get (km_keys (snd (pruneExpiredKeys cfg now km))) kid = Some k \<longleftrightarrow>
    map_get (km_keys km) kid = Some k \<and> \<not> prunable cfg now k"
proof -
  have "kid \<in> set (map fst (filter (\<lambda>(kid, k). prunable cfg now k) (km_keys km))) \<longleftrightarrow>
      (\<exists>k. map_get (km_keys km) kid = Some k \<and> prunable cfg now k)"
    using assms by (force simp: map_wf_def)
  then show ?thesis unfolding prune_keys fold_delete_get by auto
qed

definition keys_ok :: "('k, 'j) KeyManager \<Rightarrow> bool" where
  "keys_ok km \<longleftrightarrow> map_wf (km_keys km) \<and>
     (\<forall>kid k. map_get (km_keys km) kid = Some k \<longrightarrow> mk_kid k = kid \<and> (mk_state k = SKActive \<longleftrightarrow> mk_retiredAt k = None))"

lemma keys_ok_prune: "keys_ok km \<Longrightarrow> keys_ok (snd (pruneExpiredKeys cfg now km))"
  unfolding keys_ok_def by (simp add: prune_get, simp add: prune_keys fold_delete_wf) blast

lemma keys_ok_wf: "keys_ok km \<Longrightarrow> map_wf (km_keys km)"
  by (simp add: keys_ok_def)

lemma keys_ok_get:
  "keys_ok km \<Longrightarrow> map_get (km_keys km) kid = Some k \<Longrightarrow> mk_kid k = kid \<and> (mk_state k = SKActive \<longleftrightarrow> mk_retiredAt k = None)"
  by (simp add: keys_ok_def)

lemma keys_ok_addKey: "keys_ok km \<Longrightarrow> keys_ok (addKey now kid priv pub km)"
  by (auto simp: keys_ok_def addKey_def store_simps map_wf_set)

lemma keys_ok_retire:
  "keys_ok km \<Longrightarrow> map_get (km_keys km) kid = Some k \<Longrightarrow>
   keys_ok (km\<lparr>km_keys := map_set kid (k\<lparr>mk_state := SKRetired, mk_retiredAt := Some now\<rparr>) (km_keys km)\<rparr>)"
  by (auto simp: keys_ok_def store_simps map_wf_set)

lemma keys_ok_frame [simp]:
  "keys_ok (emitAudit now ev kid prev km) = keys_ok km"
  "keys_ok (invalidateJwksCache km) = keys_ok km"
  "keys_ok (wait_for w km) = keys_ok km"
  "keys_ok (km\<lparr>km_waiting := ws\<rparr>) = keys_ok km"
  by (simp_all add: keys_ok_def key_defs)

lemma rotate_cases:
  obtains (refused) e where "rotate now km = (Inl e, km)"
  | (accepted) kid k where "km_activeKid km = Some kid" "map_get (km_keys km) kid = Some k" "mk_state k = SKActive"
      "rotate now km = (Inr (), wait_for (WaitRotate (mk_kid k)) (emitAudit now KEY_RETIRED (mk_kid k) None
         (km\<lparr>km_keys := map_set kid (k\<lparr>mk_state := SKRetired, mk_retiredAt := Some now\<rparr>) (km_keys km)\<rparr>)))"
proof (cases "\<exists>kid k. km_activeKid km = Some kid \<and> map_get (km_keys km) kid = Some k \<and> mk_state k = SKActive")
  case True
  then show thesis by (auto simp: rotate_def getCurrentKey_def Let_def intro: accepted)
next
  case False
  then have "\<exists>e. rotate now km = (Inl e, km)"
    by (auto simp: rotate_def getCurrentKey_def split: option.splits)
  then show thesis using refused by blast
qed

lemma keys_ok_settle: "keys_ok km \<Longrightarrow> keys_ok (settle cfg ex now uuid priv pub w km)"
  by (cases w) (simp_all add: initialize_settled_def rotate_settled_def Let_def keys_ok_addKey keys_ok_prune,
    simp add: keys_ok_def jwks_settled_def)

lemma keys_ok_step: "keys_ok km \<Longrightarrow> keys_ok (key_step cfg ex km c)"
proof (induction cfg ex km c rule: key_step.induct)
  case (2 cfg ex km now)
  then show ?case by (cases rule: rotate_cases [of now km]) (simp_all add: keys_ok_retire)
qed (simp_all add: keys_ok_prune keys_ok_settle initialize_def getPublicJwks_def resetStore_def,
  simp add: keys_ok_def)

interpretation key_runs: step_system "key_step cfg ex" keys_ok
  by unfold_locales (rule keys_ok_step)

lemma keys_ok_new: "keys_ok newKeyManager"
  by (simp add: keys_ok_def newKeyManager_def)

lemmas keys_ok_run = key_runs.run_inv [OF keys_ok_new]

section \<open>A signed token stays verifiable\<close>

definition key_kept :: "int \<Rightarrow> 'k ManagedKey \<Rightarrow> ('k, 'j) KeyManager \<Rightarrow> bool" where
  "key_kept since key km \<longleftrightarrow> keys_ok km \<and> km_activeKid km \<noteq> None \<and> WaitInit \<notin> set (km_waiting km) \<and>
     (\<exists>k. map_get (km_keys km) (mk_kid key) = Some k \<and> mk_publicKey k = mk_publicKey key \<and>
       (case mk_retiredAt k of None \<Rightarrow> True | Some r \<Rightarrow> since \<le> r))"

definition quiet :: "int \<Rightarrow> int \<Rightarrow> string \<Rightarrow> int \<times> 'k key_call \<Rightarrow> bool" where
  "quiet since now kid e \<longleftrightarrow> since \<le> fst e \<and> fst e \<le> now \<and>
     (case snd e of KReset \<Rightarrow> False | KSettle i uuid priv pub \<Rightarrow> uuid \<noteq> kid | _ \<Rightarrow> True)"

lemma kept_not_prunable:
  "(case mk_retiredAt k of None \<Rightarrow> True | Some r \<Rightarrow> since \<le> r) \<Longrightarrow> t - since < windowMs cfg \<Longrightarrow> \<not> prunable cfg t k"
  by (auto simp: prunable_def split: option.splits)

lemma kept_prune: "key_kept since key km \<Longrightarrow> t - since < windowMs cfg \<Longrightarrow> key_kept since key (snd (pruneExpiredKeys cfg t km))"
  unfolding key_kept_def by (simp add: keys_ok_prune prune_get keys_ok_wf) (metis kept_not_prunable)

lemma kept_frame:
  "keys_ok km' = keys_ok km \<Longrightarrow> km_keys km' = km_keys km \<Longrightarrow> km_activeKid km' = km_activeKid km \<Longrightarrow>
   set (km_waiting km') \<subseteq> insert (WaitRotate kid) (insert (WaitJwks t ks) (set (km_waiting km))) \<Longrightarrow>
   key_kept since key km \<Longrightarrow> key_kept since key km'"
  by (auto simp: key_kept_def)

lemma kept_addKey: "key_kept since key km \<Longrightarrow> uuid \<noteq> mk_kid key \<Longrightarrow> key_kept since key (addKey t uuid priv pub km)"
  by (simp add: key_kept_def keys_ok_addKey) (auto simp: addKey_def store_simps)

lemma kept_retire:
  assumes "key_kept since key km" "map_get (km_keys km) kid = Some k" "since \<le> t"
  shows "key_kept since key (km\<lparr>km_keys := map_set kid (k\<lparr>mk_state := SKRetired, mk_retiredAt := Some t\<rparr>) (km_keys km)\<rparr>)"
  using assms by (auto simp: key_kept_def keys_ok_retire store_simps)

lemma kept_simps [simp]:
  "key_kept since key (emitAudit t ev kid prev km) = key_kept since key km"
  "key_kept since key (invalidateJwksCache km) = key_kept since key km"
  "key_kept since key (jwks_settled ex t ks km) = key_kept since key km"
  "key_kept since key (wait_for w km) \<longleftrightarrow> w \<noteq> WaitInit \<and> key_kept since key km"
  by (auto simp: key_kept_def key_defs keys_ok_def)

lemma kept_drop: "key_kept since key km \<Longrightarrow> key_kept since key (km\<lparr>km_waiting := drop_nth i (km_waiting km)\<rparr>)"
  using set_drop_nth [of i "km_waiting km"] by (auto simp: key_kept_def)

lemma kept_step:
  assumes "key_kept since key km" "quiet since now (mk_kid key) e" "now - since < windowMs cfg"
  shows "key_kept since key (key_step cfg ex km e)"
  using assms
proof (induction cfg ex km e rule: key_step.induct)
  case (1 cfg ex km t)
  then show ?case by (simp add: initialize_def key_kept_def)
next
  case (2 cfg ex km t)
  then show ?case by (cases rule: rotate_cases [of t km]) (simp_all add: kept_retire quiet_def)
next
  case (6 cfg ex km t i uuid priv pub)
  have "km_waiting km ! i \<noteq> WaitInit" if "i < length (km_waiting km)"
    using 6(1) nth_mem [OF that] by (auto simp: key_kept_def)
  with 6 show ?case
    by (cases "km_waiting km ! i")
      (auto simp: quiet_def rotate_settled_def Let_def intro!: kept_prune kept_addKey kept_drop)
qed (simp_all add: quiet_def kept_prune kept_drop getPublicJwks_def)

lemma kept_run:
  "key_kept since key km \<Longrightarrow> now - since < windowMs cfg \<Longrightarrow> list_all (quiet since now (mk_kid key)) es \<Longrightarrow>
   key_kept since key (foldl (key_step cfg ex) km es)"
  by (induction es arbitrary: km) (simp_all add: kept_step [where now = now])

lemma kept_found:
  assumes "key_kept since key km" "now - since < windowMs cfg"
  shows "\<exists>k. find (\<lambda>k. mk_kid k = mk_kid key) (getAllVerificationKeys cfg now km) = Some k \<and> mk_publicKey k = mk_publicKey key"
proof -
  from assms obtain k where k: "map_get (km_keys km) (mk_kid key) = Some k" "mk_publicKey k = mk_publicKey key"
    "case mk_retiredAt k of None \<Rightarrow> True | Some r \<Rightarrow> since \<le> r" and ok: "keys_ok km" by (auto simp: key_kept_def)
  have wf: "map_wf (km_keys km)" by (rule keys_ok_wf [OF ok])
  have kid: "mk_kid k = mk_kid key" and state: "mk_state k = SKActive \<longleftrightarrow> mk_retiredAt k = None"
    using keys_ok_get [OF ok k(1)] by simp_all
  have mem: "k \<in> set (map_values (km_keys km))" using k(1) map_values_get [OF wf] by blast
  have "verifies cfg now k" using k(3) state assms(2) by (cases "mk_retiredAt k") (simp_all add: verifies_def)
  moreover have "\<forall>y\<in>set (map_values (km_keys km)). mk_kid y = mk_kid key \<longrightarrow> y = k"
  proof (intro ballI impI)
    fix y assume "y \<in> set (map_values (km_keys km))" and y: "mk_kid y = mk_kid key"
    then obtain kid' where get: "map_get (km_keys km) kid' = Some y" using map_values_get [OF wf] by blast
    with keys_ok_get [OF ok get] k(1) y show "y = k" by simp
  qed
  ultimately have "find (\<lambda>k. mk_kid k = mk_kid key) (filter (verifies cfg now) (map_values (km_keys km))) = Some k"
    using mem kid by (intro find_unique [where x = k]) auto
  then show ?thesis using k(2) unfolding getAllVerificationKeys_def by simp
qed

text \<open>Claim C12. A token signed by the current key at time \<open>since\<close> is handed to the signature check with the
  public half of that very key at any later time inside the grace and skew window, whatever rotations, prunings,
  key-set requests and settlings or failures of key generation happened in between, in whatever order.  The
  hypotheses: the token's header carries the key id it was signed with, new key ids differ from it, no second
  initialisation is under way and the store is not reset.\<close>

theorem signed_token_verifiable:
  assumes km: "km = foldl (key_step cfg ex) newKeyManager past"
    and "signToken sign payload expiresIn km = Inr token"
    and "getCurrentKey km = Inr (Some key)" and "mk_state key = SKActive" and "mk_kid key \<noteq> ''''"
    and "decodeHeader token = Some (Some (mk_kid key))"
    and "WaitInit \<notin> set (km_waiting km)"
    and "list_all (quiet since now (mk_kid key)) later" and "now - since < windowMs cfg"
  shows "verifyToken decodeHeader jwtVerify cfg now token (foldl (key_step cfg ex) km later) =
    jwtVerify token (mk_publicKey key) (clockSkewSeconds cfg)"
proof -
  have "keys_ok km" unfolding km by (rule keys_ok_run)
  moreover from this have "map_get (km_keys km) (mk_kid key) = Some key" "km_activeKid km \<noteq> None"
    using assms(3) by (auto simp: getCurrentKey_def keys_ok_def split: option.splits)
  moreover from calculation have "mk_retiredAt key = None" using assms(4) by (auto simp: keys_ok_def)
  ultimately have "key_kept since key km" using assms(7) by (simp add: key_kept_def)
  then have "key_kept since key (foldl (key_step cfg ex) km later)" using assms(8,9) by (intro kept_run)
  from kept_found [OF this assms(9)] show ?thesis using assms(5,6) by (auto simp: verifyToken_def truthy_def)
qed

definition example_config :: KeyManagerConfig where
  "example_config = \<lparr>gracePeriodSeconds = 60, clockSkewSeconds = 5, privateKeyPem = None, initialKid = None\<rparr>"

definition example_manager :: "(int, int) KeyManager" where
  "example_manager = foldl (key_step example_config id) newKeyManager [(0, KInitialize), (1, KSettle 0 ''k1'' 10 11)]"

lemma example_manager:
  "example_manager = newKeyManager\<lparr>km_keys := [(''k1'', \<lparr>mk_kid = ''k1'', mk_state = SKActive, mk_privateKey = 10,
       mk_publicKey = 11, mk_createdAt = 1, mk_retiredAt = None\<rparr>)],
     km_activeKid := Some ''k1'',
     km_auditLog := [\<lparr>kv_timestamp = 1, kv_event = KEY_CREATED, kv_kid = ''k1'', kv_previousActiveKid = None\<rparr>]\<rparr>"
  by (simp add: example_manager_def key_defs newKeyManager_def initial_kid_def truthy_def drop_nth_def example_config_def)

theorem signed_token_verifiable_witness:
  "verifyToken (\<lambda>s. Some (Some s)) (\<lambda>s k n. Inr (s, k, n)) example_config 70000 ''k1''
     (foldl (key_step example_config id) example_manager
       [(10000, KRotate), (20000, KSettle 0 ''k2'' 20 21), (70000, KPrune)]) = Inr (''k1'', 11, 5)"
  using signed_token_verifiable [OF example_manager_def, where sign = "\<lambda>p alg kid e k. kid" and payload = "()"
      and expiresIn = None and token = "''k1''" and decodeHeader = "\<lambda>s. Some (Some s)"
      and jwtVerify = "\<lambda>s k n. Inr (s, k, n)" and since = 9000 and now = 70000
      and later = "[(10000, KRotate), (20000, KSettle 0 ''k2'' 20 21), (70000, KPrune)]"
      and key = "\<lparr>mk_kid = ''k1'', mk_state = SKActive, mk_privateKey = 10, mk_publicKey = 11, mk_createdAt = 1, mk_retiredAt = None\<rparr>"]
  by (simp add: example_manager newKeyManager_def getCurrentKey_def signToken_def quiet_def windowMs_def example_config_def)

section \<open>A failed rotation\<close>

definition stuck :: "string \<Rightarrow> ('k, 'j) KeyManager \<Rightarrow> bool" where
  "stuck kid km \<longleftrightarrow> keys_ok km \<and> km_activeKid km = Some kid \<and>
     (\<forall>k. map_get (km_keys km) kid = Some k \<longrightarrow> mk_state k = SKRetired) \<and>
     (\<forall>w\<in>set (km_waiting km). \<exists>t ks. w = WaitJwks t ks)"

lemma stuck_rotate: "stuck kid km \<Longrightarrow> fst (rotate now km) \<in> {Inl RotationRejected, Inl NoCurrentKey} \<and> snd (rotate now km) = km"
  by (auto simp: stuck_def rotate_def getCurrentKey_def split: option.splits)

lemma stuck_jwks: "stuck kid (jwks_settled ex t ks km) = stuck kid km"
  by (simp add: stuck_def jwks_settled_def keys_ok_def)

lemma stuck_drop: "stuck kid km \<Longrightarrow> stuck kid (km\<lparr>km_waiting := drop_nth i (km_waiting km)\<rparr>)"
  using set_drop_nth [of i "km_waiting km"] by (simp add: stuck_def subset_iff)

lemma stuck_step: "stuck kid km \<Longrightarrow> snd e \<noteq> KReset \<Longrightarrow> stuck kid (key_step cfg ex km e)"
proof (induction cfg ex km e rule: key_step.induct)
  case (2 cfg ex km t)
  then show ?case using stuck_rotate by force
next
  case (3 cfg ex km t)
  then show ?case by (simp add: stuck_def keys_ok_prune prune_get keys_ok_wf)
next
  case (4 cfg ex km t)
  then show ?case by (simp add: stuck_def getPublicJwks_def) (simp add: wait_for_def)
next
  case (6 cfg ex km t i uuid priv pub)
  show ?case
  proof (cases "i < length (km_waiting km)")
    case True
    then obtain u ks where "km_waiting km ! i = WaitJwks u ks" using 6(1) nth_mem [OF True] unfolding stuck_def by metis
    with True show ?thesis by (simp add: stuck_jwks stuck_drop [OF 6(1)])
  qed (simp add: 6(1))
next
  case (7 cfg ex km t i)
  then show ?case by (simp add: stuck_drop)
qed (simp_all add: initialize_def, simp add: stuck_def)

lemma stuck_run: "stuck kid km \<Longrightarrow> \<forall>e\<in>set es. snd e \<noteq> KReset \<Longrightarrow> stuck kid (foldl (key_step cfg ex) km es)"
  by (induction es arbitrary: km) (simp_all add: stuck_step)

text \<open>Claim C34. \<open>rotate\<close> retires the current key before it waits for the new one.  When generating the new key
  fails, no later rotation succeeds, at any time and after any calls but a reset: each one is refused, and the
  current key stays the retired one (until pruning removes it and signing fails too).\<close>

theorem failed_rotation_blocks:
  assumes km: "km = foldl (key_step cfg ex) newKeyManager past"
    and "getCurrentKey km = Inr (Some key)" and "mk_state key = SKActive"
    and "\<forall>w\<in>set (km_waiting km). \<exists>t ks. w = WaitJwks t ks" and "\<forall>e\<in>set later. snd e \<noteq> KReset"
    and "km' = foldl (key_step cfg ex) km ([(t, KRotate), (u, KFail (length (km_waiting km)))] @ later)"
  shows "fst (rotate t km) = Inr () \<and> fst (rotate now km') \<in> {Inl RotationRejected, Inl NoCurrentKey} \<and>
    (\<forall>k. getCurrentKey km' = Inr (Some k) \<longrightarrow> mk_kid k = mk_kid key \<and> mk_state k = SKRetired)"
proof -
  have ok: "keys_ok km" unfolding km by (rule keys_ok_run)
  from assms(2) obtain kid where act: "km_activeKid km = Some kid" "map_get (km_keys km) kid = Some key"
    by (auto simp: getCurrentKey_def split: option.splits)
  with keys_ok_get [OF ok act(2)] have kid: "km_activeKid km = Some kid" "map_get (km_keys km) kid = Some key" "mk_kid key = kid"
    by simp_all
  then have rot: "rotate t km = (Inr (), wait_for (WaitRotate kid) (emitAudit t KEY_RETIRED kid None
      (km\<lparr>km_keys := map_set kid (key\<lparr>mk_state := SKRetired, mk_retiredAt := Some t\<rparr>) (km_keys km)\<rparr>)))"
    using assms(3) by (simp add: rotate_def getCurrentKey_def Let_def)
  have "stuck kid (key_step cfg ex (snd (rotate t km)) (u, KFail (length (km_waiting km))))"
    using kid ok assms(4) keys_ok_retire [OF ok kid(2), of t]
    by (simp add: rot stuck_def wait_for_def emitAudit_def drop_nth_def store_simps) (simp add: keys_ok_def)
  then have "stuck kid (foldl (key_step cfg ex) (key_step cfg ex (snd (rotate t km)) (u, KFail (length (km_waiting km)))) later)"
    using assms(5) by (rule stuck_run)
  then have st: "stuck kid km'" unfolding assms(6) by (simp only: append_Cons append_Nil foldl.simps key_step.simps(2))
  then have "\<forall>k. getCurrentKey km' = Inr (Some k) \<longrightarrow> mk_kid k = mk_kid key \<and> mk_state k = SKRetired"
    using kid(3) keys_ok_get [of km'] by (simp add: stuck_def getCurrentKey_def)
  moreover have "fst (rotate t km) = Inr ()" unfolding rot by simp
  ultimately show ?thesis using stuck_rotate [OF st, of now] by blast
qed

theorem failed_rotation_blocks_witness:
  "fst (rotate 9 (foldl (key_step example_config id) example_manager
     [(2, KRotate), (3, KFail 0), (4, KInitialize), (5, KPrune)])) \<in> {Inl RotationRejected, Inl NoCurrentKey}"
  using failed_rotation_blocks [OF example_manager_def, where t = 2 and u = 3 and now = 9
      and later = "[(4, KInitialize), (5, KPrune)]"
      and key = "\<lparr>mk_kid = ''k1'', mk_state = SKActive, mk_privateKey = 10, mk_publicKey = 11, mk_createdAt = 1, mk_retiredAt = None\<rparr>"]
  by (simp add: example_manager newKeyManager_def getCurrentKey_def)

end
