(* ===== verification/Keks.thy ===== *)
theory Keks
  imports Lifecycles
begin

text \<open>
  \<open>KekManager\<close> of \<open>src/src/services/keyManager/index.ts\<close>: versioned key-encryption keys under dual control.
  A version is registered, approved by distinct people, activated (which retires the previous one), and retired
  material is wiped.  Key material is a list of bytes.  A call that throws leaves what it wrote before.
\<close>

section \<open>State\<close>

record KekVersion =
  kek_version :: nat
  kek_keyMaterial :: "nat list"
  kek_state :: KekLifecycleState
  kek_createdAt :: int
  kek_retiredAt :: "int option"

record KekApproval =
  ka_version :: nat
  ka_approvedBy :: string
  ka_approvedAt :: int

datatype kek_event_kind = KEK_REGISTERED | KEK_ACTIVATED | KEK_RETIRED | KEK_ZEROIZED

record KekAuditEvent =
  ke_timestamp :: int
  ke_event :: kek_event_kind
  ke_version :: nat
  ke_previousVersion :: "nat option"

record KekManager =
  kek_versions :: "(nat, KekVersion) jsmap"
  kek_currentVersion :: "nat option"
  kek_pendingApprovals :: "(nat, KekApproval list) jsmap"
  kek_auditLog :: "KekAuditEvent list"

datatype kek_error =
    BadKeyLength
  | VersionNotFound nat
  | AlreadyActive nat
  | AlreadyApproved string nat
  | NeedsApprovals nat nat nat
  | ActivationRejected
  | SupersedeRejected
  | NoActiveKek

definition newKekManager :: KekManager where
  "newKekManager = \<lparr>kek_versions = [], kek_currentVersion = None, kek_pendingApprovals = [], kek_auditLog = []\<rparr>"

definition REQUIRED_APPROVALS :: nat where "REQUIRED_APPROVALS = 2"

section \<open>Operations\<close>

definition kek_emitAudit :: "int \<Rightarrow> kek_event_kind \<Rightarrow> nat \<Rightarrow> nat option \<Rightarrow> KekManager \<Rightarrow> KekManager" where
  "kek_emitAudit now ev v prev m =
     m\<lparr>kek_auditLog := kek_auditLog m @ [\<lparr>ke_timestamp = now, ke_event = ev, ke_version = v, ke_previousVersion = prev\<rparr>]\<rparr>"

definition put_version :: "nat \<Rightarrow> KekVersion \<Rightarrow> KekManager \<Rightarrow> KekManager" where
  "put_version v k m = m\<lparr>kek_versions := map_set v k (kek_versions m)\<rparr>"

definition registerVersion :: "int \<Rightarrow> nat list \<Rightarrow> (KekManager, kek_error, nat \<times> bool) exec" where
  "registerVersion now keyMaterial m =
     (if length keyMaterial \<noteq> 32 then (Inl BadKeyLength, m)
      else
        let version = length (kek_versions m) + 1;
            kek = \<lparr>kek_version = version, kek_keyMaterial = keyMaterial, kek_state = KekRetired, kek_createdAt = now, kek_retiredAt = None\<rparr>;
            m1 = put_version version kek m;
            m2 = m1\<lparr>kek_pendingApprovals := map_set version [] (kek_pendingApprovals m1)\<rparr>;
            m3 = kek_emitAudit now KEK_REGISTERED version None m2
        in if kek_currentVersion m3 = None
           then let m4 = put_version version (kek\<lparr>kek_state := KekActive\<rparr>) m3
                in (Inr (version, True), kek_emitAudit now KEK_ACTIVATED version None (m4\<lparr>kek_currentVersion := Some version\<rparr>))
           else (Inr (version, False), m3))"

definition getPendingApprovals :: "nat \<Rightarrow> KekManager \<Rightarrow> KekApproval list" where
  "getPendingApprovals v m = (case map_get (kek_pendingApprovals m) v of Some as \<Rightarrow> as | None \<Rightarrow> [])"

definition approveActivation :: "int \<Rightarrow> nat \<Rightarrow> string \<Rightarrow> (KekManager, kek_error, unit) exec" where
  "approveActivation now v approvedBy m =
     (case map_get (kek_versions m) v of
        None \<Rightarrow> (Inl (VersionNotFound v), m)
      | Some kek \<Rightarrow>
          if kek_state kek = KekActive then (Inl (AlreadyActive v), m)
          else
            let approvals = getPendingApprovals v m
            in if list_ex (\<lambda>a. ka_approvedBy a = approvedBy) approvals then (Inl (AlreadyApproved approvedBy v), m)
               else (Inr (), m\<lparr>kek_pendingApprovals :=
                 map_set v (approvals @ [\<lparr>ka_version = v, ka_approvedBy = approvedBy, ka_approvedAt = now\<rparr>]) (kek_pendingApprovals m)\<rparr>))"

text \<open>Retiring the previous version inside \<open>activateVersion\<close>; \<open>this.versions.get(previousVersion)!\<close> is one of the
  versions whenever there is a current one.\<close>

definition supersede :: "int \<Rightarrow> (KekManager, kek_error, unit) exec" where
  "supersede now m =
     (case kek_currentVersion m of
        None \<Rightarrow> (Inr (), m)
      | Some previousVersion \<Rightarrow>
          (case map_get (kek_versions m) previousVersion of
             None \<Rightarrow> (Inl NoActiveKek, m)
           | Some prev \<Rightarrow>
               if \<not> success (tryKekTransition (kek_state prev) KekRetired) then (Inl SupersedeRejected, m)
               else (Inr (), kek_emitAudit now KEK_RETIRED previousVersion None
                       (put_version previousVersion (prev\<lparr>kek_state := KekRetired, kek_retiredAt := Some now\<rparr>) m))))"

definition activateVersion :: "int \<Rightarrow> nat \<Rightarrow> (KekManager, kek_error, unit) exec" where
  "activateVersion now v m =
     (case map_get (kek_versions m) v of
        None \<Rightarrow> (Inl (VersionNotFound v), m)
      | Some kek \<Rightarrow>
          if kek_state kek = KekActive then (Inl (AlreadyActive v), m)
          else if length (getPendingApprovals v m) < REQUIRED_APPROVALS
          then (Inl (NeedsApprovals v REQUIRED_APPROVALS (length (getPendingApprovals v m))), m)
          else if \<not> success (tryKekTransition (kek_state kek) KekActive) then (Inl ActivationRejected, m)
          else
            case supersede now m of
              (Inl e, m1) \<Rightarrow> (Inl e, m1)
            | (Inr _, m1) \<Rightarrow>
                (Inr (), kek_emitAudit now KEK_ACTIVATED v (kek_currentVersion m)
                   ((put_version v (kek\<lparr>kek_state := KekActive\<rparr>) m1)\<lparr>kek_currentVersion := Some v\<rparr>)))"

definition getCurrentKek :: "KekManager \<Rightarrow> (kek_error, KekVersion) result" where
  "getCurrentKek m =
     (case kek_currentVersion m of
        None \<Rightarrow> Inl NoActiveKek
      | Some v \<Rightarrow> (case map_get (kek_versions m) v of None \<Rightarrow> Inl NoActiveKek | Some k \<Rightarrow> Inr k))"

definition getVersion :: "nat \<Rightarrow> KekManager \<Rightarrow> (kek_error, KekVersion) result" where
  "getVersion v m = (case map_get (kek_versions m) v of None \<Rightarrow> Inl (VersionNotFound v) | Some k \<Rightarrow> Inr k)"

definition getAllVersions :: "KekManager \<Rightarrow> KekVersion list" where
  "getAllVersions m = map_values (kek_versions m)"

definition wipeable :: "KekVersion \<Rightarrow> bool" where
  "wipeable k \<longleftrightarrow> kek_state k = KekRetired \<and> kek_keyMaterial k \<noteq> []"

definition wipe :: "KekVersion \<Rightarrow> KekVersion" where
  "wipe k = k\<lparr>kek_keyMaterial := map (\<lambda>_. 0) (kek_keyMaterial k)\<rparr>"

definition zeroizeRetired :: "int \<Rightarrow> KekManager \<Rightarrow> nat list \<times> KekManager" where
  "zeroizeRetired now m =
     (let zeroized = map kek_version (filter wipeable (map_values (kek_versions m)))
      in (zeroized,
          foldl (\<lambda>m v. kek_emitAudit now KEK_ZEROIZED v None m)
            (m\<lparr>kek_versions := map (\<lambda>(v, k). (v, if wipeable k then wipe k else k)) (kek_versions m)\<rparr>) zeroized))"

definition kek_resetStore :: "KekManager \<Rightarrow> KekManager" where
  "kek_resetStore m = newKekManager"

section \<open>Runs\<close>

datatype kek_call =
    Register "nat list"
  | Approve nat string
  | Activate nat
  | Zeroize
  | Reset

fun kek_step :: "KekManager \<Rightarrow> int \<times> kek_call \<Rightarrow> KekManager" where
  "kek_step m (now, Register km) = snd (registerVersion now km m)"
| "kek_step m (now, Approve v who) = snd (approveActivation now v who m)"
| "kek_step m (now, Activate v) = snd (activateVersion now v m)"
| "kek_step m (now, Zeroize) = snd (zeroizeRetired now m)"
| "kek_step m (now, Reset) = kek_resetStore m"

abbreviation kek_run :: "(int \<times> kek_call) list \<Rightarrow> KekManager" where
  "kek_run es \<equiv> foldl kek_step newKekManager es"

section \<open>The invariant\<close>

text \<open>
  Versions are numbered from one in the order they were registered, each stored under its own number with 32
  bytes of material; the current version is the only active one, and there is one as soon as anything is
  registered; each version's approvers are distinct.
\<close>

definition numbered :: "(nat, 'v) jsmap \<Rightarrow> bool" where
  "numbered vs \<longleftrightarrow> map fst vs = [1..<Suc (length vs)]"

definition kek_ok :: "KekManager \<Rightarrow> bool" where
  "kek_ok m \<longleftrightarrow>
     numbered (kek_versions m) \<and>
     (kek_currentVersion m = None \<longleftrightarrow> kek_versions m = []) \<and>
     (\<forall>v. kek_currentVersion m = Some v \<longrightarrow> map_has (kek_versions m) v) \<and>
     (\<forall>v k. map_get (kek_versions m) v = Some k \<longrightarrow>
        kek_version k = v \<and> length (kek_keyMaterial k) = 32 \<and> (kek_state k = KekActive \<longleftrightarrow> kek_currentVersion m = Some v)) \<and>
     (\<forall>v. distinct (map ka_approvedBy (getPendingApprovals v m)))"

named_theorems kek_defs \<open>the operations of the KEK manager\<close>

declare kek_emitAudit_def [kek_defs] put_version_def [kek_defs] Let_def [kek_defs] getPendingApprovals_def [kek_defs]

lemma try_kek [simp]: "success (tryKekTransition a b) \<longleftrightarrow> a \<noteq> b"
  by (cases a; cases b) (auto simp: tryKekTransition_def kek_tm.try_success kek_tm.isValid_iff lifecycle_edges)

lemma map_fst_set: "map fst (map_set k v m) = (if map_has m k then map fst m else map fst m @ [k])"
  by (induction m) (auto simp: map_has_iff)

lemma map_has_set: "map_has (map_set k v m) k' \<longleftrightarrow> k' = k \<or> map_has m k'"
  by (auto simp: map_has_iff)

lemma numbered_simps:
  "numbered []" "numbered [(Suc 0, k)]" "map_has [(v, k)] v"
  "map_has vs v \<Longrightarrow> numbered (map_set v k vs) = numbered vs"
  "\<not> map_has vs (Suc (length vs)) \<Longrightarrow> numbered vs \<Longrightarrow> numbered (map_set (Suc (length vs)) k vs)"
  "numbered (map (\<lambda>(v, k). (v, f k)) vs) = numbered vs"
  by (simp_all add: numbered_def map_fst_set length_map_set comp_def case_prod_beta' map_has_iff)

lemma zeroize_simps:
  "kek_versions (snd (zeroizeRetired now m)) = map (\<lambda>(v, k). (v, if wipeable k then wipe k else k)) (kek_versions m)"
  "kek_currentVersion (snd (zeroizeRetired now m)) = kek_currentVersion m"
  "kek_pendingApprovals (snd (zeroizeRetired now m)) = kek_pendingApprovals m"
proof -
  have "foldl (\<lambda>m v. kek_emitAudit now KEK_ZEROIZED v None m) x vs =
      x\<lparr>kek_auditLog := kek_auditLog x @ map (\<lambda>v. \<lparr>ke_timestamp = now, ke_event = KEK_ZEROIZED, ke_version = v, ke_previousVersion = None\<rparr>) vs\<rparr>" for x vs
    by (induction vs arbitrary: x) (simp_all add: kek_emitAudit_def)
  then show "kek_versions (snd (zeroizeRetired now m)) = map (\<lambda>(v, k). (v, if wipeable k then wipe k else k)) (kek_versions m)"
    "kek_currentVersion (snd (zeroizeRetired now m)) = kek_currentVersion m"
    "kek_pendingApprovals (snd (zeroizeRetired now m)) = kek_pendingApprovals m"
    by (simp_all add: zeroizeRetired_def Let_def)
qed

lemma map_of_wiped:
  "map_get (map (\<lambda>(v, k). (v, if wipeable k then wipe k else k)) m) v =
     map_option (\<lambda>k. if wipeable k then wipe k else k) (map_get m v)"
  by (induction m) auto

lemma kek_ok_has:
  assumes "kek_ok m"
  shows "map_has (kek_versions m) v \<longleftrightarrow> 1 \<le> v \<and> v \<le> length (kek_versions m)"
proof -
  have "fst ` set (kek_versions m) = set [1..<Suc (length (kek_versions m))]"
    using assms unfolding kek_ok_def numbered_def by (metis list.set_map)
  then show ?thesis by (auto simp: map_has_iff)
qed

lemma kek_ok_wf: "kek_ok m \<Longrightarrow> map_wf (kek_versions m)"
  by (simp add: kek_ok_def numbered_def map_wf_def)

lemma kek_ok_current:
  assumes "kek_ok m" "kek_currentVersion m = Some v"
  obtains k where "map_get (kek_versions m) v = Some k" "kek_state k = KekActive"
  using assms by (fastforce simp: kek_ok_def map_has_def)

lemma supersede_ok:
  assumes "kek_ok m"
  shows "supersede now m =
    (Inr (), case kek_currentVersion m of None \<Rightarrow> m
      | Some v \<Rightarrow> kek_emitAudit now KEK_RETIRED v None (put_version v
          ((the (map_get (kek_versions m) v))\<lparr>kek_state := KekRetired, kek_retiredAt := Some now\<rparr>) m))"
proof (cases "kek_currentVersion m")
  case (Some v)
  with assms obtain k where "map_get (kek_versions m) v = Some k" "kek_state k = KekActive" by (rule kek_ok_current)
  with Some show ?thesis by (simp add: supersede_def)
qed (simp add: supersede_def)

lemma activateVersion_cases:
  assumes "kek_ok m"
  obtains (refused) e where "activateVersion now v m = (Inl e, m)"
  | (activated) k prev kp where "map_get (kek_versions m) v = Some k" "kek_state k = KekRetired"
      "REQUIRED_APPROVALS \<le> length (getPendingApprovals v m)" "kek_currentVersion m = Some prev" "prev \<noteq> v"
      "map_get (kek_versions m) prev = Some kp"
      "activateVersion now v m = (Inr (), kek_emitAudit now KEK_ACTIVATED v (Some prev)
         ((put_version v (k\<lparr>kek_state := KekActive\<rparr>) (kek_emitAudit now KEK_RETIRED prev None
            (put_version prev (kp\<lparr>kek_state := KekRetired, kek_retiredAt := Some now\<rparr>) m)))\<lparr>kek_currentVersion := Some v\<rparr>))"
proof (cases "\<exists>k. map_get (kek_versions m) v = Some k \<and> kek_state k = KekRetired \<and> REQUIRED_APPROVALS \<le> length (getPendingApprovals v m)")
  case True
  then obtain k where k: "map_get (kek_versions m) v = Some k" "kek_state k = KekRetired"
    "REQUIRED_APPROVALS \<le> length (getPendingApprovals v m)" by blast
  then have "kek_versions m \<noteq> []" by auto
  with assms obtain prev where prev: "kek_currentVersion m = Some prev" by (auto simp: kek_ok_def)
  with assms obtain kp where kp: "map_get (kek_versions m) prev = Some kp" "kek_state kp = KekActive"
    by (rule kek_ok_current)
  with k have "prev \<noteq> v" by auto
  with k prev kp show thesis using activated supersede_ok [OF assms] by (simp add: activateVersion_def)
next
  case False
  then have "\<exists>e. activateVersion now v m = (Inl e, m)"
    by (cases "map_get (kek_versions m) v"; cases "kek_state (the (map_get (kek_versions m) v))") (auto simp: activateVersion_def)
  then show thesis using refused by blast
qed

lemma kek_ok_activate: "kek_ok m \<Longrightarrow> kek_ok (snd (activateVersion now v m))"
proof -
  assume ok: "kek_ok m"
  show ?thesis
  using ok proof (cases rule: activateVersion_cases [of m now v])
  case (activated k prev kp)
  have has: "map_has (kek_versions m) v" "map_has (kek_versions m) prev" using activated by (simp_all add: map_has_def)
  then show ?thesis using ok activated(1-6) unfolding activated(7) kek_ok_def
    by (auto simp: kek_defs numbered_simps map_has_set store_simps)
  qed (simp add: ok)
qed

lemma kek_ok_approve: "kek_ok m \<Longrightarrow> kek_ok (snd (approveActivation now v who m))"
  by (auto simp: kek_ok_def approveActivation_def kek_defs store_simps list_ex_iff split: option.splits if_splits)

lemma kek_ok_zeroize: "kek_ok m \<Longrightarrow> kek_ok (snd (zeroizeRetired now m))"
  unfolding kek_ok_def getPendingApprovals_def zeroize_simps map_of_wiped
  by (auto simp: numbered_simps map_has_def map_of_wiped wipe_def)

lemma kek_ok_register: "kek_ok m \<Longrightarrow> kek_ok (snd (registerVersion now km m))"
proof -
  assume ok: "kek_ok m"
  let ?n = "Suc (length (kek_versions m))"
  have fresh: "\<not> map_has (kek_versions m) ?n" using kek_ok_has [OF ok] by simp
  then have "map_get (kek_versions m) ?n = None" by (simp add: map_has_def)
  with ok fresh show ?thesis
    by (auto simp: kek_ok_def registerVersion_def kek_defs store_simps numbered_simps map_has_set split: if_splits)
qed

lemma kek_ok_step: "kek_ok m \<Longrightarrow> kek_ok (kek_step m e)"
  by (induction m e rule: kek_step.induct)
    (simp_all add: kek_ok_register kek_ok_approve kek_ok_activate kek_ok_zeroize,
      simp add: kek_resetStore_def kek_ok_def newKekManager_def numbered_def getPendingApprovals_def)

interpretation kek_runs: step_system kek_step kek_ok
  by unfold_locales (rule kek_ok_step)

lemma kek_ok_new: "kek_ok newKekManager"
  by (simp add: kek_ok_def newKekManager_def numbered_def getPendingApprovals_def)

text \<open>Claim C30. The KEK store is well-formed after any calls: versions are numbered consecutively from one and
  stored under their own number, all key material has 32 bytes, the current version is registered and is the one
  and only active version, there is one as soon as anything was registered, and no one is recorded twice as an
  approver of a version.\<close>

theorem kek_store_well_formed: "kek_ok (kek_run es)"
  by (rule kek_runs.run_inv [OF kek_ok_new])

section \<open>Dual control\<close>

lemma approvals_step:
  assumes "kek_ok m" "a \<in> set (getPendingApprovals v (kek_step m (t, c)))"
  shows "a \<in> set (getPendingApprovals v m) \<or> c = Approve v (ka_approvedBy a)"
proof (cases c)
  case (Activate u)
  show ?thesis using assms(2) Activate
    by (cases rule: activateVersion_cases [OF assms(1), of t u]) (auto simp: kek_defs)
qed (use assms(2) in \<open>auto simp: registerVersion_def approveActivation_def kek_resetStore_def newKekManager_def
    zeroize_simps kek_defs store_simps split: option.splits if_splits\<close>)

lemma approvals_traced:
  "a \<in> set (getPendingApprovals v (kek_run es)) \<Longrightarrow> \<exists>t. (t, Approve v (ka_approvedBy a)) \<in> set es"
proof (induction es rule: rev_induct)
  case Nil
  then show ?case by (simp add: newKekManager_def getPendingApprovals_def)
next
  case (snoc e es)
  obtain t c where e: "e = (t, c)" by (cases e)
  with snoc.prems approvals_step [OF kek_runs.run_inv [OF kek_ok_new], of a v es t c] snoc.IH show ?case by auto
qed

lemma two_distinct: "distinct xs \<Longrightarrow> 2 \<le> length xs \<Longrightarrow> \<exists>a b. a \<in> set xs \<and> b \<in> set xs \<and> a \<noteq> b"
  by (cases xs; cases "tl xs") auto

lemma kek_active_unique:
  assumes "kek_ok m" "kek_currentVersion m = Some v" "map_get (kek_versions m) v = Some k"
  shows "k' \<in> set (getAllVersions m) \<and> kek_state k' = KekActive \<longleftrightarrow> k' = k"
proof -
  have "k' \<in> set (getAllVersions m) \<longleftrightarrow> (\<exists>v. map_get (kek_versions m) v = Some k')"
    unfolding getAllVersions_def by (rule map_values_get [OF kek_ok_wf [OF assms(1)]])
  with assms show ?thesis unfolding kek_ok_def by (metis option.inject)
qed

text \<open>Claim C13. Dual control: whenever an activation succeeds, two different people had approved that very version
  by earlier calls, and afterwards that version, with the material it had, is the one and only active one.\<close>

theorem kek_dual_control:
  assumes "activateVersion now v (kek_run es) = (Inr (), m')"
  shows "(\<exists>a b s t. a \<noteq> b \<and> (s, Approve v a) \<in> set es \<and> (t, Approve v b) \<in> set es) \<and>
    (\<exists>k. getVersion v (kek_run es) = Inr k \<and> getCurrentKek m' = Inr (k\<lparr>kek_state := KekActive\<rparr>) \<and>
      (\<forall>k'. k' \<in> set (getAllVersions m') \<and> kek_state k' = KekActive \<longleftrightarrow> k' = k\<lparr>kek_state := KekActive\<rparr>))"
proof -
  have ok: "kek_ok (kek_run es)" by (rule kek_runs.run_inv [OF kek_ok_new])
  show ?thesis using ok
  proof (cases rule: activateVersion_cases [of "kek_run es" now v])
    case (activated k prev kp)
    have "distinct (map ka_approvedBy (getPendingApprovals v (kek_run es)))" using ok by (simp add: kek_ok_def)
    with two_distinct [OF this] activated(3) obtain a b where "a \<in> set (getPendingApprovals v (kek_run es))"
      "b \<in> set (getPendingApprovals v (kek_run es))" "ka_approvedBy a \<noteq> ka_approvedBy b"
      by (auto simp: REQUIRED_APPROVALS_def)
    with approvals_traced have people: "\<exists>a b s t. a \<noteq> b \<and> (s, Approve v a) \<in> set es \<and> (t, Approve v b) \<in> set es" by metis
    have m': "kek_ok m'" using kek_ok_activate [OF ok, of now v] assms by simp
    have cur: "kek_currentVersion m' = Some v" "map_get (kek_versions m') v = Some (k\<lparr>kek_state := KekActive\<rparr>)"
      using activated(7) assms by (auto simp: kek_defs store_simps)
    then have "getCurrentKek m' = Inr (k\<lparr>kek_state := KekActive\<rparr>)" by (simp add: getCurrentKek_def)
    moreover have "getVersion v (kek_run es) = Inr k" using activated(1) by (simp add: getVersion_def)
    ultimately show ?thesis using people kek_active_unique [OF m' cur] by blast
  qed (use assms in simp)
qed

definition example_calls :: "(int \<times> kek_call) list" where
  "example_calls = [(0, Register (replicate 32 7)), (1, Register (replicate 32 8)), (2, Approve 2 ''ann''), (3, Approve 2 ''bob'')]"

theorem kek_dual_control_witness:
  "(\<exists>a b s t. a \<noteq> b \<and> (s, Approve 2 a) \<in> set example_calls \<and> (t, Approve 2 b) \<in> set example_calls) \<and>
   (\<exists>k. getVersion 2 (kek_run example_calls) = Inr k \<and>
     getCurrentKek (snd (activateVersion 9 2 (kek_run example_calls))) = Inr (k\<lparr>kek_state := KekActive\<rparr>))"
proof -
  have "activateVersion 9 2 (kek_run example_calls) = (Inr (), snd (activateVersion 9 2 (kek_run example_calls)))"
    by code_simp
  from kek_dual_control [OF this] show ?thesis by blast
qed

section \<open>Wiping a version that is not active yet\<close>

lemma activate_succeeds:
  assumes "kek_ok m" "map_get (kek_versions m) v = Some k" "kek_state k = KekRetired"
    and "REQUIRED_APPROVALS \<le> length (getPendingApprovals v m)"
  shows "getCurrentKek (snd (activateVersion now v m)) = Inr (k\<lparr>kek_state := KekActive\<rparr>)"
  using assms supersede_ok [OF assms(1), of now]
  by (simp add: activateVersion_def getCurrentKek_def kek_defs store_simps)

lemma register_pending:
  assumes "kek_ok m" "kek_versions m \<noteq> []" "length km = 32" "v = Suc (length (kek_versions m))"
  shows "map_get (kek_versions (snd (registerVersion t km m))) v =
      Some \<lparr>kek_version = v, kek_keyMaterial = km, kek_state = KekRetired, kek_createdAt = t, kek_retiredAt = None\<rparr>"
    and "getPendingApprovals v (snd (registerVersion t km m)) = []"
  using assms by (auto simp: registerVersion_def kek_ok_def kek_defs store_simps)

lemma approve_adds:
  assumes "map_get (kek_versions m) v = Some k" "kek_state k = KekRetired" "\<forall>a\<in>set (getPendingApprovals v m). ka_approvedBy a \<noteq> who"
  shows "kek_versions (snd (approveActivation t v who m)) = kek_versions m"
    and "getPendingApprovals v (snd (approveActivation t v who m)) =
      getPendingApprovals v m @ [\<lparr>ka_version = v, ka_approvedBy = who, ka_approvedAt = t\<rparr>]"
  using assms by (auto simp: approveActivation_def kek_defs store_simps list_ex_iff)

text \<open>Claim C35. \<open>zeroizeRetired\<close> wipes every version that is not active, also one that was just registered and waits
  for its approvals.  Approved and activated afterwards, the current key-encryption key is 32 zero bytes.\<close>

theorem kek_zeroized_then_activated:
  assumes "kek_versions (kek_run es) \<noteq> []" and "length km = 32" and "a \<noteq> b"
    and v: "v = Suc (length (kek_versions (kek_run es)))"
  shows "\<exists>k. getCurrentKek (kek_run (es @ [(t, Register km), (t, Zeroize), (t, Approve v a), (t, Approve v b), (t, Activate v)])) = Inr k \<and>
    kek_version k = v \<and> kek_state k = KekActive \<and> kek_keyMaterial k = replicate 32 0"
proof -
  have ok: "kek_ok (kek_run es)" by (rule kek_runs.run_inv [OF kek_ok_new])
  define m1 where "m1 = snd (registerVersion t km (kek_run es))"
  define m2 where "m2 = snd (zeroizeRetired t m1)"
  define m3 where "m3 = snd (approveActivation t v a m2)"
  define m4 where "m4 = snd (approveActivation t v b m3)"
  let ?k = "\<lparr>kek_version = v, kek_keyMaterial = replicate 32 0, kek_state = KekRetired, kek_createdAt = t, kek_retiredAt = None\<rparr>"
  have k2: "map_get (kek_versions m2) v = Some ?k" "getPendingApprovals v m2 = []"
    unfolding m1_def m2_def zeroize_simps map_of_wiped register_pending(1) [OF ok assms(1,2) v] getPendingApprovals_def
    using register_pending(2) [OF ok assms(1,2) v] assms(2)
    by (auto simp: wipeable_def wipe_def getPendingApprovals_def map_replicate_const)
  have k3: "kek_versions m3 = kek_versions m2" "map ka_approvedBy (getPendingApprovals v m3) = [a]"
    using approve_adds [OF k2(1), of a t] k2(2) by (simp_all add: m3_def)
  then have "map_get (kek_versions m3) v = Some ?k" "\<forall>x\<in>set (getPendingApprovals v m3). ka_approvedBy x \<noteq> b"
    using k2(1) assms(3) by auto
  from approve_adds [OF this(1) _ this(2), of t] this(1) k3
  have k4: "map_get (kek_versions m4) v = Some ?k" "length (getPendingApprovals v m4) = 2"
    by (auto simp: m4_def)
  have "kek_ok m4" unfolding m4_def m3_def m2_def m1_def
    by (intro kek_ok_approve kek_ok_zeroize kek_ok_register ok)
  from activate_succeeds [OF this k4(1), of t] k4(2)
  have "getCurrentKek (snd (activateVersion t v m4)) = Inr (?k\<lparr>kek_state := KekActive\<rparr>)"
    by (simp add: REQUIRED_APPROVALS_def)
  then show ?thesis by (simp add: m1_def m2_def m3_def m4_def)
qed

theorem kek_zeroized_then_activated_witness:
  "\<exists>k. getCurrentKek (kek_run ([(0, Register (replicate 32 7))] @
      [(5, Register (replicate 32 8)), (5, Zeroize), (5, Approve 2 ''ann''), (5, Approve 2 ''bob''), (5, Activate 2)])) = Inr k \<and>
    kek_version k = 2 \<and> kek_state k = KekActive \<and> kek_keyMaterial k = replicate 32 0"
  by (rule kek_zeroized_then_activated) code_simp+

end
