(* ===== verification/Spec2Isabelle.thy ===== *)
theory Spec2Isabelle
  imports BondAmount FeeEngine ListenerLease Settlement Disputes Voting Multisig RingBuffer CircuitBreaker Policy Wallets AuditVerifier AuditExport SigningKeys Keks
begin

text \<open>
  A verification library for the Credence backend (TypeScript, sources under \<open>src/src\<close>).

  The backend records bonds, attestations, settlements and wallets of a trust protocol and exposes them over
  HTTP.  HTTP routes validate a request, page it and call a service; services keep state in maps, in PostgreSQL
  through repositories, or in Redis; listeners ingest Horizon events under a lease; jobs verify and clean up in
  the background.  The library models the parts whose behaviour is decided by the sources themselves, and
  takes what the sources only call (the database driver, hash functions, JSON, dates, locale collation) as
  parameters of the definitions that use it, with the documented behaviour a theorem relies on as its hypothesis.

  Conventions.  A fallible operation returns \<open>'e + 'a\<close> (\<open>Inl\<close> is what is thrown); a stateful one maps a state to
  a result and a state (\<open>exec\<close>), so that what was written before an exception stays written.  A JavaScript
  \<open>Map\<close> is an association list in insertion order (\<open>jsmap\<close>), \<open>bigint\<close> and safe integers are \<open>int\<close>, strings are
  lists of characters, the clock and random ids are arguments.  An \<open>await\<close> between two statements of one
  operation is kept as a point where others may act wherever a theorem depends on it (the lease, the
  circuit breaker, transactions); elsewhere an operation is one step.  Sequences of calls are folds of a step
  function over a datatype of calls.

  \<^bold>\<open>Shared theories.\<close>
  \<^item> \<open>Prelude\<close>: results, state passing, maps, strings, decimal digits; the locales \<open>keyed_store\<close> (what a map
    promises) and \<open>step_system\<close>, \<open>ordered_step_system\<close> (invariants and monotone facts along runs), interpreted
    by the components below.
  \<^item> \<open>Sorting\<close>: \<open>Array.prototype.sort\<close> as a stable insertion sort, correct for every comparator that is a
    total preorder on the sorted elements (locale \<open>comparator\<close>), and pages of a sorted list.

  \<^bold>\<open>Amounts.\<close>
  \<^item> \<open>DecimalMath\<close> (\<open>lib/decimalMath.ts\<close>): decimal strings denote exact rationals; addition, subtraction,
    multiplication and comparison are exact; division and rounding return the exact value rounded in the given mode;
    the NUMERIC guard accepts exactly the representable values.
  \<^item> \<open>BondAmount\<close> (\<open>lib/bondAmountMath.ts\<close>), \<open>FeeEngine\<close> (\<open>services/billing/feeEngine.ts\<close>, \<open>types.ts\<close>): clamped
    subtraction, the snapshot rule, fees rounded at the currency's scale and exact totals.
  \<^item> \<open>Transactions\<close> (\<open>db/transaction.ts\<close>): \<open>withTransaction\<close> with lock timeouts, retries, budgets and hooks,
    over an arbitrary callback and arbitrary answers of the database; a transaction is all or nothing.
  \<^item> \<open>Wallets\<close> (\<open>db/repositories/walletsRepository.ts\<close>, \<open>walletTransactionsRepository.ts\<close>, the wallet tables of
    \<open>db/schema.ts\<close>): credits and debits through \<open>Transactions\<close>; the ledger explains every balance.

  \<^bold>\<open>Lifecycles and ingestion.\<close>
  \<^item> \<open>StateTransition\<close> (\<open>lib/stateTransition.ts\<close>) and \<open>Lifecycles\<close> (\<open>disputeStateMachine.ts\<close>,
    \<open>outbox/transitions.ts\<close>, \<open>horizonTransitions.ts\<close>, \<open>settlementTransitions.ts\<close>, \<open>keyTransitions.ts\<close>): the matrix
    class (locale \<open>transition_matrix\<close>) and its instances, with their sinks.
  \<^item> \<open>NodeIngestion\<close> (\<open>db/repository.ts\<close>, \<open>listeners/horizon.listeners.ts\<close>): \<open>handleEvent\<close> over every repository
    that satisfies the locale \<open>ingestion_repository\<close>; nodes move along legal transitions only.
  \<^item> \<open>ListenerLease\<close> (\<open>LeaseManager\<close>, \<open>LeasedHorizonListener\<close>): any number of processes on one lease table, any
    interleaving; at most one can write a cursor, and an evicted one is fenced off.
  \<^item> \<open>Settlement\<close> (\<open>settlementsRepository.ts\<close>, \<open>shadowWrite.ts\<close>, \<open>settlementService.ts\<close>): upserts, shadow writes
    and the lifecycle check.

  \<^bold>\<open>Governance and access.\<close>
  \<^item> \<open>Disputes\<close>, \<open>Voting\<close>, \<open>Multisig\<close> (\<open>services/governance/\<close>): the dispute store with its keyset listing, votes,
    the arbitration log and slash requests, multi-signature proposals over the in-memory storage and their Redis
    representation.
  \<^item> \<open>Rbac\<close> (\<open>services/rbac/policyEngine.ts\<close>, \<open>types/rbac.ts\<close>) and \<open>Policy\<close> (\<open>services/policy/\<close>): the decisions are
    characterised by the rules, for \<open>Policy\<close> through its read cache.
  \<^item> \<open>SigningKeys\<close> and \<open>Keks\<close> (\<open>services/keyManager/\<close>): signing keys with rotation, grace window, pruning and the
    published key set, where calls overlap at every \<open>await\<close>; key-encryption keys under dual control.

  \<^bold>\<open>Audit trail.\<close>
  \<^item> \<open>AuditLog\<close> (\<open>services/audit/\<close>, \<open>auditLogsRepository.ts\<close>, \<open>auditChainVerificationRepository.ts\<close>): the
    hash-chained log; what the service writes verifies, and a verified log is determined by its last hash.
  \<^item> \<open>AuditVerifier\<close> (\<open>jobs/auditChainVerifier.ts\<close>): the batched verifier terminates and equals one pass over the
    sorted table.
  \<^item> \<open>AuditExport\<close> (\<open>query\<close>, \<open>getLogs\<close>, \<open>paginateLogs\<close>, \<open>exportLogsStream\<close>, \<open>redactLogEntry\<close>, \<open>getTopTalkers\<close>): an
    export over the cursors of \<open>Pagination\<close>, with writes between its pages.

  \<^bold>\<open>Infrastructure.\<close>
  \<^item> \<open>RingBuffer\<close> (\<open>jobs/ringBuffer.ts\<close>) refines a bounded queue (locale \<open>bounded_queue\<close>).
  \<^item> \<open>CircuitBreaker\<close> (\<open>clients/circuitBreaker.ts\<close>): start and settlement of calls as separate steps.
  \<^item> \<open>Pagination\<close> (\<open>lib/pagination.ts\<close>): signed cursors, request parameters, links read back as requests.

  Theorems that show a defect say so in their statement: what the code does is proved, and the place where
  the documentation or another module says otherwise is listed with the findings.

  Bounds and fuel.  Loops are structural recursions or functions with a termination proof: the retry loop of
  \<open>withTransaction\<close> decreases the retries left, the verifier the rows beyond the last sequence number.  The
  purge runs the number of rounds the source computes, and it is proved to be enough.  Integers of \<open>Number\<close> are
  exact in the models; where the code depends on the safe range (verification state, pagination) the bound is
  part of the definition or of the hypothesis.

  \<^bold>\<open>Not modelled.\<close>  Express wiring, route handlers, middleware and schema declarations (calls into the modelled
  services and into third-party libraries); SQL repositories other than those named above and the migrations,
  whose behaviour is that of SQL texts; the transactional outbox repository and publisher, which do not parse or
  run as they are (undeclared variables, a declaration inside a class body); Redis caches, with expiry on the
  server; webhook delivery over HTTP; reputation scores, which are floating point computations with
  exponentials; API keys, which are calls into the crypto library around a table; metrics, logging and
  tracing; generated clients; scripts and tests.
\<close>

end
